(* ===== verification/Prelude.thy ===== *)
theory Prelude
  imports Main "HOL-Library.Word"
begin

text \<open>
  What every component of the model shares: the machine integers and the time line, the
  exceptions of the program, programs over a world state that may throw, the two clocks,
  and the functions of the C++ standard library that the source calls
  (\<^verbatim>\<open>std::to_string\<close>, \<^verbatim>\<open>std::stoll\<close>, \<^verbatim>\<open>std::isspace\<close>,
  \<^verbatim>\<open>vector::resize\<close>). Nothing here is particular to one component.
\<close>

named_theorems prog_simps \<open>rules that run a program of the state-and-exception monad\<close>
named_theorems op_defs \<open>definitions of the operations of the back ends\<close>

subsection \<open>Integers and time\<close>

type_synonym int64 = "64 word"
type_synonym int32 = "32 word"

text \<open>
  A time point is a count of nanoseconds since the epoch of its clock, a duration of
  \<^verbatim>\<open>std::chrono::seconds\<close> is a count of seconds.
\<close>

type_synonym time = int
type_synonym secs = int

definition ns_per_sec :: int where
  "ns_per_sec = 1000000000"

definition ns_of_secs :: "secs \<Rightarrow> time" where
  "ns_of_secs s = s * ns_per_sec"

lemma ns_per_sec_pos [simp]: "0 < ns_per_sec"
  by (simp add: ns_per_sec_def)

lemma ns_of_secs_mono_iff [simp]: "ns_of_secs a \<le> ns_of_secs b \<longleftrightarrow> a \<le> b"
  by (simp add: ns_of_secs_def ns_per_sec_def)

lemma ns_of_secs_pos [simp]: "0 < ns_of_secs s \<longleftrightarrow> 0 < s"
  by (simp add: ns_of_secs_def ns_per_sec_def zero_less_mult_iff)

lemma ns_of_secs_nonneg [simp]: "0 \<le> ns_of_secs s \<longleftrightarrow> 0 \<le> s"
  by (simp add: ns_of_secs_def ns_per_sec_def zero_le_mult_iff)

lemma ns_of_secs_0 [simp]: "ns_of_secs 0 = 0"
  by (simp add: ns_of_secs_def)

lemma ns_of_secs_add: "ns_of_secs (a + b) = ns_of_secs a + ns_of_secs b"
  by (simp add: ns_of_secs_def distrib_right)

subsection \<open>Exceptions\<close>

text \<open>
  The exceptions that the program throws itself or that the standard library throws, and
  those of the libraries and services it calls. All derive from \<^verbatim>\<open>std::exception\<close>.
\<close>

datatype exn =
    Runtime_error string
  | Invalid_argument string
  | Out_of_range string
  | Library_error string

primrec what :: "exn \<Rightarrow> string" where
  "what (Runtime_error s) = s"
| "what (Invalid_argument s) = s"
| "what (Out_of_range s) = s"
| "what (Library_error s) = s"

subsection \<open>Programs over a world state\<close>

text \<open>
  A method with effects takes the world and returns a result or an exception together with
  the world it leaves behind: an exception does not undo what was done before it.
\<close>

type_synonym ('a, 'w) prog = "'w \<Rightarrow> (exn + 'a) \<times> 'w"

definition ret :: "'a \<Rightarrow> ('a, 'w) prog" where
  "ret x w = (Inr x, w)"

definition throw :: "exn \<Rightarrow> ('a, 'w) prog" where
  "throw e w = (Inl e, w)"

definition bindE :: "('a, 'w) prog \<Rightarrow> ('a \<Rightarrow> ('b, 'w) prog) \<Rightarrow> ('b, 'w) prog" where
  "bindE m f w = (case m w of (Inl e, w') \<Rightarrow> (Inl e, w') | (Inr x, w') \<Rightarrow> f x w')"

definition try_catch :: "('a, 'w) prog \<Rightarrow> (exn \<Rightarrow> ('a, 'w) prog) \<Rightarrow> ('a, 'w) prog" where
  "try_catch m h w = (case m w of (Inl e, w') \<Rightarrow> h e w' | (Inr x, w') \<Rightarrow> (Inr x, w'))"

text \<open>A computation without effects that may throw.\<close>

definition pure_prog :: "exn + 'a \<Rightarrow> ('a, 'w) prog" where
  "pure_prog r w = (r, w)"

lemma ret_run [simp, prog_simps]: "ret x w = (Inr x, w)"
  by (simp add: ret_def)

lemma throw_run [simp, prog_simps]: "throw e w = (Inl e, w)"
  by (simp add: throw_def)

lemma pure_prog_run [simp, prog_simps]: "pure_prog r w = (r, w)"
  by (simp add: pure_prog_def)

lemma bindE_Inr [simp, prog_simps]: "m w = (Inr x, w') \<Longrightarrow> bindE m f w = f x w'"
  by (simp add: bindE_def)

lemma bindE_Inl [simp, prog_simps]: "m w = (Inl e, w') \<Longrightarrow> bindE m f w = (Inl e, w')"
  by (simp add: bindE_def)

lemma bindE_ret [simp]: "bindE (ret x) f = f x"
  by (simp add: bindE_def fun_eq_iff)

lemma bindE_throw [simp]: "bindE (throw e) f = throw e"
  by (simp add: bindE_def fun_eq_iff)

lemma bindE_assoc: "bindE (bindE m f) g = bindE m (\<lambda>x. bindE (f x) g)"
  by (auto simp: bindE_def fun_eq_iff split: prod.splits sum.splits)

lemma bindE_Inr_iff:
  "bindE m f w = (Inr y, v) \<longleftrightarrow> (\<exists>x w'. m w = (Inr x, w') \<and> f x w' = (Inr y, v))"
  by (auto simp: bindE_def split: prod.splits sum.splits)

lemma bindE_InrE:
  assumes "bindE m f w = (Inr y, v)"
  obtains x w' where "m w = (Inr x, w')" and "f x w' = (Inr y, v)"
  using assms by (auto simp: bindE_Inr_iff)

lemma try_catch_Inr [simp, prog_simps]: "m w = (Inr x, w') \<Longrightarrow> try_catch m h w = (Inr x, w')"
  by (simp add: try_catch_def)

lemma try_catch_Inl [simp, prog_simps]: "m w = (Inl e, w') \<Longrightarrow> try_catch m h w = h e w'"
  by (simp add: try_catch_def)

text \<open>A \<^verbatim>\<open>try\<close> that starts with a computation without effects, and one that cannot throw.\<close>

lemma try_catch_ret [simp]: "try_catch (ret x) h = ret x"
  by (simp add: try_catch_def fun_eq_iff)

lemma try_catch_pure [simp]:
  "try_catch (bindE (pure_prog r) f) h = (case r of Inl e \<Rightarrow> h e | Inr x \<Rightarrow> try_catch (f x) h)"
  by (simp add: try_catch_def bindE_def fun_eq_iff split: sum.split)

text \<open>
  \<open>ensures I m Q\<close>: run from a world where \<open>I\<close> holds, \<open>m\<close> leaves a world
  where it holds, also when it throws, and a result it returns satisfies \<open>Q\<close>.
\<close>

definition ensures :: "('w \<Rightarrow> bool) \<Rightarrow> ('a, 'w) prog \<Rightarrow> ('a \<Rightarrow> bool) \<Rightarrow> bool" where
  "ensures I m Q \<longleftrightarrow> (\<forall>w r w'. I w \<longrightarrow> m w = (r, w') \<longrightarrow> I w' \<and> (\<forall>x. r = Inr x \<longrightarrow> Q x))"

lemma ensuresI:
  "(\<And>w r w'. I w \<Longrightarrow> m w = (r, w') \<Longrightarrow> I w' \<and> (\<forall>x. r = Inr x \<longrightarrow> Q x)) \<Longrightarrow> ensures I m Q"
  by (simp add: ensures_def)

lemma ensuresD:
  assumes "ensures I m Q" and "I w" and "m w = (r, w')"
  shows "I w'" and "r = Inr x \<Longrightarrow> Q x"
  using assms by (auto simp: ensures_def)

lemma ensures_ret [intro]: "Q x \<Longrightarrow> ensures I (ret x) Q"
  by (simp add: ensures_def)

lemma ensures_bindE:
  assumes "ensures I m Q" and "\<And>x. Q x \<Longrightarrow> ensures I (f x) R"
  shows "ensures I (bindE m f) R"
proof (rule ensuresI)
  fix w r w' assume I: "I w" and r: "bindE m f w = (r, w')"
  obtain y w1 where m: "m w = (y, w1)" by fastforce
  show "I w' \<and> (\<forall>x. r = Inr x \<longrightarrow> R x)"
  proof (cases y)
    case (Inl e)
    with r m ensuresD(1) [OF assms(1) I m] show ?thesis by auto
  next
    case (Inr x)
    have "Q x" and "I w1" using ensuresD [OF assms(1) I m] Inr by simp_all
    with assms(2) r m Inr show ?thesis by (auto simp: ensures_def)
  qed
qed

lemma ensures_seq:
  "ensures I m (\<lambda>_. True) \<Longrightarrow> (\<And>x. ensures I (f x) R) \<Longrightarrow> ensures I (bindE m f) R"
  by (rule ensures_bindE)

lemma ensures_if [intro]: "ensures I m Q \<Longrightarrow> ensures I n Q \<Longrightarrow> ensures I (if b then m else n) Q"
  by simp

subsection \<open>Clocks\<close>

text \<open>
  A clock is the sequence of readings it will give and the number of readings taken. The
  world holds the two clocks the source reads: \<^verbatim>\<open>std::chrono::system_clock\<close>,
  which may be set back, and \<^verbatim>\<open>std::chrono::steady_clock\<close>, which may not.
\<close>

record clock =
  readings :: "nat \<Rightarrow> time"
  pos :: nat

definition peek :: "clock \<Rightarrow> time" where
  "peek c = readings c (pos c)"

definition tick :: "clock \<Rightarrow> clock" where
  "tick c = c\<lparr>pos := Suc (pos c)\<rparr>"

definition steady :: "clock \<Rightarrow> bool" where
  "steady c \<longleftrightarrow> mono (readings c)"

lemma steady_tick [simp]: "steady (tick c) \<longleftrightarrow> steady c"
  by (simp add: steady_def tick_def)

lemma peek_tick_le: "steady c \<Longrightarrow> peek c \<le> peek (tick c)"
  by (simp add: steady_def tick_def peek_def mono_def)

record clocks =
  sys_clk :: clock
  steady_clk :: clock

definition sys_now :: "(time, 'x clocks_scheme) prog" where
  "sys_now w = (Inr (peek (sys_clk w)), w\<lparr>sys_clk := tick (sys_clk w)\<rparr>)"

definition steady_now :: "(time, 'x clocks_scheme) prog" where
  "steady_now w = (Inr (peek (steady_clk w)), w\<lparr>steady_clk := tick (steady_clk w)\<rparr>)"

lemma sys_now_run [simp]:
  "sys_now w = (Inr (peek (sys_clk w)), w\<lparr>sys_clk := tick (sys_clk w)\<rparr>)"
  by (simp add: sys_now_def)

lemma steady_now_run [simp]:
  "steady_now w = (Inr (peek (steady_clk w)), w\<lparr>steady_clk := tick (steady_clk w)\<rparr>)"
  by (simp add: steady_now_def)

subsection \<open>Characters, decimal numbers and their parsing\<close>

text \<open>\<^verbatim>\<open>std::isspace\<close> in the C locale: space and the codes 9 to 13.\<close>

definition is_space :: "char \<Rightarrow> bool" where
  "is_space c \<longleftrightarrow> (of_char c :: nat) = 32 \<or> 9 \<le> (of_char c :: nat) \<and> (of_char c :: nat) \<le> 13"

definition is_digit :: "char \<Rightarrow> bool" where
  "is_digit c \<longleftrightarrow> 48 \<le> (of_char c :: nat) \<and> (of_char c :: nat) \<le> 57"

definition digit_char :: "nat \<Rightarrow> char" where
  "digit_char d = char_of (48 + d)"

definition digit_val :: "char \<Rightarrow> nat" where
  "digit_val c = of_char c - 48"

fun dec_of_nat :: "nat \<Rightarrow> string" where
  "dec_of_nat n =
     (if n < 10 then [digit_char n] else dec_of_nat (n div 10) @ [digit_char (n mod 10)])"

declare dec_of_nat.simps [simp del]

definition dec_val :: "string \<Rightarrow> nat" where
  "dec_val ds = foldl (\<lambda>a c. a * 10 + digit_val c) 0 ds"

definition int_to_string :: "int \<Rightarrow> string" where
  "int_to_string i =
     (if i < 0 then CHR ''-'' # dec_of_nat (nat (- i)) else dec_of_nat (nat i))"

text \<open>\<^verbatim>\<open>std::to_string\<close> of a 64-bit signed integer.\<close>

definition to_string_i64 :: "int64 \<Rightarrow> string" where
  "to_string_i64 x = int_to_string (sint x)"

text \<open>
  \<^verbatim>\<open>std::stoll\<close> with base 10: white space, an optional sign, the longest run of
  digits; what follows the digits is ignored.
\<close>

definition split_sign :: "string \<Rightarrow> bool \<times> string" where
  "split_sign s =
     (case s of
        [] \<Rightarrow> (False, [])
      | c # r \<Rightarrow> (if c = CHR ''-'' then (True, r)
                 else if c = CHR ''+'' then (False, r) else (False, s)))"

definition stoll :: "string \<Rightarrow> exn + int64" where
  "stoll s =
     (let (neg, r) = split_sign (dropWhile is_space s);
          ds = takeWhile is_digit r
      in if ds = [] then Inl (Invalid_argument ''stoll'')
         else
           (let v = (if neg then - int (dec_val ds) else int (dec_val ds))
            in if v < - (2 ^ 63) \<or> 2 ^ 63 \<le> v then Inl (Out_of_range ''stoll'')
               else Inr (word_of_int v)))"

lemma digit_char_is_digit: "d < 10 \<Longrightarrow> is_digit (digit_char d)"
  by (simp add: is_digit_def digit_char_def of_char_of)

lemma digit_val_char: "d < 10 \<Longrightarrow> digit_val (digit_char d) = d"
  by (simp add: digit_val_def digit_char_def of_char_of)

lemma digit_not_sign: "is_digit c \<Longrightarrow> c \<noteq> CHR ''-'' \<and> c \<noteq> CHR ''+'' \<and> \<not> is_space c"
  by (auto simp: is_digit_def is_space_def)

lemma dec_of_nat_digits: "c \<in> set (dec_of_nat n) \<Longrightarrow> is_digit c"
proof (induction n arbitrary: c rule: dec_of_nat.induct)
  case (1 n)
  then show ?case
    by (cases "n < 10") (auto simp: dec_of_nat.simps [of n] digit_char_is_digit)
qed

lemma dec_of_nat_not_Nil [simp]: "dec_of_nat n \<noteq> []"
  by (subst dec_of_nat.simps) simp

lemma dec_val_snoc [simp]: "dec_val (ds @ [c]) = dec_val ds * 10 + digit_val c"
  by (simp add: dec_val_def)

lemma dec_val_Nil [simp]: "dec_val [] = 0"
  by (simp add: dec_val_def)

lemma dec_val_single [simp]: "dec_val [c] = digit_val c"
  using dec_val_snoc [of "[]" c] by simp

lemma dec_val_dec_of_nat [simp]: "dec_val (dec_of_nat n) = n"
proof (induction n rule: dec_of_nat.induct)
  case (1 n)
  show ?case
  proof (cases "n < 10")
    case True
    then show ?thesis by (simp add: dec_of_nat.simps [of n] digit_val_char)
  next
    case False
    with 1 show ?thesis by (simp add: dec_of_nat.simps [of n] digit_val_char)
  qed
qed

lemma dec_of_nat_inj: "dec_of_nat m = dec_of_nat n \<Longrightarrow> m = n"
  by (metis dec_val_dec_of_nat)

lemma dec_of_nat_Cons: "\<exists>c r. dec_of_nat n = c # r \<and> is_digit c"
  by (metis dec_of_nat_digits dec_of_nat_not_Nil list.set_intros(1) neq_Nil_conv)

lemma int_to_string_inj: "int_to_string i = int_to_string j \<Longrightarrow> i = j"
proof -
  assume eq: "int_to_string i = int_to_string j"
  obtain c r where c: "dec_of_nat (nat i) = c # r" "is_digit c" using dec_of_nat_Cons by blast
  obtain d q where d: "dec_of_nat (nat j) = d # q" "is_digit d" using dec_of_nat_Cons by blast
  have "dec_of_nat (nat i) = dec_of_nat (nat j) \<Longrightarrow> nat i = nat j"
    and "dec_of_nat (nat (- i)) = dec_of_nat (nat (- j)) \<Longrightarrow> nat (- i) = nat (- j)"
    by (auto dest: dec_of_nat_inj)
  with eq c d digit_not_sign [OF c(2)] digit_not_sign [OF d(2)] show "i = j"
    by (auto simp: int_to_string_def split: if_splits)
qed

lemma to_string_i64_inj: "to_string_i64 x = to_string_i64 y \<longleftrightarrow> x = y"
  by (metis int_to_string_inj to_string_i64_def signed_word_eqI)

lemma takeWhile_digits_append:
  "(\<And>c. c \<in> set ds \<Longrightarrow> is_digit c) \<Longrightarrow> (\<forall>c r. rest = c # r \<longrightarrow> \<not> is_digit c) \<Longrightarrow>
   takeWhile is_digit (ds @ rest) = ds"
  by (cases rest) (auto simp: takeWhile_tail)

lemma stoll_int_to_string_append:
  assumes "- (2 ^ 63) \<le> i" and "i < 2 ^ 63" and "\<forall>c r. rest = c # r \<longrightarrow> \<not> is_digit c"
  shows "stoll (int_to_string i @ rest) = Inr (word_of_int i)"
proof (cases "i < 0")
  case True
  have "takeWhile is_digit (dec_of_nat (nat (- i)) @ rest) = dec_of_nat (nat (- i))"
    using assms(3) by (intro takeWhile_digits_append) (auto dest: dec_of_nat_digits)
  moreover have "\<not> is_space CHR ''-''" by (simp add: is_space_def)
  ultimately show ?thesis
    using True assms by (simp add: int_to_string_def stoll_def split_sign_def)
next
  case False
  obtain c r where c: "dec_of_nat (nat i) = c # r" "is_digit c" using dec_of_nat_Cons by blast
  have tw: "takeWhile is_digit (dec_of_nat (nat i) @ rest) = dec_of_nat (nat i)"
    using assms(3) by (intro takeWhile_digits_append) (auto dest: dec_of_nat_digits)
  have "split_sign (dropWhile is_space (dec_of_nat (nat i) @ rest)) = (False, dec_of_nat (nat i) @ rest)"
    using c digit_not_sign [OF c(2)] by (simp add: split_sign_def)
  with False assms tw show ?thesis
    by (simp add: int_to_string_def stoll_def)
qed

lemma sint_i64_range: "- (2 ^ 63) \<le> sint (x :: int64)" "sint (x :: int64) < 2 ^ 63"
  using sint_greater_eq [of x] sint_less [of x] by simp_all

lemma sint_word_of_int_i64 [simp]:
  "- (2 ^ 63) \<le> i \<Longrightarrow> i < 2 ^ 63 \<Longrightarrow> sint (word_of_int i :: int64) = i"
  by (simp add: signed_of_int signed_take_bit_int_eq_self)

lemma stoll_to_string_i64: "stoll (to_string_i64 x) = Inr x"
  using stoll_int_to_string_append [of "sint x" "[]"] sint_i64_range [of x]
  by (simp add: to_string_i64_def)

subsection \<open>Vectors\<close>

text \<open>
  \<^verbatim>\<open>if (limit < v.size()) v.resize(limit)\<close>: the first \<open>limit\<close> elements.
\<close>

definition cap_vec :: "nat \<Rightarrow> 'a list \<Rightarrow> 'a list" where
  "cap_vec limit v = (if limit < length v then take limit v else v)"

lemma cap_vec_take: "cap_vec limit v = take limit v"
  by (simp add: cap_vec_def)

subsection \<open>Sorted lists and their first elements\<close>

text \<open>A stable sort refines an order the list had before.\<close>

lemma insort_key_stable:
  assumes "sorted_wrt (\<lambda>a b. f a < f b \<or> f a = f b \<and> R a b) ys" and "\<forall>y \<in> set ys. R x y"
  shows "sorted_wrt (\<lambda>a b. (f a :: 'b::linorder) < f b \<or> f a = f b \<and> R a b) (insort_key f x ys)"
  using assms by (induction ys) (auto simp: set_insort_key)

lemma sort_key_stable_wrt:
  assumes "sorted_wrt R xs"
  shows "sorted_wrt (\<lambda>a b. (f a :: 'b::linorder) < f b \<or> f a = f b \<and> R a b) (sort_key f xs)"
  using assms by (induction xs) (auto intro: insort_key_stable)

text \<open>
  \<open>top_of B n A xs\<close>: \<open>xs\<close> are the \<open>n\<close> first elements of the set \<open>A\<close> in the order
  \<open>B\<close>, or all of them if there are fewer.
\<close>

definition top_of :: "('a \<Rightarrow> 'a \<Rightarrow> bool) \<Rightarrow> nat \<Rightarrow> 'a set \<Rightarrow> 'a list \<Rightarrow> bool" where
  "top_of B n A xs \<longleftrightarrow> distinct xs \<and> set xs \<subseteq> A \<and> length xs = min n (card A) \<and> sorted_wrt B xs \<and>
     (\<forall>p \<in> set xs. \<forall>q \<in> A - set xs. B p q)"

lemma top_of_take:
  assumes "sorted_wrt B xs" and "distinct xs"
  shows "top_of B n (set xs) (take n xs)"
proof -
  have s: "sorted_wrt B (take n xs @ drop n xs)" using assms(1) by simp
  have "B p q" if "p \<in> set (take n xs)" and "q \<in> set xs - set (take n xs)" for p q
  proof -
    have "q \<in> set (drop n xs)"
      using that(2) by (metis Diff_iff UnE append_take_drop_id set_append)
    with s that(1) show ?thesis unfolding sorted_wrt_append by blast
  qed
  then show ?thesis
    using assms s set_take_subset [of n xs]
    by (auto simp: top_of_def sorted_wrt_append distinct_card min.commute simp del: append_take_drop_id)
qed

end
