(* ===== verification/Ports.thy ===== *)
theory Ports
  imports Prelude
begin

text \<open>
  The interfaces of \<^verbatim>\<open>src/infra/ports.hpp\<close> and
  \<^verbatim>\<open>src/infra/visit_ledger.hpp\<close>. Each abstract class is a record of programs
  over the world \<open>'w\<close> of the back end behind it: dynamic dispatch is the choice of the
  record. The second half states the contracts the services and handlers rely on as locales
  over the pure operations of a back end; each is interpreted in the theory of the back end
  that provides it (the in-memory one and the Redis one).
\<close>

subsection \<open>Data\<close>

record feed_entry =
  product_ids :: "int64 list"
  ttl_remaining :: secs

record product_row =
  row_id :: int64
  row_sku :: string
  row_title :: string

subsection \<open>Interfaces\<close>

record 'w cache_port =
  TryGetFeed :: "string \<Rightarrow> (feed_entry option, 'w) prog"
  PutFeed :: "string \<Rightarrow> int64 list \<Rightarrow> secs \<Rightarrow> (unit, 'w) prog"
  TouchFeed :: "string \<Rightarrow> secs \<Rightarrow> (unit, 'w) prog"
  DropFeed :: "string \<Rightarrow> (unit, 'w) prog"

record 'w queue_port =
  PublishJson :: "string \<Rightarrow> string \<Rightarrow> (unit, 'w) prog"

record 'w catalog_port =
  GetById :: "int64 \<Rightarrow> (product_row option, 'w) prog"

record 'w gpt_port =
  RankProductIds :: "string \<Rightarrow> nat \<Rightarrow> (int64 list, 'w) prog"

record 'w behavior_port =
  RecentProductIds :: "string \<Rightarrow> nat \<Rightarrow> (int64 list, 'w) prog"
  PopularProductIds :: "nat \<Rightarrow> (int64 list, 'w) prog"
  CatalogNeighborProductIds :: "int64 \<Rightarrow> nat \<Rightarrow> (int64 list, 'w) prog"

record 'w side_port =
  TryGetGptRanked :: "string \<Rightarrow> (int64 list option, 'w) prog"
  PutGptRanked :: "string \<Rightarrow> int64 list \<Rightarrow> secs \<Rightarrow> (unit, 'w) prog"
  TryGetSimilar :: "int64 \<Rightarrow> (int64 list option, 'w) prog"
  PutSimilar :: "int64 \<Rightarrow> int64 list \<Rightarrow> secs \<Rightarrow> (unit, 'w) prog"
  TryGetPopularGlobal :: "(int64 list option, 'w) prog"
  PutPopularGlobal :: "int64 list \<Rightarrow> secs \<Rightarrow> (unit, 'w) prog"
  InvalidateUserDerived :: "string \<Rightarrow> (unit, 'w) prog"

record 'w idempotency_port =
  TryReserve :: "string \<Rightarrow> secs \<Rightarrow> (bool, 'w) prog"

record 'w visit_port =
  LastSeenUtc :: "string \<Rightarrow> (time option, 'w) prog"
  MarkSeenUtc :: "string \<Rightarrow> (unit, 'w) prog"

subsection \<open>Entries with a deadline\<close>

text \<open>
  What a cache holds under a key: a list of ids and the instant at which it stops to be
  visible. Contracts compare entries by what can still be seen from some instant on, so a
  back end is free to keep or to erase an entry that has expired.
\<close>

type_synonym entry = "(int64 list \<times> time) option"

definition alive :: "time \<Rightarrow> entry \<Rightarrow> int64 list option" where
  "alive now e = (case e of None \<Rightarrow> None | Some (ids, d) \<Rightarrow> if now < d then Some ids else None)"

definition same_from :: "time \<Rightarrow> entry \<Rightarrow> entry \<Rightarrow> bool" where
  "same_from now e e' \<longleftrightarrow> (\<forall>t\<ge>now. alive t e = alive t e')"

definition extend_entry :: "time \<Rightarrow> time \<Rightarrow> entry \<Rightarrow> entry" where
  "extend_entry now ns e =
     (case e of None \<Rightarrow> None
      | Some (ids, d) \<Rightarrow> if now < d then Some (ids, d + ns) else None)"

lemma alive_simps [simp]:
  "alive now None = None"
  "alive now (Some (ids, d)) = (if now < d then Some ids else None)"
  by (simp_all add: alive_def)

lemma same_from_refl [simp, intro]: "same_from now e e"
  by (simp add: same_from_def)

lemma same_from_sym: "same_from now e e' \<Longrightarrow> same_from now e' e"
  by (simp add: same_from_def)

lemma same_from_trans: "same_from now e e' \<Longrightarrow> same_from now e' e'' \<Longrightarrow> same_from now e e''"
  by (simp add: same_from_def)

lemma same_from_later: "same_from now e e' \<Longrightarrow> now \<le> t \<Longrightarrow> same_from t e e'"
  by (auto simp: same_from_def)

lemma same_from_alive: "same_from now e e' \<Longrightarrow> now \<le> t \<Longrightarrow> alive t e = alive t e'"
  by (simp add: same_from_def)

lemma same_from_dead: "alive now e = None \<Longrightarrow> same_from now e None"
  by (auto simp: same_from_def alive_def split: option.splits if_splits)

lemma same_from_expired [simp]: "d \<le> now \<Longrightarrow> same_from now (Some (ids, d)) None"
  by (auto intro: same_from_dead)

text \<open>Live entries that look alike from now on have the same ids and the same deadline.\<close>

lemma same_from_live_eq:
  assumes "same_from now (Some (ids, d)) e" and "now < d"
  shows "e = Some (ids, d)"
proof -
  from assms have n: "alive now e = Some ids"
    using same_from_alive [OF assms(1), of now] by simp
  then obtain d' where e: "e = Some (ids, d')" and d': "now < d'"
    by (auto simp: alive_def split: option.splits if_splits)
  have "alive d (Some (ids, d')) = None"
    using same_from_alive [OF assms(1), of d] assms(2) e by simp
  moreover have "alive d' (Some (ids, d)) = None"
    using same_from_alive [OF assms(1), of d'] d' e by simp
  ultimately have "d = d'" by (auto split: if_splits)
  with e show ?thesis by simp
qed

lemma same_from_extend:
  assumes "same_from now e e'"
  shows "same_from now (extend_entry now ns e) (extend_entry now ns e')"
proof (cases "alive now e")
  case None
  moreover from assms None have "alive now e' = None"
    by (simp add: same_from_def)
  ultimately show ?thesis
    by (auto simp: extend_entry_def alive_def split: option.splits if_splits)
next
  case (Some ids)
  then obtain d where e: "e = Some (ids, d)" and "now < d"
    by (auto simp: alive_def split: option.splits if_splits)
  with assms have "e' = e" using same_from_live_eq by blast
  then show ?thesis by simp
qed

subsection \<open>Contract of a cache with time-to-live\<close>

text \<open>
  \<open>get\<close> and \<open>put\<close> carry the reading of the clock the operation makes. \<open>entry\<close>
  is the abstraction: what the back end holds under each key.
\<close>

locale timed_cache =
  fixes get :: "time \<Rightarrow> 'k \<Rightarrow> 's \<Rightarrow> int64 list option \<times> 's"
    and put :: "time \<Rightarrow> 'k \<Rightarrow> int64 list \<Rightarrow> secs \<Rightarrow> 's \<Rightarrow> 's"
    and entry :: "'s \<Rightarrow> 'k \<Rightarrow> entry"
  assumes get_value: "fst (get now k s) = alive now (entry s k)"
    and get_entry: "same_from now (entry (snd (get now k s)) k') (entry s k')"
    and put_entry: "same_from now (entry (put now k ids ttl s) k')
      (if k' = k then Some (ids, now + ns_of_secs ttl) else entry s k')"
begin

lemma get_after_put:
  assumes "now \<le> t"
  shows "fst (get t k (put now k ids ttl s)) = (if t < now + ns_of_secs ttl then Some ids else None)"
  using same_from_alive [OF put_entry [of now k ids ttl s k] assms] by (simp add: get_value)

lemma get_after_put_other:
  assumes "now \<le> t" and "k' \<noteq> k"
  shows "fst (get t k' (put now k ids ttl s)) = fst (get t k' s)"
  using same_from_alive [OF put_entry [of now k ids ttl s k'] assms(1)] assms(2)
  by (simp add: get_value)

lemma get_after_get:
  assumes "now \<le> t"
  shows "fst (get t k' (snd (get now k s))) = fst (get t k' s)"
  using same_from_alive [OF get_entry [of now k s k'] assms] by (simp add: get_value)

end

subsection \<open>Contract of the feed cache\<close>

text \<open>
  A cache whose entries can also be extended and dropped. \<open>slack\<close> bounds how far the
  deadline after an extension may lie from the exact one.
\<close>

locale feed_cache = timed_cache get put entry
  for get :: "time \<Rightarrow> 'k \<Rightarrow> 's \<Rightarrow> int64 list option \<times> 's"
    and put :: "time \<Rightarrow> 'k \<Rightarrow> int64 list \<Rightarrow> secs \<Rightarrow> 's \<Rightarrow> 's"
    and entry :: "'s \<Rightarrow> 'k \<Rightarrow> entry" +
  fixes touch :: "time \<Rightarrow> 'k \<Rightarrow> secs \<Rightarrow> 's \<Rightarrow> 's"
    and drop_key :: "time \<Rightarrow> 'k \<Rightarrow> 's \<Rightarrow> 's"
    and slack :: time
  assumes touch_entry: "\<exists>e. \<bar>e\<bar> \<le> slack \<and> same_from now (entry (touch now k ext s) k')
      (if k' = k \<and> 0 < ext then extend_entry now (ns_of_secs ext + e) (entry s k') else entry s k')"
    and drop_entry: "same_from now (entry (drop_key now k s) k') (if k' = k then None else entry s k')"
begin

lemma get_after_drop: "now \<le> t \<Longrightarrow> fst (get t k (drop_key now k s)) = None"
  using same_from_alive [OF drop_entry [of now k s k]] by (simp add: get_value)

text \<open>A live entry that is extended stays readable, up to the slack, for the extra time.\<close>

lemma get_after_touch:
  assumes "entry s k = Some (ids, d)" and "now < d" and "0 < ext"
    and "now \<le> t" and "t < d + ns_of_secs ext - slack"
  shows "fst (get t k (touch now k ext s)) = Some ids"
proof -
  obtain e where e: "\<bar>e\<bar> \<le> slack"
    and "same_from now (entry (touch now k ext s) k) (extend_entry now (ns_of_secs ext + e) (entry s k))"
    using touch_entry [of now k ext s k] assms(3) by auto
  then have "alive t (entry (touch now k ext s) k) = alive t (Some (ids, d + (ns_of_secs ext + e)))"
    using assms by (auto simp: extend_entry_def dest: same_from_alive)
  then show ?thesis using e assms(5) by (simp add: get_value)
qed

end

text \<open>
  A run of the feed cache: operations with the readings of the clock at which they ran, and
  the answers of the gets. The abstract run works on the entries alone.
\<close>

datatype 'k feed_op = Get 'k | Put 'k "int64 list" secs | Touch 'k secs | Drop 'k

fun spec_step :: "time \<Rightarrow> 'k feed_op \<Rightarrow> ('k \<Rightarrow> entry) \<Rightarrow> int64 list option \<times> ('k \<Rightarrow> entry)" where
  "spec_step now (Get k) m = (alive now (m k), m)"
| "spec_step now (Put k ids ttl) m = (None, m(k := Some (ids, now + ns_of_secs ttl)))"
| "spec_step now (Touch k ext) m =
     (None, if 0 < ext then m(k := extend_entry now (ns_of_secs ext) (m k)) else m)"
| "spec_step now (Drop k) m = (None, m(k := None))"

text \<open>The step of a back end is put together from its four operations.\<close>

fun feed_step ::
  "(time \<Rightarrow> 'k \<Rightarrow> 's \<Rightarrow> int64 list option \<times> 's) \<Rightarrow>
   (time \<Rightarrow> 'k \<Rightarrow> int64 list \<Rightarrow> secs \<Rightarrow> 's \<Rightarrow> 's) \<Rightarrow> (time \<Rightarrow> 'k \<Rightarrow> secs \<Rightarrow> 's \<Rightarrow> 's) \<Rightarrow>
   (time \<Rightarrow> 'k \<Rightarrow> 's \<Rightarrow> 's) \<Rightarrow> time \<Rightarrow> 'k feed_op \<Rightarrow> 's \<Rightarrow> int64 list option \<times> 's" where
  "feed_step get put touch drop_key now (Get k) s = get now k s"
| "feed_step get put touch drop_key now (Put k ids ttl) s = (None, put now k ids ttl s)"
| "feed_step get put touch drop_key now (Touch k ext) s = (None, touch now k ext s)"
| "feed_step get put touch drop_key now (Drop k) s = (None, drop_key now k s)"

fun cache_run ::
  "(time \<Rightarrow> 'k feed_op \<Rightarrow> 's \<Rightarrow> int64 list option \<times> 's) \<Rightarrow> (time \<times> 'k feed_op) list \<Rightarrow> 's \<Rightarrow>
   int64 list option list" where
  "cache_run step [] s = []"
| "cache_run step ((now, x) # xs) s =
     (let (r, s') = step now x s in r # cache_run step xs s')"

lemma cache_run_Cons:
  "cache_run step ((now, x) # xs) s = fst (step now x s) # cache_run step xs (snd (step now x s))"
  by (simp add: case_prod_beta Let_def)

fun timeline :: "time \<Rightarrow> (time \<times> 'k feed_op) list \<Rightarrow> bool" where
  "timeline t [] = True"
| "timeline t ((now, x) # xs) = (t \<le> now \<and> timeline now xs)"

locale exact_feed_cache = feed_cache get put entry touch drop_key 0
  for get :: "time \<Rightarrow> 'k \<Rightarrow> 's \<Rightarrow> int64 list option \<times> 's"
    and put :: "time \<Rightarrow> 'k \<Rightarrow> int64 list \<Rightarrow> secs \<Rightarrow> 's \<Rightarrow> 's"
    and entry :: "'s \<Rightarrow> 'k \<Rightarrow> entry"
    and touch :: "time \<Rightarrow> 'k \<Rightarrow> secs \<Rightarrow> 's \<Rightarrow> 's"
    and drop_key :: "time \<Rightarrow> 'k \<Rightarrow> 's \<Rightarrow> 's"
begin

abbreviation "step \<equiv> feed_step get put touch drop_key"

definition sim :: "time \<Rightarrow> 's \<Rightarrow> ('k \<Rightarrow> entry) \<Rightarrow> bool" where
  "sim now s m \<longleftrightarrow> (\<forall>k. same_from now (entry s k) (m k))"

lemma touch_exact:
  "same_from now (entry (touch now k ext s) k')
    (if k' = k \<and> 0 < ext then extend_entry now (ns_of_secs ext) (entry s k') else entry s k')"
  using touch_entry [of now k ext s k'] by (auto split: if_splits)

lemma simI: "(\<And>k. same_from now (entry s k) (m k)) \<Longrightarrow> sim now s m"
  by (simp add: sim_def)

lemma simD: "sim now s m \<Longrightarrow> same_from now (entry s k) (m k)"
  by (simp add: sim_def)

lemma put_same:
  assumes "sim now s m"
  shows "sim now (put now k ids ttl s) (m(k := Some (ids, now + ns_of_secs ttl)))"
proof (rule simI)
  fix k'
  show "same_from now (entry (put now k ids ttl s) k')
      ((m(k := Some (ids, now + ns_of_secs ttl))) k')"
    using put_entry [of now k ids ttl s k'] simD [OF assms, of k']
    by (cases "k' = k") (simp_all add: same_from_trans)
qed

lemma touch_same:
  assumes "sim now s m"
  shows "sim now (touch now k ext s)
    (if 0 < ext then m(k := extend_entry now (ns_of_secs ext) (m k)) else m)"
proof (rule simI)
  fix k'
  note m = simD [OF assms, of k'] and x = same_from_extend [OF simD [OF assms, of k'], of "ns_of_secs ext"]
  note t = same_from_trans [OF touch_exact [of now k ext s k']]
  show "same_from now (entry (touch now k ext s) k')
      ((if 0 < ext then m(k := extend_entry now (ns_of_secs ext) (m k)) else m) k')"
    by (cases "k' = k \<and> 0 < ext"; rule t) (use m x in simp_all)
qed

lemma drop_same:
  assumes "sim now s m"
  shows "sim now (drop_key now k s) (m(k := None))"
proof (rule simI)
  fix k'
  show "same_from now (entry (drop_key now k s) k') ((m(k := None)) k')"
    using drop_entry [of now k s k'] simD [OF assms, of k']
    by (cases "k' = k") (simp_all add: same_from_trans)
qed

lemma step_sim:
  assumes "sim now s m"
  shows "fst (step now x s) = fst (spec_step now x m)"
    and "sim now (snd (step now x s)) (snd (spec_step now x m))"
proof -
  have m: "same_from now (entry s k) (m k)" for k using assms by (simp add: sim_def)
  note a = same_from_alive [OF m order.refl]
  show "fst (step now x s) = fst (spec_step now x m)"
    by (cases x) (simp_all add: get_value a)
  show "sim now (snd (step now x s)) (snd (spec_step now x m))"
  proof (cases x)
    case (Get k)
    then show ?thesis
      by (auto simp: sim_def intro: same_from_trans [OF get_entry m])
  next
    case (Put k ids ttl)
    with assms show ?thesis by (simp add: put_same)
  next
    case (Touch k ext)
    with assms show ?thesis using touch_same [OF assms, of k ext] by simp
  next
    case (Drop k)
    with assms show ?thesis by (simp add: drop_same)
  qed
qed

lemma run_refines_spec:
  assumes "sim t s m" and "timeline t xs"
  shows "cache_run step xs s = cache_run spec_step xs m"
  using assms
proof (induction xs arbitrary: t s m)
  case Nil
  then show ?case by simp
next
  case (Cons y xs)
  obtain now x where y: "y = (now, x)" by (cases y)
  have "sim now s m" using Cons.prems y by (auto simp: sim_def intro: same_from_later)
  from step_sim [OF this] Cons.IH [of now] Cons.prems(2) y show ?case
    by (auto simp: cache_run_Cons simp del: cache_run.simps)
qed

end

subsection \<open>Contract of the idempotency store\<close>

definition held :: "time \<Rightarrow> time option \<Rightarrow> bool" where
  "held now u = (case u of None \<Rightarrow> False | Some d \<Rightarrow> now < d)"

lemma held_simps [simp]: "held now None \<longleftrightarrow> False" "held now (Some d) \<longleftrightarrow> now < d"
  by (simp_all add: held_def)

text \<open>The calls of a run with the readings of the clock they made, and which were granted.\<close>

fun grants ::
  "(time \<Rightarrow> string \<Rightarrow> secs \<Rightarrow> 's \<Rightarrow> bool \<times> 's) \<Rightarrow> secs \<Rightarrow> (time \<times> string) list \<Rightarrow> 's \<Rightarrow> bool list" where
  "grants reserve ttl [] s = []"
| "grants reserve ttl ((now, tok) # xs) s =
     (let (b, s') = reserve now tok ttl s in b # grants reserve ttl xs s')"

lemma grants_Cons:
  "grants reserve ttl ((now, tok) # xs) s =
    fst (reserve now tok ttl s) # grants reserve ttl xs (snd (reserve now tok ttl s))"
  by (simp add: case_prod_beta Let_def)

lemma length_grants [simp]: "length (grants reserve ttl xs s) = length xs"
  by (induction xs arbitrary: s) (auto simp: case_prod_beta Let_def)

locale idempotency_store =
  fixes reserve :: "time \<Rightarrow> string \<Rightarrow> secs \<Rightarrow> 's \<Rightarrow> bool \<times> 's"
    and until :: "'s \<Rightarrow> string \<Rightarrow> time option"
  assumes reserve_result: "tok \<noteq> [] \<Longrightarrow> fst (reserve now tok ttl s) \<longleftrightarrow> \<not> held now (until s tok)"
    and reserve_until: "tok \<noteq> [] \<Longrightarrow> until (snd (reserve now tok ttl s)) tok' =
      (if tok' = tok \<and> \<not> held now (until s tok) then Some (now + ns_of_secs ttl) else until s tok')"
begin

text \<open>While a token is held until \<open>d\<close>, only a call that reads \<open>d\<close> or later is granted.\<close>

lemma granted_after_until:
  assumes "until s tok = Some d" and "j < length xs" and "\<forall>x \<in> set xs. snd x \<noteq> []"
    and "snd (xs ! j) = tok" and "grants reserve ttl xs s ! j" and "0 \<le> ttl"
  shows "d \<le> fst (xs ! j)"
  using assms
proof (induction xs arbitrary: s j d)
  case Nil
  then show ?case by simp
next
  case (Cons y xs)
  obtain now tk where y: "y = (now, tk)" by (cases y)
  let ?s' = "snd (reserve now tk ttl s)"
  have ne: "tk \<noteq> []" using Cons.prems(3) y by auto
  show ?case
  proof (cases j)
    case 0
    with Cons.prems y ne show ?thesis
      by (simp add: grants_Cons reserve_result del: grants.simps)
  next
    case (Suc k)
    have later: "d \<le> now + ns_of_secs ttl" if "\<not> now < d"
      using that Cons.prems(6) ns_of_secs_nonneg [of ttl] by linarith
    have "\<exists>d'. until ?s' tok = Some d' \<and> d \<le> d'"
      using Cons.prems(1) reserve_until [OF ne, of now ttl s tok]
      by (cases "tok = tk"; cases "now < d") (auto simp: later)
    then obtain d' where d': "until ?s' tok = Some d'" "d \<le> d'" by blast
    with Cons.IH [of ?s' d' k] Cons.prems Suc y show ?thesis
      by (auto simp: grants_Cons simp del: grants.simps)
  qed
qed

text \<open>Two grants of one token lie at least the time-to-live apart, whatever the clock did.\<close>

lemma grants_spaced:
  assumes "i < j" and "j < length xs" and "\<forall>x \<in> set xs. snd x \<noteq> []"
    and "snd (xs ! i) = snd (xs ! j)" and "grants reserve ttl xs s ! i" and "grants reserve ttl xs s ! j"
    and "0 \<le> ttl"
  shows "fst (xs ! i) + ns_of_secs ttl \<le> fst (xs ! j)"
  using assms
proof (induction xs arbitrary: s i j)
  case Nil
  then show ?case by simp
next
  case (Cons y xs)
  obtain now tk where y: "y = (now, tk)" by (cases y)
  let ?s' = "snd (reserve now tk ttl s)"
  obtain l where j: "j = Suc l" using Cons.prems(1) by (cases j) auto
  have ne: "tk \<noteq> []" using Cons.prems(3) y by auto
  show ?case
  proof (cases i)
    case 0
    with Cons.prems(5) y ne have "until ?s' tk = Some (now + ns_of_secs ttl)"
      by (simp add: grants_Cons reserve_result reserve_until del: grants.simps)
    from granted_after_until [OF this, of l xs ttl] Cons.prems y j 0 show ?thesis
      by (simp add: grants_Cons del: grants.simps)
  next
    case (Suc k)
    with Cons.IH [of k l ?s'] Cons.prems j y show ?thesis
      by (simp add: grants_Cons del: grants.simps)
  qed
qed

end

subsection \<open>Contract of the visit ledger\<close>

text \<open>\<open>grain\<close> bounds how much of the instant the store may round away.\<close>

locale visit_store =
  fixes last_seen :: "time \<Rightarrow> string \<Rightarrow> 's \<Rightarrow> time option"
    and mark :: "time \<Rightarrow> time \<Rightarrow> string \<Rightarrow> 's \<Rightarrow> 's"
    and grain :: time
    and keep :: "time option"
  assumes last_after_mark: "srv \<le> srv' \<Longrightarrow> 0 \<le> now \<Longrightarrow>
      (case keep of None \<Rightarrow> True | Some d \<Rightarrow> srv' < srv + d) \<Longrightarrow>
      \<exists>t. last_seen srv' u (mark srv now u s) = Some t \<and> now - grain < t \<and> t \<le> now"
    and last_other: "srv \<le> srv' \<Longrightarrow> u' \<noteq> u \<Longrightarrow>
      last_seen srv' u' (mark srv now u s) = last_seen srv' u' s"

end
