(* ===== verification/Redis_Server.thy ===== *)
theory Redis_Server
  imports Ports
begin

text \<open>
  The Redis client that \<^verbatim>\<open>RedisRhythmData\<close> calls. Neither the client library
  nor the server is part of the repository: the commands are the fields of
  \<open>redis_client\<close>, an argument of every definition that calls them, and the locale
  \<open>redis_server\<close> states what the documentation promises of them. Every command may
  throw; the server's clock may move between any two commands.
\<close>

subsection \<open>The client\<close>

text \<open>The reply to TTL: no key, a key that does not expire, or the seconds left.\<close>

datatype ttl_reply = TtlNoKey | TtlNoExpiration | TtlExpire secs

record 'w redis_client =
  r_Get :: "string \<Rightarrow> (string option, 'w) prog"
  r_Setex :: "string \<Rightarrow> secs \<Rightarrow> string \<Rightarrow> (unit, 'w) prog"
  r_Del :: "string \<Rightarrow> (unit, 'w) prog"
  r_Ttl :: "string \<Rightarrow> (ttl_reply, 'w) prog"
  r_Expire :: "string \<Rightarrow> secs \<Rightarrow> (unit, 'w) prog"
  r_SetIfNotExist :: "string \<Rightarrow> string \<Rightarrow> int \<Rightarrow> (bool, 'w) prog"

subsection \<open>The laws of the commands\<close>

text \<open>A stored value with the deadline it may have, and what is visible of it.\<close>

type_synonym cell = "(string \<times> time option) option"

definition visible :: "time \<Rightarrow> cell \<Rightarrow> string option" where
  "visible now x =
     (case x of None \<Rightarrow> None
      | Some (v, None) \<Rightarrow> Some v
      | Some (v, Some d) \<Rightarrow> if now < d then Some v else None)"

lemma visible_simps [simp]:
  "visible now None = None"
  "visible now (Some (v, None)) = Some v"
  "visible now (Some (v, Some d)) = (if now < d then Some v else None)"
  by (simp_all add: visible_def)

definition ns_per_ms :: int where
  "ns_per_ms = 1000000"

lemma ns_per_ms_pos [simp]: "0 < ns_per_ms"
  by (simp add: ns_per_ms_def)

lemma ns_per_ms_secs: "s * 1000 * ns_per_ms = ns_of_secs s"
  by (simp add: ns_per_ms_def ns_of_secs_def ns_per_sec_def)

text \<open>
  \<open>store\<close> is what the server holds and \<open>srv\<close> its clock. A command that throws has
  either been carried out or not.
\<close>

locale redis_server =
  fixes c :: "'w redis_client"
    and store :: "'w \<Rightarrow> string \<Rightarrow> cell"
    and srv :: "'w \<Rightarrow> time"
  assumes get_law: "r_Get c k w = (rg, w') \<Longrightarrow> srv w \<le> srv w' \<and> store w' = store w \<and>
      (\<forall>v. rg = Inr v \<longrightarrow> v = visible (srv w') (store w k))"
    and setex_law: "0 < ttl \<Longrightarrow> r_Setex c k ttl v w = (rs, w') \<Longrightarrow> srv w \<le> srv w' \<and>
      (store w' = (store w)(k \<mapsto> (v, Some (srv w' + ns_of_secs ttl))) \<or>
       store w' = store w \<and> rs \<noteq> Inr ())"
    and del_law: "r_Del c k w = (rd, w') \<Longrightarrow> srv w \<le> srv w' \<and>
      (store w' = (store w)(k := None) \<or> store w' = store w \<and> rd \<noteq> Inr ())"
    and ttl_law: "r_Ttl c k w = (rt, w') \<Longrightarrow> srv w \<le> srv w' \<and> store w' = store w \<and>
      (rt = Inr TtlNoKey \<longrightarrow> visible (srv w') (store w k) = None) \<and>
      (rt = Inr TtlNoExpiration \<longrightarrow> (\<exists>v. store w k = Some (v, None))) \<and>
      (\<forall>s. rt = Inr (TtlExpire s) \<longrightarrow> (\<exists>v d. store w k = Some (v, Some d) \<and> srv w' < d \<and> 0 \<le> s \<and>
         \<bar>ns_of_secs s - (d - srv w')\<bar> \<le> ns_per_sec))"
    and expire_law: "0 < ttl \<Longrightarrow> r_Expire c k ttl w = (re, w') \<Longrightarrow> srv w \<le> srv w' \<and>
      (store w' = (case visible (srv w') (store w k) of None \<Rightarrow> store w
                   | Some v \<Rightarrow> (store w)(k \<mapsto> (v, Some (srv w' + ns_of_secs ttl)))) \<or>
       store w' = store w \<and> re \<noteq> Inr ())"
    and setnx_law: "0 < ms \<Longrightarrow> r_SetIfNotExist c k v ms w = (rn, w') \<Longrightarrow> srv w \<le> srv w' \<and>
      (\<forall>b. rn = Inr b \<longrightarrow> (b \<longleftrightarrow> visible (srv w') (store w k) = None)) \<and>
      (store w' = (if visible (srv w') (store w k) = None
                   then (store w)(k \<mapsto> (v, Some (srv w' + ms * ns_per_ms))) else store w) \<or>
       store w' = store w \<and> (\<exists>e. rn = Inl e))"

subsection \<open>A reference server\<close>

text \<open>
  A world with a server that keeps the laws: its clock gives one reading per command, and
  every command may be made to fail, before or after it took effect.
\<close>

datatype fault = No_fault | Fail_before exn | Fail_after exn

record redis_world = clocks +
  kv :: "string \<Rightarrow> cell"
  srv_clk :: clock
  faults :: "nat \<Rightarrow> fault"
  commands :: nat

text \<open>The clock never falls behind: the current time is the greatest reading so far.\<close>

definition srv_time :: "'x redis_world_scheme \<Rightarrow> time" where
  "srv_time w = Max (readings (srv_clk w) ` {..pos (srv_clk w)})"

definition command ::
  "(time \<Rightarrow> (string \<Rightarrow> cell) \<Rightarrow> 'a \<times> (string \<Rightarrow> cell)) \<Rightarrow> ('a, 'x redis_world_scheme) prog" where
  "command f w =
     (let w1 = w\<lparr>srv_clk := tick (srv_clk w), commands := Suc (commands w)\<rparr>;
          (x, m) = f (srv_time w1) (kv w)
      in case faults w (commands w) of
           No_fault \<Rightarrow> (Inr x, w1\<lparr>kv := m\<rparr>)
         | Fail_before e \<Rightarrow> (Inl e, w1)
         | Fail_after e \<Rightarrow> (Inl e, w1\<lparr>kv := m\<rparr>))"

definition ref_ttl :: "time \<Rightarrow> cell \<Rightarrow> ttl_reply" where
  "ref_ttl now x =
     (case x of None \<Rightarrow> TtlNoKey
      | Some (v, None) \<Rightarrow> TtlNoExpiration
      | Some (v, Some d) \<Rightarrow>
          if now < d then TtlExpire ((d - now + ns_per_sec div 2) div ns_per_sec) else TtlNoKey)"

definition ref_redis :: "'x redis_world_scheme redis_client" where
  "ref_redis =
     \<lparr>r_Get = (\<lambda>k. command (\<lambda>t m. (visible t (m k), m))),
      r_Setex = (\<lambda>k ttl v. command (\<lambda>t m. ((), m(k \<mapsto> (v, Some (t + ns_of_secs ttl)))))),
      r_Del = (\<lambda>k. command (\<lambda>t m. ((), m(k := None)))),
      r_Ttl = (\<lambda>k. command (\<lambda>t m. (ref_ttl t (m k), m))),
      r_Expire = (\<lambda>k ttl. command (\<lambda>t m.
        ((), case visible t (m k) of None \<Rightarrow> m
             | Some v \<Rightarrow> m(k \<mapsto> (v, Some (t + ns_of_secs ttl)))))),
      r_SetIfNotExist = (\<lambda>k v ms. command (\<lambda>t m.
        if visible t (m k) = None then (True, m(k \<mapsto> (v, Some (t + ms * ns_per_ms))))
        else (False, m)))\<rparr>"

lemma srv_time_tick:
  "srv_time w \<le> srv_time (w\<lparr>srv_clk := tick (srv_clk w), commands := n\<rparr>)"
  unfolding srv_time_def by (rule Max_mono) (auto simp: tick_def)

lemma srv_time_kv [simp]: "srv_time (w\<lparr>kv := m\<rparr>) = srv_time w"
  by (simp add: srv_time_def)

lemma commandE:
  assumes "command f w = (r, w')"
  obtains t where "t = srv_time w'" and "srv_time w \<le> srv_time w'"
    and "r = Inr (fst (f t (kv w))) \<and> kv w' = snd (f t (kv w)) \<or>
      (\<exists>e. r = Inl e) \<and> (kv w' = kv w \<or> kv w' = snd (f t (kv w)))"
  using assms srv_time_tick [of w "Suc (commands w)"]
  by (auto simp: command_def Let_def split: prod.splits fault.splits intro!: that)

lemma ref_ttl_reply:
  "ref_ttl t x = TtlExpire s \<Longrightarrow>
    \<exists>v d. x = Some (v, Some d) \<and> t < d \<and> 0 \<le> s \<and> \<bar>ns_of_secs s - (d - t)\<bar> \<le> ns_per_sec"
  by (auto simp: ref_ttl_def ns_of_secs_def ns_per_sec_def split: option.splits if_splits)

lemma ref_ttl_NoKey [simp]: "ref_ttl t x = TtlNoKey \<longleftrightarrow> visible t x = None"
  by (auto simp: ref_ttl_def visible_def split: option.splits)

lemma ref_ttl_NoExpiration [simp]: "ref_ttl t x = TtlNoExpiration \<longleftrightarrow> (\<exists>v. x = Some (v, None))"
  by (auto simp: ref_ttl_def split: option.splits)

interpretation ref_redis: redis_server ref_redis kv srv_time
proof
qed (auto simp: ref_redis_def elim!: commandE split: if_splits option.splits dest: ref_ttl_reply)

end
