(* ===== verification/Redis_Keyspace.thy ===== *)
theory Redis_Keyspace
  imports Prelude
begin

text \<open>
  The key names of \<^verbatim>\<open>src/infra/redis_keyspace.hpp\<close> and what separates them: which
  keys can never coincide, which can, and that the keys of one user fall into one slot of a
  Redis cluster.
\<close>

definition FeedKey :: "string \<Rightarrow> string" where
  "FeedKey user_id = ''{rhythm:'' @ user_id @ ''}:feed''"

definition VisitLastKey :: "string \<Rightarrow> string" where
  "VisitLastKey user_id = ''{rhythm:'' @ user_id @ ''}:visit_last''"

definition GptRankKey :: "string \<Rightarrow> string" where
  "GptRankKey user_id = ''{rhythm:'' @ user_id @ ''}:gpt_rank''"

definition SimilarKey :: "int64 \<Rightarrow> string" where
  "SimilarKey anchor_product_id = ''{rhythm:similar}:'' @ to_string_i64 anchor_product_id"

definition PopularGlobalKey :: string where
  "PopularGlobalKey = ''{rhythm}:popular_global''"

definition IdempotencyKey :: "string \<Rightarrow> string" where
  "IdempotencyKey token = ''{rhythm:idempotency}:'' @ token"

lemmas key_defs = FeedKey_def VisitLastKey_def GptRankKey_def SimilarKey_def
  PopularGlobalKey_def IdempotencyKey_def

subsection \<open>Injectivity\<close>

lemma key_inj [simp]:
  "FeedKey u = FeedKey v \<longleftrightarrow> u = v"
  "VisitLastKey u = VisitLastKey v \<longleftrightarrow> u = v"
  "GptRankKey u = GptRankKey v \<longleftrightarrow> u = v"
  "SimilarKey a = SimilarKey b \<longleftrightarrow> a = b"
  "IdempotencyKey s = IdempotencyKey t \<longleftrightarrow> s = t"
  by (simp_all add: key_defs to_string_i64_inj)

subsection \<open>Key families told apart by their last or their ninth character\<close>

lemma last_to_string_i64: "is_digit (last (to_string_i64 a))"
  using dec_of_nat_digits [OF last_in_set [OF dec_of_nat_not_Nil]]
  by (simp add: to_string_i64_def int_to_string_def)

lemma to_string_i64_not_Nil [simp]: "to_string_i64 a \<noteq> []"
  by (simp add: to_string_i64_def int_to_string_def)

lemma last_key:
  "last (FeedKey u) = CHR ''d''" "last (VisitLastKey u) = CHR ''t''"
  "last (GptRankKey u) = CHR ''k''" "is_digit (last (SimilarKey a))"
  "last PopularGlobalKey = CHR ''l''"
  by (simp_all add: key_defs last_to_string_i64)

lemma key_neq [simp]:
  "FeedKey u \<noteq> VisitLastKey v" "VisitLastKey u \<noteq> FeedKey v"
  "FeedKey u \<noteq> GptRankKey v" "GptRankKey u \<noteq> FeedKey v"
  "VisitLastKey u \<noteq> GptRankKey v" "GptRankKey u \<noteq> VisitLastKey v"
  "FeedKey u \<noteq> PopularGlobalKey" "PopularGlobalKey \<noteq> FeedKey u"
  "VisitLastKey u \<noteq> PopularGlobalKey" "PopularGlobalKey \<noteq> VisitLastKey u"
  "GptRankKey u \<noteq> PopularGlobalKey" "PopularGlobalKey \<noteq> GptRankKey u"
  using last_key(1-3) [of u] last_key(1-3) [of v] last_key(5) by auto

lemma similar_neq [simp]:
  "SimilarKey a \<noteq> FeedKey u" "FeedKey u \<noteq> SimilarKey a"
  "SimilarKey a \<noteq> VisitLastKey u" "VisitLastKey u \<noteq> SimilarKey a"
  "SimilarKey a \<noteq> GptRankKey u" "GptRankKey u \<noteq> SimilarKey a"
  "SimilarKey a \<noteq> PopularGlobalKey" "PopularGlobalKey \<noteq> SimilarKey a"
  using last_key(1-3) [of u] last_key(4) [of a] last_key(5)
  by (auto simp: is_digit_def)

lemma idem_neq [simp]:
  "IdempotencyKey t \<noteq> SimilarKey a" "SimilarKey a \<noteq> IdempotencyKey t"
  "IdempotencyKey t \<noteq> PopularGlobalKey" "PopularGlobalKey \<noteq> IdempotencyKey t"
  by (simp_all add: key_defs)

subsection \<open>Where user ids and tokens meet\<close>

text \<open>The user ids whose keys lie in the family of the idempotency tokens.\<close>

definition idem_like :: "string \<Rightarrow> bool" where
  "idem_like u \<longleftrightarrow> u = ''idempotency'' \<or> take 13 u = ''idempotency}:''"

lemma append_eq_colon:
  "(\<exists>tok. xs = ''idempotency}:'' @ tok) \<longleftrightarrow> take 13 xs = ''idempotency}:''"
proof -
  have "(\<exists>tok. xs = ys @ tok) \<longleftrightarrow> take (length ys) xs = ys" for ys
    by (metis append_eq_conv_conj append_take_drop_id)
  from this [of "''idempotency}:''"] show ?thesis by (simp add: numeral_eq_Suc del: append_Cons)
qed

lemma take_idem_like:
  "take 13 (u @ CHR ''}'' # CHR '':'' # r) = ''idempotency}:'' \<longleftrightarrow> idem_like u"
proof (cases "13 \<le> length u")
  case True
  then show ?thesis by (auto simp: idem_like_def)
next
  case False
  have "length u = 0 \<or> length u = 1 \<or> length u = 2 \<or> length u = 3 \<or> length u = 4 \<or> length u = 5 \<or>
    length u = 6 \<or> length u = 7 \<or> length u = 8 \<or> length u = 9 \<or> length u = 10 \<or> length u = 11 \<or>
    length u = 12"
    using False by (simp add: not_le numeral_eq_Suc less_Suc_eq)
  then show ?thesis
    by (elim disjE) (auto simp: idem_like_def length_Suc_conv numeral_eq_Suc)
qed

lemma user_key_token_iff:
  "(\<exists>tok. FeedKey u = IdempotencyKey tok) \<longleftrightarrow> idem_like u"
  "(\<exists>tok. VisitLastKey u = IdempotencyKey tok) \<longleftrightarrow> idem_like u"
  "(\<exists>tok. GptRankKey u = IdempotencyKey tok) \<longleftrightarrow> idem_like u"
  using append_eq_colon [of "u @ ''}:feed''"] take_idem_like [of u "''feed''"]
    append_eq_colon [of "u @ ''}:visit_last''"] take_idem_like [of u "''visit_last''"]
    append_eq_colon [of "u @ ''}:gpt_rank''"] take_idem_like [of u "''gpt_rank''"]
  by (simp_all add: key_defs)

lemma user_key_neq_token:
  assumes "\<not> idem_like u"
  shows "FeedKey u \<noteq> IdempotencyKey tok" "VisitLastKey u \<noteq> IdempotencyKey tok"
    "GptRankKey u \<noteq> IdempotencyKey tok"
  using user_key_token_iff [of u] assms by blast+

subsection \<open>Cluster slots\<close>

text \<open>
  The part of a key a Redis cluster hashes: what stands between the first opening brace and
  the first closing brace after it, when that is not empty; else the whole key.
\<close>

definition hash_tag :: "string \<Rightarrow> string" where
  "hash_tag key =
     (case dropWhile (\<lambda>c. c \<noteq> CHR ''{'') key of
        [] \<Rightarrow> key
      | _ # r \<Rightarrow>
          let t = takeWhile (\<lambda>c. c \<noteq> CHR ''}'') r
          in if t = [] \<or> t = r then key else t)"

lemma hash_tag_user:
  "hash_tag (''{rhythm:'' @ u @ CHR ''}'' # r) = ''rhythm:'' @ takeWhile (\<lambda>c. c \<noteq> CHR ''}'') u"
proof -
  have "takeWhile (\<lambda>c. c \<noteq> CHR ''}'') (u @ CHR ''}'' # r) = takeWhile (\<lambda>c. c \<noteq> CHR ''}'') u"
    by (induction u) auto
  moreover have "takeWhile (\<lambda>c. c \<noteq> CHR ''}'') (u @ CHR ''}'' # r) \<noteq> u @ CHR ''}'' # r"
    by (subst takeWhile_eq_all_conv) auto
  ultimately show ?thesis by (simp add: hash_tag_def Let_def)
qed

subsection \<open>Properties\<close>

text \<open>
  C36. The keys of the six families are told apart by their contents: two keys built from a
  user id, an anchor or nothing coincide only if they are of the same family with the same
  argument, and a key built from a user id coincides with the key of some idempotency token
  exactly for the user ids that read \<^verbatim>\<open>idempotency\<close> or begin with
  \<^verbatim>\<open>idempotency}:\<close>.
\<close>

theorem keyspace_separation:
  "(FeedKey u = FeedKey v \<longleftrightarrow> u = v) \<and> (VisitLastKey u = VisitLastKey v \<longleftrightarrow> u = v) \<and>
   (GptRankKey u = GptRankKey v \<longleftrightarrow> u = v) \<and> (SimilarKey a = SimilarKey b \<longleftrightarrow> a = b) \<and>
   (IdempotencyKey s = IdempotencyKey t \<longleftrightarrow> s = t) \<and>
   distinct [FeedKey u, VisitLastKey v, GptRankKey w, SimilarKey a, PopularGlobalKey] \<and>
   IdempotencyKey t \<notin> {SimilarKey a, PopularGlobalKey} \<and>
   ((\<exists>tok. IdempotencyKey tok \<in> {FeedKey u, VisitLastKey u, GptRankKey u}) \<longleftrightarrow> idem_like u)"
  using user_key_token_iff [of u] by simp metis

text \<open>
  A client's token can be the key of a feed: the feed of the user
  \<^verbatim>\<open>idempotency\<close> is stored under the key of the token \<^verbatim>\<open>feed\<close>, the
  last visit under that of \<^verbatim>\<open>visit_last\<close>, the ranking under that of
  \<^verbatim>\<open>gpt_rank\<close>; and any token \<open>t\<close> that ends in \<^verbatim>\<open>}:feed\<close> is
  the feed key of a user.
\<close>

lemma idempotency_keys_collide:
  "FeedKey ''idempotency'' = IdempotencyKey ''feed'' \<and>
   VisitLastKey ''idempotency'' = IdempotencyKey ''visit_last'' \<and>
   GptRankKey ''idempotency'' = IdempotencyKey ''gpt_rank'' \<and>
   FeedKey (''idempotency}:'' @ x) = IdempotencyKey (x @ ''}:feed'')"
  by (simp add: key_defs)

text \<open>
  All keys of one user carry the same hash tag, whatever characters the user id holds,
  so a Redis cluster keeps them in one slot.
\<close>

lemma user_keys_share_slot:
  "hash_tag (VisitLastKey u) = hash_tag (FeedKey u) \<and> hash_tag (GptRankKey u) = hash_tag (FeedKey u)"
  using hash_tag_user [of u] by (simp add: key_defs)

end
