(* ===== verification/Json_Model.thy ===== *)
theory Json_Model
  imports Prelude
begin

text \<open>
  JSON as the source uses it. The JSON library is not part of the repository: its parser,
  its printer and its answers on values of the wrong kind are the fields of
  \<open>json_lib\<close>, an argument of every definition that calls it. A value is described by
  the first type test it passes, in the order in which the source asks
  (\<^verbatim>\<open>IsString\<close>, \<^verbatim>\<open>IsInt64\<close>, \<^verbatim>\<open>IsUInt64\<close>,
  \<^verbatim>\<open>IsDouble\<close>). The helpers are those of
  \<^verbatim>\<open>src/handlers/http_json_helpers.hpp\<close> and the id lists of
  \<^verbatim>\<open>src/infra/redis_rhythm_data.cpp\<close>.
\<close>

subsection \<open>Values and the library\<close>

datatype json =
    JNull
  | JBool bool
  | JString string
  | JInt64 int64
  | JUInt64 "64 word"
  | JDouble "64 word"
  | JArray "json list"
  | JObject "(string \<times> json) list"

record json_lib =
  FromString :: "string \<Rightarrow> exn + json"
  ToString :: "json \<Rightarrow> string"
  member_nonobj :: "json \<Rightarrow> exn + bool"
  as_string_error :: "json option \<Rightarrow> exn"

definition HasMember :: "json_lib \<Rightarrow> json \<Rightarrow> string \<Rightarrow> exn + bool" where
  "HasMember J v key =
     (case v of JObject kvs \<Rightarrow> Inr (key \<in> fst ` set kvs) | _ \<Rightarrow> member_nonobj J v)"

text \<open>\<open>json[key]\<close>; a missing member is None.\<close>

definition at_key :: "json \<Rightarrow> string \<Rightarrow> json option" where
  "at_key v key = (case v of JObject kvs \<Rightarrow> map_of kvs key | _ \<Rightarrow> None)"

text \<open>\<open>As<std::string>()\<close> throws on anything but a string.\<close>

definition As_string :: "json_lib \<Rightarrow> json option \<Rightarrow> exn + string" where
  "As_string J v = (case v of Some (JString s) \<Rightarrow> Inr s | _ \<Rightarrow> Inl (as_string_error J v))"

text \<open>
  What the code relies on: a value that is not an object has no member, and the library
  reads back a document that it printed.
\<close>

definition nonobj_no_member :: "json_lib \<Rightarrow> bool" where
  "nonobj_no_member J \<longleftrightarrow> (\<forall>v. member_nonobj J v \<noteq> Inr True)"

definition codec_ok :: "json_lib \<Rightarrow> json \<Rightarrow> bool" where
  "codec_ok J v \<longleftrightarrow> FromString J (ToString J v) = Inr v"

lemma HasMember_JObject [simp]: "HasMember J (JObject kvs) key = Inr (key \<in> fst ` set kvs)"
  by (simp add: HasMember_def)

lemma HasMember_TrueD:
  "nonobj_no_member J \<Longrightarrow> HasMember J v key = Inr True \<Longrightarrow> \<exists>x. at_key v key = Some x"
  by (cases v) (auto simp: HasMember_def nonobj_no_member_def at_key_def,
    metis map_of_eq_None_iff not_None_eq rev_image_eqI fst_conv)

subsection \<open>Printing a double\<close>

text \<open>
  \<^verbatim>\<open>std::to_string(double)\<close> prints with \<^verbatim>\<open>%f\<close>: six decimals of the
  exact value, ties to even. The double is given by its IEEE 754 bits.
\<close>

definition round_half_even :: "nat \<Rightarrow> nat \<Rightarrow> nat" where
  "round_half_even n d =
     (let q = n div d; r = n mod d
      in if 2 * r < d then q else if d < 2 * r then q + 1 else if even q then q else q + 1)"

definition pad6 :: "string \<Rightarrow> string" where
  "pad6 s = replicate (6 - length s) CHR ''0'' @ s"

definition double_to_string :: "64 word \<Rightarrow> string" where
  "double_to_string w =
     (let b = unat w;
          sign = (if 2 ^ 63 \<le> b then ''-'' else []);
          ex = b div 2 ^ 52 mod 2048;
          frac = b mod 2 ^ 52
      in if ex = 2047 then sign @ (if frac = 0 then ''inf'' else ''nan'')
         else
           let m = (if ex = 0 then frac else 2 ^ 52 + frac);
               e = (if ex = 0 then 1 else ex);
               k = (if 1075 \<le> e then m * 2 ^ (e - 1075) * 10 ^ 6
                    else round_half_even (m * 10 ^ 6) (2 ^ (1075 - e)))
           in sign @ dec_of_nat (k div 10 ^ 6) @ ''.'' @ pad6 (dec_of_nat (k mod 10 ^ 6)))"

subsection \<open>Helpers of the handlers\<close>

definition quoted :: "string \<Rightarrow> string" where
  "quoted s = CHR 0x27 # s @ [CHR 0x27]"

definition JsonError :: "json_lib \<Rightarrow> string \<Rightarrow> string" where
  "JsonError J code = ToString J (JObject [(''error'', JString code)])"

definition JsonActionAccepted :: "json_lib \<Rightarrow> bool \<Rightarrow> string" where
  "JsonActionAccepted J duplicate =
     ToString J (JObject [(''status'', JString ''accepted''), (''duplicate'', JBool duplicate)])"

fun trim_front :: "string \<Rightarrow> string" where
  "trim_front [] = []"
| "trim_front (c # s) = (if is_space c then trim_front s else c # s)"

function trim_back :: "string \<Rightarrow> string" where
  "trim_back s = (if s \<noteq> [] \<and> is_space (last s) then trim_back (butlast s) else s)"
  by pat_completeness auto
termination
  by (relation "measure length") auto

declare trim_back.simps [simp del]

definition TrimCopy :: "string \<Rightarrow> string" where
  "TrimCopy s = trim_back (trim_front s)"

definition JsonFieldAsString :: "json_lib \<Rightarrow> json \<Rightarrow> string \<Rightarrow> exn + string" where
  "JsonFieldAsString J json key =
     (case HasMember J json key of
        Inl e \<Rightarrow> Inl e
      | Inr False \<Rightarrow> Inl (Runtime_error (''missing field '' @ quoted key))
      | Inr True \<Rightarrow>
          (case at_key json key of
             Some (JString s) \<Rightarrow> Inr s
           | Some (JInt64 x) \<Rightarrow> Inr (to_string_i64 x)
           | Some (JUInt64 x) \<Rightarrow> Inr (to_string_i64 x)
           | Some (JDouble x) \<Rightarrow> Inr (double_to_string x)
           | _ \<Rightarrow> Inl (Runtime_error (''field '' @ quoted key @ '' has unsupported type''))))"

subsection \<open>Lists of ids\<close>

definition ids_json :: "int64 list \<Rightarrow> json" where
  "ids_json ids = JArray (map JInt64 ids)"

definition IdsToJson :: "json_lib \<Rightarrow> int64 list \<Rightarrow> string" where
  "IdsToJson J ids = ToString J (ids_json ids)"

text \<open>The loop over the elements; None is the early \<^verbatim>\<open>return false\<close>.\<close>

fun collect_ids :: "json list \<Rightarrow> int64 list option" where
  "collect_ids [] = Some []"
| "collect_ids (el # els) =
     (case el of
        JInt64 x \<Rightarrow> map_option ((#) x) (collect_ids els)
      | JUInt64 x \<Rightarrow> map_option ((#) x) (collect_ids els)
      | _ \<Rightarrow> None)"

definition JsonToIds :: "json_lib \<Rightarrow> string \<Rightarrow> int64 list option" where
  "JsonToIds J raw =
     (case FromString J raw of
        Inl e \<Rightarrow> None
      | Inr (JArray els) \<Rightarrow> collect_ids els
      | Inr _ \<Rightarrow> None)"

subsection \<open>Lemmas\<close>

lemma collect_ids_map [simp]: "collect_ids (map JInt64 ids) = Some ids"
  by (induction ids) auto

lemma JsonToIds_IdsToJson:
  "codec_ok J (ids_json ids) \<Longrightarrow> JsonToIds J (IdsToJson J ids) = Some ids"
  by (simp add: codec_ok_def JsonToIds_def IdsToJson_def) (simp add: ids_json_def)

lemma trim_front_dropWhile: "trim_front s = dropWhile is_space s"
  by (induction s) auto

lemma trim_back_snoc: "trim_back (s @ [c]) = (if is_space c then trim_back s else s @ [c])"
  by (subst trim_back.simps) simp

lemma trim_back_Nil [simp]: "trim_back [] = []"
  by (subst trim_back.simps) simp

lemma trim_back_rev: "trim_back s = rev (dropWhile is_space (rev s))"
  by (induction s rule: rev_induct) (auto simp: trim_back_snoc)

lemma trim_back_append_space: "\<forall>c \<in> set ws. is_space c \<Longrightarrow> trim_back (s @ ws) = trim_back s"
  by (induction ws rule: rev_induct) (auto simp: trim_back_snoc simp flip: append_assoc)

lemma trim_front_append_space: "\<forall>c \<in> set ws. is_space c \<Longrightarrow> trim_front (ws @ s) = trim_front s"
  by (induction ws) auto

text \<open>A string trimmed on both sides: no white space at either end.\<close>

definition trimmed :: "string \<Rightarrow> bool" where
  "trimmed s \<longleftrightarrow> (s = [] \<or> \<not> is_space (hd s) \<and> \<not> is_space (last s))"

lemma trim_split: "\<exists>ws. s = ws @ trim_front s \<and> (\<forall>c \<in> set ws. is_space c)"
  by (rule exI [of _ "takeWhile is_space s"])
    (auto simp: trim_front_dropWhile dest: set_takeWhileD)

lemma trim_back_split: "\<exists>ws. s = trim_back s @ ws \<and> (\<forall>c \<in> set ws. is_space c)"
proof -
  have "s = rev (dropWhile is_space (rev s)) @ rev (takeWhile is_space (rev s))"
    by (metis rev_append rev_rev_ident takeWhile_dropWhile_id)
  then show ?thesis
    by (intro exI [of _ "rev (takeWhile is_space (rev s))"])
      (auto simp: trim_back_rev dest: set_takeWhileD)
qed

lemma trim_front_hd: "trim_front s \<noteq> [] \<Longrightarrow> \<not> is_space (hd (trim_front s))"
  by (induction s) auto

lemma trim_back_last: "trim_back s \<noteq> [] \<Longrightarrow> \<not> is_space (last (trim_back s))"
  by (induction s rule: rev_induct) (auto simp: trim_back_snoc split: if_splits)

lemma trimmed_TrimCopy: "trimmed (TrimCopy s)"
proof -
  obtain ws where ws: "trim_front s = trim_back (trim_front s) @ ws" using trim_back_split by blast
  show ?thesis
  proof (cases "trim_back (trim_front s) = []")
    case False
    then have "hd (trim_back (trim_front s)) = hd (trim_front s)" by (subst (2) ws) simp
    moreover have "trim_front s \<noteq> []" using False by auto
    ultimately show ?thesis
      using trim_front_hd [of s] trim_back_last [OF False] by (simp add: trimmed_def TrimCopy_def)
  qed (simp add: trimmed_def TrimCopy_def)
qed

lemma TrimCopy_trimmed: "trimmed t \<Longrightarrow> TrimCopy t = t"
proof (cases t)
  case (Cons c r)
  assume "trimmed t"
  then have "trim_front t = t" and "\<not> is_space (last t)" by (auto simp: trimmed_def Cons)
  then show ?thesis by (simp add: TrimCopy_def trim_back.simps)
qed (simp add: TrimCopy_def)

lemma TrimCopy_pad:
  "\<forall>c \<in> set ws. is_space c \<Longrightarrow> \<forall>c \<in> set vs. is_space c \<Longrightarrow> TrimCopy (ws @ s @ vs) = TrimCopy s"
proof -
  assume ws: "\<forall>c \<in> set ws. is_space c" and vs: "\<forall>c \<in> set vs. is_space c"
  have all: "trim_front vs = []" if "\<forall>c \<in> set vs. is_space c" for vs
    using that by (induction vs) auto
  have "trim_back (trim_front (s @ vs)) = trim_back (trim_front s)"
  proof (cases "\<forall>c \<in> set s. is_space c")
    case True
    then have "trim_front s = []" and "trim_front (s @ vs) = []" using vs by (auto intro!: all)
    then show ?thesis by simp
  next
    case False
    then have "trim_front (s @ vs) = trim_front s @ vs"
      by (induction s) auto
    then show ?thesis using vs by (simp add: trim_back_append_space)
  qed
  then show ?thesis using ws by (simp add: TrimCopy_def trim_front_append_space)
qed

lemma length_TrimCopy: "length (TrimCopy s) \<le> length s"
  using trim_split [of s] trim_back_split [of "trim_front s"]
  by (auto simp: TrimCopy_def dest!: arg_cong [of _ _ length])

subsection \<open>Properties\<close>

text \<open>
  \<^verbatim>\<open>TrimCopy\<close> computes the one string without white space at its ends from
  which the input is got by adding white space on either side.
\<close>

lemma TrimCopy_characterised:
  "trimmed t \<and> (\<exists>ws vs. s = ws @ t @ vs \<and> list_all is_space (ws @ vs)) \<longleftrightarrow> t = TrimCopy s"
proof
  assume "trimmed t \<and> (\<exists>ws vs. s = ws @ t @ vs \<and> list_all is_space (ws @ vs))"
  then show "t = TrimCopy s" by (auto simp: TrimCopy_pad TrimCopy_trimmed list_all_iff)
next
  assume t: "t = TrimCopy s"
  obtain ws where front: "s = ws @ trim_front s" and ws: "\<forall>c \<in> set ws. is_space c"
    using trim_split [of s] by blast
  obtain vs where rear: "trim_front s = trim_back (trim_front s) @ vs"
    and vs: "\<forall>c \<in> set vs. is_space c"
    using trim_back_split [of "trim_front s"] by blast
  have "t @ vs = trim_front s"
    unfolding t TrimCopy_def by (rule rear [symmetric])
  with front have "s = ws @ t @ vs" by metis
  then show "trimmed t \<and> (\<exists>ws vs. s = ws @ t @ vs \<and> list_all is_space (ws @ vs))"
    using ws vs trimmed_TrimCopy [of s]
    by (intro conjI exI [of _ ws] exI [of _ vs]) (auto simp: t list_all_iff)
qed

end
