(* ===== verification/Json_Codec.thy ===== *)
theory Json_Codec
  imports Json_Model
begin

text \<open>
  A concrete library for the parameter \<open>json_lib\<close>: every value is printed with a
  length in front of each variable part, and the parser reads it back. It is not the
  library the service links; it shows that the laws the theorems assume of one can hold
  together, and the examples run on it.
\<close>

definition enc_len :: "nat \<Rightarrow> string" where
  "enc_len n = dec_of_nat n @ '':''"

definition enc_string :: "string \<Rightarrow> string" where
  "enc_string s = enc_len (length s) @ s"

fun enc_json :: "json \<Rightarrow> string" where
  "enc_json JNull = ''n''"
| "enc_json (JBool b) = (if b then ''t'' else ''f'')"
| "enc_json (JString s) = ''s'' @ enc_string s"
| "enc_json (JInt64 x) = ''i'' @ enc_len (unat x)"
| "enc_json (JUInt64 x) = ''u'' @ enc_len (unat x)"
| "enc_json (JDouble x) = ''d'' @ enc_len (unat x)"
| "enc_json (JArray xs) = ''['' @ enc_len (length xs) @ concat (map enc_json xs)"
| "enc_json (JObject kvs) =
     ''{'' @ enc_len (length kvs) @ concat (map (\<lambda>(k, v). enc_string k @ enc_json v) kvs)"

definition dec_len :: "string \<Rightarrow> (nat \<times> string) option" where
  "dec_len s =
     (let ds = takeWhile is_digit s; r = drop (length ds) s
      in if ds = [] then None
         else case r of [] \<Rightarrow> None | c # r' \<Rightarrow> if c = CHR '':'' then Some (dec_val ds, r') else None)"

definition dec_string :: "string \<Rightarrow> (string \<times> string) option" where
  "dec_string s =
     (case dec_len s of None \<Rightarrow> None
      | Some (n, r) \<Rightarrow> if length r < n then None else Some (take n r, drop n r))"

function dec_json :: "nat \<Rightarrow> string \<Rightarrow> (json \<times> string) option"
  and dec_list :: "nat \<Rightarrow> nat \<Rightarrow> string \<Rightarrow> (json list \<times> string) option"
  and dec_members :: "nat \<Rightarrow> nat \<Rightarrow> string \<Rightarrow> ((string \<times> json) list \<times> string) option" where
  "dec_json 0 s = None"
| "dec_json (Suc f) [] = None"
| "dec_json (Suc f) (c # s) =
     (if c = CHR ''n'' then Some (JNull, s)
      else if c = CHR ''t'' then Some (JBool True, s)
      else if c = CHR ''f'' then Some (JBool False, s)
      else if c = CHR ''s'' then map_option (map_prod JString id) (dec_string s)
      else if c = CHR ''i'' then map_option (map_prod (\<lambda>n. JInt64 (of_nat n)) id) (dec_len s)
      else if c = CHR ''u'' then map_option (map_prod (\<lambda>n. JUInt64 (of_nat n)) id) (dec_len s)
      else if c = CHR ''d'' then map_option (map_prod (\<lambda>n. JDouble (of_nat n)) id) (dec_len s)
      else if c = CHR ''['' then
        (case dec_len s of None \<Rightarrow> None
         | Some (n, r) \<Rightarrow> map_option (map_prod JArray id) (dec_list f n r))
      else if c = CHR ''{'' then
        (case dec_len s of None \<Rightarrow> None
         | Some (n, r) \<Rightarrow> map_option (map_prod JObject id) (dec_members f n r))
      else None)"
| "dec_list f 0 s = Some ([], s)"
| "dec_list f (Suc n) s =
     (case dec_json f s of None \<Rightarrow> None
      | Some (x, r) \<Rightarrow> map_option (map_prod ((#) x) id) (dec_list f n r))"
| "dec_members f 0 s = Some ([], s)"
| "dec_members f (Suc n) s =
     (case dec_string s of None \<Rightarrow> None
      | Some (k, r) \<Rightarrow>
          (case dec_json f r of None \<Rightarrow> None
           | Some (x, r') \<Rightarrow> map_option (map_prod ((#) (k, x)) id) (dec_members f n r')))"
  by pat_completeness auto
termination
  by (relation "inv_image (less_than <*lex*> less_than <*lex*> less_than)
      (\<lambda>x. case x of Inl (f, s) \<Rightarrow> (f, 0, 0) | Inr (Inl (f, n, s)) \<Rightarrow> (f, 1, n)
        | Inr (Inr (f, n, s)) \<Rightarrow> (f, 1, n))") auto

definition ref_json :: json_lib where
  "ref_json =
     \<lparr>FromString = (\<lambda>s. case dec_json (length s) s of
        Some (v, []) \<Rightarrow> Inr v | _ \<Rightarrow> Inl (Library_error ''json parse'')),
      ToString = enc_json,
      member_nonobj = (\<lambda>v. Inl (Library_error ''type mismatch'')),
      as_string_error = (\<lambda>v. Library_error ''type mismatch'')\<rparr>"

lemma dec_len_enc [simp]: "dec_len (enc_len n @ r) = Some (n, r)"
proof -
  have "takeWhile is_digit (dec_of_nat n @ CHR '':'' # r) = dec_of_nat n"
    by (rule takeWhile_digits_append) (auto dest: dec_of_nat_digits simp: is_digit_def)
  then show ?thesis by (simp add: dec_len_def enc_len_def)
qed

lemma dec_len_enc_end [simp]: "dec_len (enc_len n) = Some (n, [])"
  using dec_len_enc [of n "[]"] by simp

lemma dec_string_enc [simp]: "dec_string (enc_string s @ r) = Some (s, r)"
  by (simp add: dec_string_def enc_string_def)

lemma dec_list_enc:
  assumes "\<And>x r. x \<in> set xs \<Longrightarrow> dec_json f (enc_json x @ r) = Some (x, r)"
  shows "dec_list f (length xs) (concat (map enc_json xs) @ r) = Some (xs, r)"
  using assms by (induction xs) auto

lemma dec_members_enc:
  assumes "\<And>k x r. (k, x) \<in> set kvs \<Longrightarrow> dec_json f (enc_json x @ r) = Some (x, r)"
  shows "dec_members f (length kvs) (concat (map (\<lambda>(k, v). enc_string k @ enc_json v) kvs) @ r) =
    Some (kvs, r)"
  using assms
proof (induction kvs)
  case (Cons kv kvs)
  obtain k x where kv: "kv = (k, x)" by (cases kv)
  have "dec_json f (enc_json x @ rest) = Some (x, rest)" for rest
    using Cons.prems [of k x rest] kv by simp
  moreover have "dec_members f (length kvs) (concat (map (\<lambda>(k, v). enc_string k @ enc_json v) kvs) @ r) =
      Some (kvs, r)"
  proof (rule Cons.IH)
    fix k x r assume "(k, x) \<in> set kvs"
    then have "(k, x) \<in> set (kv # kvs)" by simp
    then show "dec_json f (enc_json x @ r) = Some (x, r)" by (rule Cons.prems)
  qed
  ultimately show ?case by (simp add: kv)
qed simp

lemma length_enc_member:
  "x \<in> set xs \<Longrightarrow> length (enc_json x) \<le> length (concat (map enc_json xs))"
  "(k, v) \<in> set kvs \<Longrightarrow>
    length (enc_json v) \<le> length (concat (map (\<lambda>(k, v). enc_string k @ enc_json v) kvs))"
  by (induction xs) (auto, induction kvs, auto)

text \<open>Fuel: no value nests deeper than its text is long.\<close>

lemma dec_json_Suc [simp]:
  "dec_json (Suc f) (CHR ''['' # enc_len n @ r) = map_option (map_prod JArray id) (dec_list f n r)"
  "dec_json (Suc f) (CHR ''{'' # enc_len n @ r) = map_option (map_prod JObject id) (dec_members f n r)"
  "dec_json (Suc f) (CHR ''s'' # s) = map_option (map_prod JString id) (dec_string s)"
  "dec_json (Suc f) (CHR ''i'' # s) = map_option (map_prod (\<lambda>n. JInt64 (of_nat n)) id) (dec_len s)"
  "dec_json (Suc f) (CHR ''u'' # s) = map_option (map_prod (\<lambda>n. JUInt64 (of_nat n)) id) (dec_len s)"
  "dec_json (Suc f) (CHR ''d'' # s) = map_option (map_prod (\<lambda>n. JDouble (of_nat n)) id) (dec_len s)"
  "dec_json (Suc f) (CHR ''n'' # s) = Some (JNull, s)"
  "dec_json (Suc f) (CHR ''t'' # s) = Some (JBool True, s)"
  "dec_json (Suc f) (CHR ''f'' # s) = Some (JBool False, s)"
  by simp_all

lemma enc_json_fuel: "length (enc_json x) \<le> f \<Longrightarrow> \<exists>g. f = Suc g"
  by (cases f; cases x) (auto split: if_splits)

lemma dec_json_enc: "length (enc_json x) \<le> f \<Longrightarrow> dec_json f (enc_json x @ r) = Some (x, r)"
proof (induction x arbitrary: f r)
  case (JArray xs)
  obtain g where f: "f = Suc g" using enc_json_fuel [OF JArray.prems] by blast
  have "dec_json g (enc_json x @ r) = Some (x, r)" if "x \<in> set xs" for x r
  proof (rule JArray.IH [OF that])
    show "length (enc_json x) \<le> g" using JArray.prems length_enc_member(1) [OF that] f by simp
  qed
  from dec_list_enc [where xs = xs and f = g and r = r, OF this] show ?case
    by (simp add: f del: dec_json.simps)
next
  case (JObject kvs)
  obtain g where f: "f = Suc g" using enc_json_fuel [OF JObject.prems] by blast
  have "dec_json g (enc_json x @ r) = Some (x, r)" if "(k, x) \<in> set kvs" for k x r
  proof (rule JObject.IH [OF that])
    show "length (enc_json x) \<le> g" using JObject.prems length_enc_member(2) [OF that] f by simp
  qed simp
  from dec_members_enc [where kvs = kvs and f = g and r = r, OF this] show ?case
    by (simp add: f del: dec_json.simps)
qed (drule enc_json_fuel, clarsimp simp del: dec_json.simps)+

lemma ref_json_codec_ok [simp]: "codec_ok ref_json v"
  using dec_json_enc [of v "length (enc_json v)" "[]"] by (simp add: codec_ok_def ref_json_def)

lemma ref_json_nonobj [simp]: "nonobj_no_member ref_json"
  by (simp add: nonobj_no_member_def ref_json_def)

end
