(* ===== verification/Ttl_Policy.thy ===== *)
theory Ttl_Policy
  imports Prelude
begin

text \<open>
  The rules of the feed cache of \<^verbatim>\<open>src/domain/ttl_policy.hpp\<close> and
  \<^verbatim>\<open>ttl_policy.cpp\<close>: the time-to-live constants, the classification of a visit by
  the day of the previous one, and whether a feed has to be dropped. A function that reads
  \<^verbatim>\<open>Clock::now()\<close> takes each reading it makes as an argument, in the order it
  makes them.
\<close>

subsection \<open>Constants\<close>

definition kFeedListSize :: nat where "kFeedListSize = 50"
definition kGptRecommendationIds :: nat where "kGptRecommendationIds = 100"
definition kFeedKeyTtl :: secs where "kFeedKeyTtl = 96 * 60"
definition kGptRankingTtl :: secs where "kGptRankingTtl = 30 * 60"
definition kSimilarProductsTtl :: secs where "kSimilarProductsTtl = 24 * 3600"
definition kPopularProductsTtl :: secs where "kPopularProductsTtl = 3600"
definition kExtendIfVisitedToday :: secs where "kExtendIfVisitedToday = 3600"
definition kExtendIfVisitedYesterday :: secs where "kExtendIfVisitedYesterday = 6 * 3600"
definition kStaleAfterNoVisit :: secs where "kStaleAfterNoVisit = 24 * 3600"
definition kIdempotencyHold :: secs where "kIdempotencyHold = 48 * 3600"

lemmas ttl_consts = kFeedListSize_def kGptRecommendationIds_def kFeedKeyTtl_def
  kGptRankingTtl_def kSimilarProductsTtl_def kPopularProductsTtl_def
  kExtendIfVisitedToday_def kExtendIfVisitedYesterday_def kStaleAfterNoVisit_def
  kIdempotencyHold_def

lemma ttl_pos [simp]:
  "0 < kFeedKeyTtl" "0 < kGptRankingTtl" "0 < kSimilarProductsTtl" "0 < kPopularProductsTtl"
  "0 < kIdempotencyHold" "0 < kStaleAfterNoVisit"
  by (simp_all add: ttl_consts)

lemma list_sizes [simp]: "kFeedListSize \<le> kGptRecommendationIds" "0 < kFeedListSize"
  by (simp_all add: ttl_consts)

subsection \<open>Classification of visits\<close>

datatype visit_recency = Today | Yesterday | StaleNewSession

definition ns_per_day :: int where
  "ns_per_day = ns_of_secs (24 * 3600)"

text \<open>\<^verbatim>\<open>std::chrono::floor<days>\<close>: the number of the UTC day.\<close>

definition utc_day :: "time \<Rightarrow> int" where
  "utc_day t = t div ns_per_day"

definition IsSameUtcDay :: "time \<Rightarrow> time \<Rightarrow> bool" where
  "IsSameUtcDay a b \<longleftrightarrow> utc_day a = utc_day b"

definition IsPreviousUtcDay :: "time \<Rightarrow> time \<Rightarrow> bool" where
  "IsPreviousUtcDay now prev \<longleftrightarrow> utc_day now - utc_day prev = 1"

definition ShouldInvalidateFeed :: "time \<Rightarrow> time option \<Rightarrow> bool" where
  "ShouldInvalidateFeed now last_seen =
     (case last_seen of
        None \<Rightarrow> True
      | Some t \<Rightarrow> (if now - t \<ge> ns_of_secs kStaleAfterNoVisit then True else False))"

text \<open>
  \<open>ClassifyVisit\<close> reads the clock itself (\<open>now\<close>) and once more inside its call of
  \<open>ShouldInvalidateFeed\<close> (\<open>now'\<close>).
\<close>

definition ClassifyVisit :: "time \<Rightarrow> time \<Rightarrow> time option \<Rightarrow> visit_recency" where
  "ClassifyVisit now now' last_seen =
     (case last_seen of
        None \<Rightarrow> StaleNewSession
      | Some t \<Rightarrow>
          if ShouldInvalidateFeed now' last_seen then StaleNewSession
          else if IsSameUtcDay now t then Today
          else if IsPreviousUtcDay now t then Yesterday
          else StaleNewSession)"

fun ExtendFeedTtlOnHit :: "visit_recency \<Rightarrow> secs" where
  "ExtendFeedTtlOnHit Today = kExtendIfVisitedToday"
| "ExtendFeedTtlOnHit Yesterday = kExtendIfVisitedYesterday"
| "ExtendFeedTtlOnHit StaleNewSession = 0"

text \<open>The two functions as the program calls them: the clock is only read when there was a visit.\<close>

definition ShouldInvalidateFeed_call :: "time option \<Rightarrow> (bool, 'x clocks_scheme) prog" where
  "ShouldInvalidateFeed_call last_seen =
     (case last_seen of
        None \<Rightarrow> ret True
      | Some _ \<Rightarrow> bindE sys_now (\<lambda>now. ret (ShouldInvalidateFeed now last_seen)))"

definition ClassifyVisit_call :: "time option \<Rightarrow> (visit_recency, 'x clocks_scheme) prog" where
  "ClassifyVisit_call last_seen =
     (case last_seen of
        None \<Rightarrow> ret StaleNewSession
      | Some _ \<Rightarrow>
          bindE sys_now (\<lambda>now.
          bindE sys_now (\<lambda>now'. ret (ClassifyVisit now now' last_seen))))"

subsection \<open>Lemmas\<close>

lemma ShouldInvalidateFeed_call_run:
  "\<exists>c. ShouldInvalidateFeed_call v w = (Inr (ShouldInvalidateFeed (peek (sys_clk w)) v), w\<lparr>sys_clk := c\<rparr>)"
proof (cases v)
  case None
  then show ?thesis
    by (auto simp: ShouldInvalidateFeed_call_def ShouldInvalidateFeed_def intro!: exI [of _ "sys_clk w"])
next
  case (Some t)
  then show ?thesis by (auto simp: ShouldInvalidateFeed_call_def bindE_def)
qed

lemma ClassifyVisit_call_run:
  "\<exists>r c. ClassifyVisit_call v w = (Inr r, w\<lparr>sys_clk := c\<rparr>)"
proof (cases v)
  case None
  then show ?thesis
    by (auto simp: ClassifyVisit_call_def intro!: exI [of _ "sys_clk w"])
next
  case (Some t)
  then show ?thesis by (auto simp: ClassifyVisit_call_def bindE_def)
qed

lemma ns_per_day_pos [simp]: "0 < ns_per_day"
  by (simp add: ns_per_day_def)

lemma ns_per_day_neq_0 [simp]: "ns_per_day \<noteq> 0"
  using ns_per_day_pos by linarith

lemma ns_per_day_stale: "ns_of_secs kStaleAfterNoVisit = ns_per_day"
  by (simp add: ns_per_day_def kStaleAfterNoVisit_def)

lemma ShouldInvalidateFeed_simps [simp]:
  "ShouldInvalidateFeed now None"
  "ShouldInvalidateFeed now (Some t) \<longleftrightarrow> t + ns_per_day \<le> now"
  by (auto simp: ShouldInvalidateFeed_def ns_per_day_stale)

text \<open>Two instants less than a day apart lie on the same day or on consecutive days.\<close>

lemma utc_day_step:
  assumes "t \<le> now" and "now < t + ns_per_day"
  shows "utc_day now = utc_day t \<or> utc_day now = utc_day t + 1"
proof -
  have lo: "utc_day t \<le> utc_day now"
    using assms(1) by (simp add: utc_day_def zdiv_mono1)
  have "utc_day now \<le> (t + ns_per_day) div ns_per_day"
    using assms(2) by (simp add: utc_day_def zdiv_mono1)
  also have "\<dots> = utc_day t + 1"
    by (simp add: utc_day_def div_add_self2)
  finally show ?thesis using lo by linarith
qed

lemma ClassifyVisit_None [simp]: "ClassifyVisit now now' None = StaleNewSession"
  by (simp add: ClassifyVisit_def)

lemma ClassifyVisit_stale: "ShouldInvalidateFeed now' v \<Longrightarrow> ClassifyVisit now now' v = StaleNewSession"
  by (cases v) (simp_all add: ClassifyVisit_def)

lemma ExtendFeedTtlOnHit_nonneg [simp]: "0 \<le> ExtendFeedTtlOnHit r"
  by (cases r) (simp_all add: ttl_consts)

lemma ExtendFeedTtlOnHit_le: "ExtendFeedTtlOnHit r \<le> kExtendIfVisitedYesterday"
  by (cases r) (simp_all add: ttl_consts)

lemma ClassifyVisit_Yesterday_day:
  "ClassifyVisit now now' (Some t) = Yesterday \<Longrightarrow> utc_day now = utc_day t + 1"
  by (auto simp: ClassifyVisit_def IsPreviousUtcDay_def split: if_splits)

subsection \<open>Properties\<close>

text \<open>
  C37. With a system clock that does not run backwards, a visit is classified by exactly one
  rule: stale if a day or more has passed since the last one, else by whether the two lie on
  the same UTC day. The last \<^verbatim>\<open>return StaleNewSession\<close> of
  \<^verbatim>\<open>ClassifyVisit\<close> is never reached.
\<close>

theorem ClassifyVisit_monotone_clock:
  assumes "t \<le> now" and "now \<le> now'"
  shows "ClassifyVisit now now' (Some t) =
    (if t + ns_of_secs kStaleAfterNoVisit \<le> now' then StaleNewSession
     else if utc_day now = utc_day t then Today else Yesterday)"
proof (cases "t + ns_per_day \<le> now'")
  case True
  then show ?thesis by (simp add: ClassifyVisit_stale ns_per_day_stale)
next
  case False
  then have "utc_day now = utc_day t \<or> utc_day now = utc_day t + 1"
    using assms by (intro utc_day_step) auto
  with False show ?thesis
    by (auto simp: ClassifyVisit_def ns_per_day_stale IsSameUtcDay_def IsPreviousUtcDay_def)
qed

theorem ClassifyVisit_monotone_clock_witness:
  "ClassifyVisit (ns_of_secs 90000) (ns_of_secs 90001) (Some (ns_of_secs 80000)) = Yesterday"
  using ClassifyVisit_monotone_clock [of "ns_of_secs 80000" "ns_of_secs 90000" "ns_of_secs 90001"]
  by (simp add: ttl_consts utc_day_def ns_per_day_def ns_of_secs_def ns_per_sec_def)

text \<open>
  A feed whose time-to-live is extended is never one the policy wants dropped: with a
  clock that does not run backwards, a hit is extended by a positive amount exactly when
  \<^verbatim>\<open>ShouldInvalidateFeed\<close> is false at the reading \<^verbatim>\<open>ClassifyVisit\<close>
  hands it.
\<close>

lemma extension_iff_not_invalidated:
  assumes "\<And>t. last_seen = Some t \<Longrightarrow> t \<le> now" and "now \<le> now'"
  shows "0 < ExtendFeedTtlOnHit (ClassifyVisit now now' last_seen) \<longleftrightarrow>
    \<not> ShouldInvalidateFeed now' last_seen"
proof (cases last_seen)
  case None
  then show ?thesis by simp
next
  case (Some t)
  then have "utc_day now = utc_day t \<or> utc_day now = utc_day t + 1" if "now' < t + ns_per_day"
    using assms that by (intro utc_day_step) auto
  with Some show ?thesis
    by (cases "t + ns_per_day \<le> now'")
      (auto simp: ClassifyVisit_def IsSameUtcDay_def IsPreviousUtcDay_def ttl_consts)
qed


text \<open>
  When the system clock is set back between two visits the two rules disagree: the feed
  of a user last seen on a later UTC day is not dropped, and yet the visit counts as a new
  session, so the hit is not extended.
\<close>

lemma clock_set_back:
  assumes "utc_day now < utc_day t" and "now' < t + ns_of_secs kStaleAfterNoVisit"
  shows "\<not> ShouldInvalidateFeed now' (Some t) \<and> ClassifyVisit now now' (Some t) = StaleNewSession"
  using assms
  by (auto simp: ClassifyVisit_def ns_per_day_stale IsSameUtcDay_def IsPreviousUtcDay_def)


end
