(* ===== verification/Redis_Data.thy ===== *)
theory Redis_Data
  imports Redis_Server Redis_Keyspace Json_Codec Ttl_Policy
begin

text \<open>
  The Redis back end, \<^verbatim>\<open>src/infra/redis_rhythm_data.hpp\<close> and
  \<^verbatim>\<open>redis_rhythm_data.cpp\<close>: feed, side caches, idempotency tokens and the visit
  ledger as strings under the keys of \<open>Redis_Keyspace\<close>. Each method is the sequence
  of commands it sends.
\<close>

subsection \<open>The component\<close>

record 'w redis_rhythm_data =
  rr_client :: "'w redis_client"
  rr_visit_last_ttl :: secs
  rr_json :: json_lib

definition default_visit_ledger_ttl :: secs where
  "default_visit_ledger_ttl = 7776000"

subsection \<open>Feed\<close>

definition redis_TryGetFeed :: "'w redis_rhythm_data \<Rightarrow> string \<Rightarrow> (feed_entry option, 'w) prog" where
  "redis_TryGetFeed R user_id =
     (let key = FeedKey user_id
      in bindE (r_Get (rr_client R) key) (\<lambda>raw.
         case raw of
           None \<Rightarrow> ret None
         | Some raw \<Rightarrow>
             (case JsonToIds (rr_json R) raw of
                None \<Rightarrow> bindE (r_Del (rr_client R) key) (\<lambda>_. ret None)
              | Some ids \<Rightarrow>
                  bindE (r_Ttl (rr_client R) key) (\<lambda>ttl_rep.
                  case ttl_rep of
                    TtlNoKey \<Rightarrow> ret None
                  | TtlNoExpiration \<Rightarrow> ret (Some \<lparr>product_ids = ids, ttl_remaining = 0\<rparr>)
                  | TtlExpire s \<Rightarrow> ret (Some \<lparr>product_ids = ids, ttl_remaining = s\<rparr>)))))"

definition redis_PutFeed :: "'w redis_rhythm_data \<Rightarrow> string \<Rightarrow> int64 list \<Rightarrow> secs \<Rightarrow> (unit, 'w) prog" where
  "redis_PutFeed R user_id ids ttl =
     (let key = FeedKey user_id in r_Setex (rr_client R) key ttl (IdsToJson (rr_json R) ids))"

definition redis_TouchFeed :: "'w redis_rhythm_data \<Rightarrow> string \<Rightarrow> secs \<Rightarrow> (unit, 'w) prog" where
  "redis_TouchFeed R user_id extend_by =
     (if extend_by \<le> 0 then ret ()
      else
        let key = FeedKey user_id
        in bindE (r_Ttl (rr_client R) key) (\<lambda>ttl_rep.
           case ttl_rep of
             TtlExpire s \<Rightarrow> r_Expire (rr_client R) key (s + extend_by)
           | _ \<Rightarrow> ret ()))"

definition redis_DropFeed :: "'w redis_rhythm_data \<Rightarrow> string \<Rightarrow> (unit, 'w) prog" where
  "redis_DropFeed R user_id = r_Del (rr_client R) (FeedKey user_id)"

subsection \<open>Side caches\<close>

text \<open>\<open>TryGetGptRanked\<close>, \<open>TryGetSimilar\<close> and \<open>TryGetPopularGlobal\<close> share this body.\<close>

definition redis_get_ids :: "'w redis_rhythm_data \<Rightarrow> string \<Rightarrow> (int64 list option, 'w) prog" where
  "redis_get_ids R key =
     bindE (r_Get (rr_client R) key) (\<lambda>raw.
     case raw of
       None \<Rightarrow> ret None
     | Some raw \<Rightarrow>
         (case JsonToIds (rr_json R) raw of
            None \<Rightarrow> bindE (r_Del (rr_client R) key) (\<lambda>_. ret None)
          | Some ids \<Rightarrow> ret (Some ids)))"

definition redis_TryGetGptRanked :: "'w redis_rhythm_data \<Rightarrow> string \<Rightarrow> (int64 list option, 'w) prog" where
  "redis_TryGetGptRanked R user_id = redis_get_ids R (GptRankKey user_id)"

definition redis_PutGptRanked :: "'w redis_rhythm_data \<Rightarrow> string \<Rightarrow> int64 list \<Rightarrow> secs \<Rightarrow> (unit, 'w) prog" where
  "redis_PutGptRanked R user_id ids ttl =
     r_Setex (rr_client R) (GptRankKey user_id) ttl (IdsToJson (rr_json R) ids)"

definition redis_TryGetSimilar :: "'w redis_rhythm_data \<Rightarrow> int64 \<Rightarrow> (int64 list option, 'w) prog" where
  "redis_TryGetSimilar R anchor = redis_get_ids R (SimilarKey anchor)"

definition redis_PutSimilar :: "'w redis_rhythm_data \<Rightarrow> int64 \<Rightarrow> int64 list \<Rightarrow> secs \<Rightarrow> (unit, 'w) prog" where
  "redis_PutSimilar R anchor ids ttl =
     r_Setex (rr_client R) (SimilarKey anchor) ttl (IdsToJson (rr_json R) ids)"

definition redis_TryGetPopularGlobal :: "'w redis_rhythm_data \<Rightarrow> (int64 list option, 'w) prog" where
  "redis_TryGetPopularGlobal R = redis_get_ids R PopularGlobalKey"

definition redis_PutPopularGlobal :: "'w redis_rhythm_data \<Rightarrow> int64 list \<Rightarrow> secs \<Rightarrow> (unit, 'w) prog" where
  "redis_PutPopularGlobal R ids ttl =
     r_Setex (rr_client R) PopularGlobalKey ttl (IdsToJson (rr_json R) ids)"

definition redis_InvalidateUserDerived :: "'w redis_rhythm_data \<Rightarrow> string \<Rightarrow> (unit, 'w) prog" where
  "redis_InvalidateUserDerived R user_id = r_Del (rr_client R) (GptRankKey user_id)"

definition redis_InvalidateAfterUserAction :: "'w redis_rhythm_data \<Rightarrow> string \<Rightarrow> (unit, 'w) prog" where
  "redis_InvalidateAfterUserAction R user_id =
     bindE (redis_DropFeed R user_id) (\<lambda>_.
     bindE (redis_InvalidateUserDerived R user_id) (\<lambda>_.
     r_Del (rr_client R) (VisitLastKey user_id)))"

subsection \<open>Idempotency and visits\<close>

definition redis_TryReserve :: "'w redis_rhythm_data \<Rightarrow> string \<Rightarrow> secs \<Rightarrow> (bool, 'w) prog" where
  "redis_TryReserve R token ttl =
     (let key = IdempotencyKey token; ms = ttl * 1000
      in r_SetIfNotExist (rr_client R) key ''1'' ms)"

text \<open>
  The deletion of a negative value stands inside the \<^verbatim>\<open>try\<close>: when it throws, the handler deletes
  once more. Every exception of the model is a \<^verbatim>\<open>std::exception\<close>. The conversion from
  milliseconds to the clock's nanoseconds multiplies in 64 bits: it wraps here, where the overflow of
  a value beyond the year 2262 is undefined in C++.
\<close>

definition redis_LastSeenUtc :: "'w redis_rhythm_data \<Rightarrow> string \<Rightarrow> (time option, 'w) prog" where
  "redis_LastSeenUtc R user_id =
     (let key = VisitLastKey user_id
      in bindE (r_Get (rr_client R) key) (\<lambda>raw.
         case raw of
           None \<Rightarrow> ret None
         | Some raw \<Rightarrow>
             if raw = [] then ret None
             else
               try_catch
                 (bindE (pure_prog (stoll raw)) (\<lambda>ms_count.
                    if sint ms_count < 0 then bindE (r_Del (rr_client R) key) (\<lambda>_. ret None)
                    else ret (Some (sint (ms_count * of_int ns_per_ms)))))
                 (\<lambda>_. bindE (r_Del (rr_client R) key) (\<lambda>_. ret None))))"

text \<open>\<^verbatim>\<open>duration_cast\<close> truncates towards zero.\<close>

definition ms_of_time :: "time \<Rightarrow> int" where
  "ms_of_time t = (if 0 \<le> t then t div ns_per_ms else - (- t div ns_per_ms))"

definition redis_MarkSeenUtc ::
  "'x clocks_scheme redis_rhythm_data \<Rightarrow> string \<Rightarrow> (unit, 'x clocks_scheme) prog" where
  "redis_MarkSeenUtc R user_id =
     (let key = VisitLastKey user_id
      in bindE sys_now (\<lambda>now.
         let ms = ms_of_time now
         in r_Setex (rr_client R) key (rr_visit_last_ttl R) (int_to_string ms)))"

lemmas redis_defs = redis_TryGetFeed_def redis_PutFeed_def redis_TouchFeed_def redis_DropFeed_def
  redis_get_ids_def redis_TryGetGptRanked_def redis_PutGptRanked_def redis_TryGetSimilar_def
  redis_PutSimilar_def redis_TryGetPopularGlobal_def redis_PutPopularGlobal_def
  redis_InvalidateUserDerived_def redis_InvalidateAfterUserAction_def redis_TryReserve_def
  redis_LastSeenUtc_def redis_MarkSeenUtc_def

declare redis_defs [op_defs]

subsection \<open>The ports, as the service sees them\<close>

definition redis_cache_port :: "'w redis_rhythm_data \<Rightarrow> 'w cache_port" where
  "redis_cache_port R = \<lparr>TryGetFeed = redis_TryGetFeed R, PutFeed = redis_PutFeed R,
     TouchFeed = redis_TouchFeed R, DropFeed = redis_DropFeed R\<rparr>"

definition redis_side_port :: "'w redis_rhythm_data \<Rightarrow> 'w side_port" where
  "redis_side_port R =
     \<lparr>TryGetGptRanked = redis_TryGetGptRanked R, PutGptRanked = redis_PutGptRanked R,
      TryGetSimilar = redis_TryGetSimilar R, PutSimilar = redis_PutSimilar R,
      TryGetPopularGlobal = redis_TryGetPopularGlobal R,
      PutPopularGlobal = redis_PutPopularGlobal R,
      InvalidateUserDerived = redis_InvalidateUserDerived R\<rparr>"

definition redis_idempotency_port :: "'w redis_rhythm_data \<Rightarrow> 'w idempotency_port" where
  "redis_idempotency_port R = \<lparr>TryReserve = redis_TryReserve R\<rparr>"

definition redis_visit_port :: "'x clocks_scheme redis_rhythm_data \<Rightarrow> 'x clocks_scheme visit_port" where
  "redis_visit_port R = \<lparr>LastSeenUtc = redis_LastSeenUtc R, MarkSeenUtc = redis_MarkSeenUtc R\<rparr>"

subsection \<open>What the methods do to the store\<close>

text \<open>
  Lemmas under the laws of the server: when a method returns, what it answered and what the
  store holds then.
\<close>

context redis_server
begin

lemmas laws = get_law setex_law del_law ttl_law expire_law setnx_law

lemma del_store: "r_Del c k w = (Inr (), w') \<Longrightarrow> srv w \<le> srv w' \<and> store w' = (store w)(k := None)"
  using del_law [of k w "Inr ()" w'] by auto

lemma setex_store:
  "0 < ttl \<Longrightarrow> r_Setex c k ttl v w = (Inr (), w') \<Longrightarrow>
    srv w \<le> srv w' \<and> store w' = (store w)(k \<mapsto> (v, Some (srv w' + ns_of_secs ttl)))"
  using setex_law [of ttl k v w "Inr ()" w'] by auto

lemma get_feed_hit:
  assumes "rr_client R = c" and "redis_TryGetFeed R u w = (Inr r, w')"
    and "store w (FeedKey u) = Some (raw, Some d)" and "JsonToIds (rr_json R) raw = Some ids"
    and "srv w' < d"
  shows "\<exists>s. r = Some \<lparr>product_ids = ids, ttl_remaining = s\<rparr> \<and>
    \<bar>ns_of_secs s - (d - srv w')\<bar> \<le> ns_per_sec \<and> store w' = store w"
proof -
  from assms(1,2) obtain v w1 where v: "r_Get c (FeedKey u) w = (Inr v, w1)"
    and rest: "(case v of None \<Rightarrow> ret None
         | Some raw \<Rightarrow>
             (case JsonToIds (rr_json R) raw of
                None \<Rightarrow> bindE (r_Del c (FeedKey u)) (\<lambda>_. ret None)
              | Some ids \<Rightarrow>
                  bindE (r_Ttl c (FeedKey u)) (\<lambda>ttl_rep.
                  case ttl_rep of
                    TtlNoKey \<Rightarrow> ret None
                  | TtlNoExpiration \<Rightarrow> ret (Some \<lparr>product_ids = ids, ttl_remaining = 0\<rparr>)
                  | TtlExpire s \<Rightarrow> ret (Some \<lparr>product_ids = ids, ttl_remaining = s\<rparr>)))) w1 = (Inr r, w')"
    by (auto simp: redis_TryGetFeed_def Let_def elim!: bindE_InrE)
  note g = get_law [OF v]
  show ?thesis
  proof (cases "srv w1 < d")
    case True
    with g assms(3) have "v = Some raw" by simp
    with rest assms(4) obtain t where t: "r_Ttl c (FeedKey u) w1 = (Inr t, w')"
      and r: "r = (case t of TtlNoKey \<Rightarrow> None
        | TtlNoExpiration \<Rightarrow> Some \<lparr>product_ids = ids, ttl_remaining = 0\<rparr>
        | TtlExpire s \<Rightarrow> Some \<lparr>product_ids = ids, ttl_remaining = s\<rparr>)"
      by (auto elim!: bindE_InrE split: ttl_reply.splits)
    from ttl_law [OF t] g assms(3,5) r show ?thesis
      by (cases t) auto
  next
    case False
    with g assms(3) have "v = None" by simp
    with rest g assms(5) False show ?thesis by simp
  qed
qed

lemma get_feed_corrupt:
  assumes "rr_client R = c" and "redis_TryGetFeed R u w = (Inr r, w')"
    and "\<And>raw d. store w (FeedKey u) = Some (raw, d) \<Longrightarrow> JsonToIds (rr_json R) raw = None"
  shows "r = None \<and> (store w' = store w \<and> visible (srv w') (store w (FeedKey u)) = None \<or>
    store w' = (store w)(FeedKey u := None))"
proof -
  from assms(1,2) obtain v w1 where v: "r_Get c (FeedKey u) w = (Inr v, w1)"
    by (auto simp: redis_TryGetFeed_def Let_def elim!: bindE_InrE)
  note g = get_law [OF v]
  show ?thesis
  proof (cases v)
    case None
    with assms(1,2) v g show ?thesis by (simp add: redis_TryGetFeed_def Let_def)
  next
    case (Some raw)
    with g obtain d where "store w (FeedKey u) = Some (raw, d)"
      by (auto simp: visible_def split: option.splits if_splits)
    then have "JsonToIds (rr_json R) raw = None" by (rule assms(3))
    with Some assms(1,2) v have "bindE (r_Del c (FeedKey u)) (\<lambda>_. ret None) w1 = (Inr r, w')"
      by (simp add: redis_TryGetFeed_def Let_def)
    then obtain w2 where "r_Del c (FeedKey u) w1 = (Inr (), w2)" "r = None" "w' = w2"
      by (auto elim!: bindE_InrE)
    with del_store g show ?thesis by auto
  qed
qed

lemma invalidate_store:
  assumes "rr_client R = c" and "redis_InvalidateAfterUserAction R u w = (Inr (), w')"
  shows "store w' = (store w)(FeedKey u := None, GptRankKey u := None, VisitLastKey u := None)"
proof -
  from assms obtain w1 w2 where "r_Del c (FeedKey u) w = (Inr (), w1)"
    "r_Del c (GptRankKey u) w1 = (Inr (), w2)" "r_Del c (VisitLastKey u) w2 = (Inr (), w')"
    by (auto simp: redis_InvalidateAfterUserAction_def redis_DropFeed_def
        redis_InvalidateUserDerived_def elim!: bindE_InrE)
  then show ?thesis by (auto dest!: del_store)
qed

lemma reserve_store:
  assumes "rr_client R = c" and "0 < ttl" and "redis_TryReserve R tok ttl w = (Inr b, w')"
  shows "(b \<longleftrightarrow> visible (srv w') (store w (IdempotencyKey tok)) = None) \<and> srv w \<le> srv w' \<and>
    store w' = (if b then (store w)(IdempotencyKey tok \<mapsto> (''1'', Some (srv w' + ns_of_secs ttl)))
                else store w)"
  using assms setnx_law [of "ttl * 1000" "IdempotencyKey tok" "''1''" w "Inr b" w']
  by (auto simp: redis_TryReserve_def ns_per_ms_secs)

end

subsection \<open>A world for the examples\<close>

definition frozen :: "time \<Rightarrow> clock" where
  "frozen t = \<lparr>readings = (\<lambda>_. t), pos = 0\<rparr>"

definition redis_world0 :: redis_world where
  "redis_world0 = \<lparr>sys_clk = frozen 5000000, steady_clk = frozen 0, kv = Map.empty,
     srv_clk = frozen 0, faults = (\<lambda>_. No_fault), commands = 0\<rparr>"

definition redis_data0 :: "redis_world redis_rhythm_data" where
  "redis_data0 = \<lparr>rr_client = ref_redis, rr_visit_last_ttl = default_visit_ledger_ttl,
     rr_json = ref_json\<rparr>"

lemma frozen_simps [simp]: "readings (frozen t) = (\<lambda>_. t)" "pos (frozen t) = 0"
  by (simp_all add: frozen_def)

text \<open>The world after some commands without faults: only the store and the counters differ.\<close>

definition redis_at :: "(string \<Rightarrow> cell) \<Rightarrow> nat \<Rightarrow> nat \<Rightarrow> redis_world" where
  "redis_at m n i = redis_world0\<lparr>kv := m, srv_clk := \<lparr>readings = (\<lambda>_. 0), pos = n\<rparr>, commands := n,
     sys_clk := \<lparr>readings = (\<lambda>_. 5000000), pos = i\<rparr>\<rparr>"

lemma srv_time_redis_at [simp]: "srv_time (redis_at m n i) = 0"
  by (simp add: srv_time_def redis_at_def image_constant_conv)

lemma kv_redis_at [simp]: "kv (redis_at m n i) = m"
  by (simp add: redis_at_def)

lemma redis_world0_at: "redis_world0 = redis_at Map.empty 0 0"
  by (simp add: redis_at_def redis_world0_def frozen_def)

lemma command_redis_at [simp]:
  "command f (redis_at m n i) = (Inr (fst (f 0 m)), redis_at (snd (f 0 m)) (Suc n) i)"
  by (simp add: command_def redis_at_def redis_world0_def tick_def srv_time_def
      image_constant_conv case_prod_beta Let_def)

lemma sys_now_redis_at [simp]: "sys_now (redis_at m n i) = (Inr 5000000, redis_at m n (Suc i))"
  by (simp add: redis_at_def redis_world0_def sys_now_def peek_def tick_def)

lemma redis_at_cong: "(\<And>k. m k = m' k) \<Longrightarrow> redis_at m n i = redis_at m' n i"
  by (metis ext)

lemma sys_clk_redis_at [simp]:
  "peek (sys_clk (redis_at m n i)) = 5000000"
  "(redis_at m n i)\<lparr>sys_clk := tick (sys_clk (redis_at m n i))\<rparr> = redis_at m n (Suc i)"
  by (simp_all add: redis_at_def redis_world0_def peek_def tick_def)

lemmas redis_run = redis_defs redis_data0_def ref_redis_def JsonToIds_IdsToJson
  redis_world0_at ref_ttl_def

subsection \<open>Properties\<close>

text \<open>
  C20. A feed put into Redis comes back as it was: if the library reads back the list it
  printed, a get that returns before the deadline answers exactly the ids that were put, and
  the remaining time it reports is right to a second. The key may expire between the GET and
  the TTL of one call; the call then answers nothing.
\<close>

theorem redis_feed_roundtrip:
  assumes "redis_server (rr_client R) store srv" and "codec_ok (rr_json R) (ids_json ids)"
    and "0 < ttl" and "redis_PutFeed R u ids ttl w = (Inr (), w1)"
    and "redis_TryGetFeed R u w1 = (Inr r, w2)" and "srv w2 < srv w1 + ns_of_secs ttl"
  shows "\<exists>s. r = Some \<lparr>product_ids = ids, ttl_remaining = s\<rparr> \<and>
    \<bar>ns_of_secs s - (srv w1 + ns_of_secs ttl - srv w2)\<bar> \<le> ns_per_sec"
proof -
  from assms(4) have "r_Setex (rr_client R) (FeedKey u) ttl (IdsToJson (rr_json R) ids) w = (Inr (), w1)"
    by (simp add: redis_PutFeed_def Let_def)
  from redis_server.setex_store [OF assms(1,3) this]
  have "store w1 (FeedKey u) = Some (IdsToJson (rr_json R) ids, Some (srv w1 + ns_of_secs ttl))"
    by simp
  from redis_server.get_feed_hit [OF assms(1) refl assms(5) this JsonToIds_IdsToJson [OF assms(2)] assms(6)]
  show ?thesis by blast
qed

theorem redis_feed_roundtrip_witness:
  "\<exists>w1 w2 s. redis_PutFeed redis_data0 ''u'' [7, 8] 60 redis_world0 = (Inr (), w1) \<and>
    redis_TryGetFeed redis_data0 ''u'' w1 = (Inr (Some \<lparr>product_ids = [7, 8], ttl_remaining = s\<rparr>), w2) \<and>
    \<bar>ns_of_secs s - (srv_time w1 + ns_of_secs 60 - srv_time w2)\<bar> \<le> ns_per_sec"
proof -
  let ?m = "[FeedKey ''u'' \<mapsto> (IdsToJson ref_json [7, 8], Some (ns_of_secs 60))]"
  have a: "redis_PutFeed redis_data0 ''u'' [7, 8] 60 redis_world0 = (Inr (), redis_at ?m (Suc 0) 0)"
    and b: "redis_TryGetFeed redis_data0 ''u'' (redis_at ?m (Suc 0) 0) =
      (Inr (Some \<lparr>product_ids = [7, 8], ttl_remaining = 60\<rparr>), redis_at ?m (Suc (Suc (Suc 0))) 0)"
    by (simp_all add: redis_run ns_of_secs_def ns_per_sec_def Let_def bindE_def)
  from redis_feed_roundtrip [where store = kv and srv = srv_time, OF _ _ _ a b]
  show ?thesis
    by (intro exI [of _ "redis_at ?m (Suc 0) 0"] exI [of _ "redis_at ?m (Suc (Suc (Suc 0))) 0"] exI [of _ 60])
      (simp add: a b, simp add: redis_data0_def ref_redis.redis_server_axioms)
qed

text \<open>
  C21. When the invalidation after a user's action returns, the user's feed, ranking and last
  visit are gone, each later read answers nothing, and no other key of the store has changed.
\<close>

theorem redis_invalidate_after_action:
  assumes "redis_server (rr_client R) store srv"
    and "redis_InvalidateAfterUserAction R u w = (Inr (), w1)"
    and "redis_TryGetFeed R u w1 = (Inr f, w2)"
    and "redis_TryGetGptRanked R u w1 = (Inr g, w3)"
    and "redis_LastSeenUtc R u w1 = (Inr l, w4)"
  shows "f = None \<and> g = None \<and> l = None \<and>
    (\<forall>k. k \<notin> {FeedKey u, GptRankKey u, VisitLastKey u} \<longrightarrow> store w1 k = store w k)"
proof -
  note st = redis_server.invalidate_store [OF assms(1) refl assms(2)]
  have get_none: "v = None" if "r_Get (rr_client R) k w1 = (Inr v, w')"
    and "k \<in> {FeedKey u, GptRankKey u, VisitLastKey u}" for k v w'
    using redis_server.get_law [OF assms(1) that(1)] st that(2) by auto
  have "f = None"
    using redis_server.get_feed_corrupt [OF assms(1) refl assms(3)] st by simp
  moreover have "g = None" and "l = None"
    using assms(4,5)
    by (auto simp: redis_TryGetGptRanked_def redis_get_ids_def redis_LastSeenUtc_def Let_def
        elim!: bindE_InrE dest!: get_none)
  ultimately show ?thesis by (simp add: st)
qed

theorem redis_invalidate_after_action_witness:
  "\<exists>w1 w2. redis_InvalidateAfterUserAction redis_data0 ''u''
      (redis_at [FeedKey ''u'' \<mapsto> (''x'', None), FeedKey ''v'' \<mapsto> (''y'', None)] 0 0) = (Inr (), w1) \<and>
    redis_TryGetFeed redis_data0 ''u'' w1 = (Inr None, w2) \<and> kv w1 (FeedKey ''v'') = Some (''y'', None)"
proof -
  let ?m = "[FeedKey ''u'' \<mapsto> (''x'', None), FeedKey ''v'' \<mapsto> (''y'', None)]"
  let ?w = "redis_at [FeedKey ''v'' \<mapsto> (''y'', None)] (Suc (Suc (Suc 0))) 0"
  let ?w' = "redis_at [FeedKey ''v'' \<mapsto> (''y'', None)] (Suc (Suc (Suc (Suc 0)))) 0"
  have k: "FeedKey ''u'' \<noteq> FeedKey ''v''" "GptRankKey ''u'' \<noteq> FeedKey ''v''" "VisitLastKey ''u'' \<noteq> FeedKey ''v''"
    by (simp_all add: key_defs)
  have m: "?m(FeedKey ''u'' := None, GptRankKey ''u'' := None, VisitLastKey ''u'' := None) = [FeedKey ''v'' \<mapsto> (''y'', None)]"
    using k by (auto simp: fun_eq_iff key_defs)
  have a: "redis_InvalidateAfterUserAction redis_data0 ''u'' (redis_at ?m 0 0) = (Inr (), ?w)"
    using m by (simp add: redis_run bindE_def)
  have b: "redis_TryGetFeed redis_data0 ''u'' ?w = (Inr None, ?w')"
    and c: "redis_TryGetGptRanked redis_data0 ''u'' ?w = (Inr None, ?w')"
    and d: "redis_LastSeenUtc redis_data0 ''u'' ?w = (Inr None, ?w')"
    using k by (simp_all add: redis_run Let_def bindE_def)
  from redis_invalidate_after_action [where store = kv and srv = srv_time, OF _ a b c d] k
  have "kv ?w (FeedKey ''v'') = kv (redis_at ?m 0 0) (FeedKey ''v'')"
    by (simp add: redis_data0_def ref_redis.redis_server_axioms)
  with a b k show ?thesis by (intro exI [of _ ?w] exI [of _ ?w']) simp
qed

text \<open>The text of a visit reads back as its millisecond, and as the instant at its start.\<close>

lemma visit_text:
  assumes "0 \<le> t" and "t < 2 ^ 63"
  shows "int_to_string (t div ns_per_ms) \<noteq> []" and "stoll (int_to_string (t div ns_per_ms)) = Inr (word_of_int (t div ns_per_ms))"
    and "sint (word_of_int (t div ns_per_ms) :: int64) = t div ns_per_ms"
    and "sint (word_of_int (t div ns_per_ms) * word_of_int ns_per_ms :: int64) = t div ns_per_ms * ns_per_ms"
proof -
  have ms: "0 \<le> t div ns_per_ms" "t div ns_per_ms < 2 ^ 63"
    using assms by (auto simp: ns_per_ms_def pos_imp_zdiv_nonneg_iff)
  show "int_to_string (t div ns_per_ms) \<noteq> []" by (simp add: int_to_string_def)
  show "stoll (int_to_string (t div ns_per_ms)) = Inr (word_of_int (t div ns_per_ms))"
    using stoll_int_to_string_append [of "t div ns_per_ms" "[]"] ms by simp
  show "sint (word_of_int (t div ns_per_ms) :: int64) = t div ns_per_ms"
    using ms by (intro sint_word_of_int_i64) simp_all
  have "t div ns_per_ms * ns_per_ms \<le> t" by (simp add: ns_per_ms_def)
  with assms(2) ms(1) show "sint (word_of_int (t div ns_per_ms) * word_of_int ns_per_ms :: int64) = t div ns_per_ms * ns_per_ms"
    unfolding of_int_mult [symmetric] by (intro sint_word_of_int_i64) (simp_all add: ns_per_ms_def)
qed

text \<open>
  C22. A visit marked in Redis is read back rounded down to the millisecond, as long as the
  ledger's time-to-live has not passed on the server.
\<close>

theorem redis_visit_roundtrip:
  assumes "redis_server (rr_client R) store srv" and "0 < rr_visit_last_ttl R"
    and "0 \<le> peek (sys_clk w)" and "peek (sys_clk w) < 2 ^ 63"
    and "redis_MarkSeenUtc R u w = (Inr (), w1)" and "redis_LastSeenUtc R u w1 = (Inr r, w2)"
    and "srv w2 < srv w1 + ns_of_secs (rr_visit_last_ttl R)"
  shows "r = Some (peek (sys_clk w) div ns_per_ms * ns_per_ms)"
proof -
  let ?ms = "peek (sys_clk w) div ns_per_ms"
  note vt = visit_text [OF assms(3,4)]
  have ms: "0 \<le> ?ms" using assms(3) by (simp add: ns_per_ms_def pos_imp_zdiv_nonneg_iff)
  have "r_Setex (rr_client R) (VisitLastKey u) (rr_visit_last_ttl R) (int_to_string ?ms)
      (w\<lparr>sys_clk := tick (sys_clk w)\<rparr>) = (Inr (), w1)"
    using assms(3,5) by (simp add: redis_MarkSeenUtc_def ms_of_time_def Let_def)
  from redis_server.setex_store [OF assms(1,2) this]
  have st: "store w1 (VisitLastKey u) =
      Some (int_to_string ?ms, Some (srv w1 + ns_of_secs (rr_visit_last_ttl R)))" by simp
  from assms(6) obtain v w3 where v: "r_Get (rr_client R) (VisitLastKey u) w1 = (Inr v, w3)"
    by (auto simp: redis_LastSeenUtc_def Let_def elim!: bindE_InrE)
  have "v = Some (int_to_string ?ms)"
    using redis_server.get_law [OF assms(1) v] st assms(7) v assms(6)
    by (auto simp: redis_LastSeenUtc_def Let_def split: if_splits)
  with assms(6) v ms vt show ?thesis by (simp add: redis_LastSeenUtc_def Let_def)
qed

theorem redis_visit_roundtrip_witness:
  "\<exists>w1 w2 r. redis_MarkSeenUtc redis_data0 ''u'' redis_world0 = (Inr (), w1) \<and>
    redis_LastSeenUtc redis_data0 ''u'' w1 = (Inr r, w2) \<and>
    r = Some (peek (sys_clk redis_world0) div ns_per_ms * ns_per_ms)"
proof -
  let ?m = "[VisitLastKey ''u'' \<mapsto> (int_to_string 5, Some (ns_of_secs default_visit_ledger_ttl))]"
  have s: "stoll (int_to_string 5) = Inr 5" "int_to_string 5 \<noteq> []"
    using stoll_int_to_string_append [of 5 "[]"] by (simp_all add: int_to_string_def)
  have a: "redis_MarkSeenUtc redis_data0 ''u'' redis_world0 = (Inr (), redis_at ?m (Suc 0) (Suc 0))"
    and b: "redis_LastSeenUtc redis_data0 ''u'' (redis_at ?m (Suc 0) (Suc 0)) =
      (Inr (Some 5000000), redis_at ?m (Suc (Suc 0)) (Suc 0))"
    by (simp_all add: redis_run s ms_of_time_def ns_per_ms_def default_visit_ledger_ttl_def
        ns_of_secs_def ns_per_sec_def Let_def bindE_def)
  from redis_visit_roundtrip [where store = kv and srv = srv_time, OF _ _ _ _ a b]
  have "Some 5000000 = Some (peek (sys_clk redis_world0) div ns_per_ms * ns_per_ms)"
    by (simp add: redis_data0_def redis_world0_at ref_redis.redis_server_axioms
        default_visit_ledger_ttl_def ns_per_ms_def ns_of_secs_def ns_per_sec_def)
  with a b show ?thesis by blast
qed

text \<open>
  C35. The token of a client and the keys of a user are not kept apart: after the token
  \<^verbatim>\<open>feed\<close> has been granted, a single read of the feed of the user
  \<^verbatim>\<open>idempotency\<close> takes the stored token for a corrupt feed, deletes it, and the
  same token is granted again within its time-to-live.
\<close>

theorem redis_token_lost_to_feed_read:
  assumes "redis_server (rr_client R) store srv" and "JsonToIds (rr_json R) ''1'' = None"
    and "0 < ttl" and "redis_TryReserve R ''feed'' ttl w = (Inr True, w1)"
    and "redis_TryGetFeed R ''idempotency'' w1 = (Inr f, w2)"
    and "redis_TryReserve R ''feed'' ttl w2 = (Inr b, w3)"
  shows "f = None \<and> b"
proof -
  have key: "FeedKey ''idempotency'' = IdempotencyKey ''feed''"
    by (simp add: key_defs)
  note r1 = redis_server.reserve_store [OF assms(1) refl assms(3,4)]
  have "f = None \<and> (store w2 = store w1 \<and> visible (srv w2) (store w1 (FeedKey ''idempotency'')) = None \<or>
      store w2 = (store w1)(FeedKey ''idempotency'' := None))"
    using r1 assms(2) by (intro redis_server.get_feed_corrupt [OF assms(1) refl assms(5)]) (simp add: key)
  moreover have "b \<longleftrightarrow> visible (srv w3) (store w2 (IdempotencyKey ''feed'')) = None" and "srv w2 \<le> srv w3"
    using redis_server.reserve_store [OF assms(1) refl assms(3,6)] by simp_all
  ultimately show ?thesis using r1 by (auto simp: key split: if_splits)
qed


theorem redis_token_lost_to_feed_read_witness:
  "\<exists>w1 w2 w3. redis_TryReserve redis_data0 ''feed'' kIdempotencyHold redis_world0 = (Inr True, w1) \<and>
    redis_TryGetFeed redis_data0 ''idempotency'' w1 = (Inr None, w2) \<and>
    redis_TryReserve redis_data0 ''feed'' kIdempotencyHold w2 = (Inr True, w3)"
proof -
  let ?m = "[IdempotencyKey ''feed'' \<mapsto> (''1'', Some (ns_of_secs kIdempotencyHold))]"
  have key: "FeedKey ''idempotency'' = IdempotencyKey ''feed''" by (simp add: key_defs)
  have one: "JsonToIds ref_json ''1'' = None"
    by (simp add: JsonToIds_def ref_json_def)
  have a: "redis_TryReserve redis_data0 ''feed'' kIdempotencyHold redis_world0 = (Inr True, redis_at ?m (Suc 0) 0)"
    by (simp add: redis_run Let_def ns_per_ms_secs)
  obtain f w2 where b: "redis_TryGetFeed redis_data0 ''idempotency'' (redis_at ?m (Suc 0) 0) = (Inr f, w2)"
    and w2: "w2 = redis_at Map.empty (Suc (Suc (Suc 0))) 0"
    by (simp add: redis_run Let_def bindE_def key one)
  obtain r w3 where c: "redis_TryReserve redis_data0 ''feed'' kIdempotencyHold w2 = (Inr r, w3)"
    unfolding w2 by (simp add: redis_run Let_def ns_per_ms_secs)
  have "redis_server (rr_client redis_data0) kv srv_time" "JsonToIds (rr_json redis_data0) ''1'' = None"
    by (simp_all add: redis_data0_def ref_redis.redis_server_axioms one)
  from redis_token_lost_to_feed_read [OF this _ a b c] a b c show ?thesis
    by (auto simp: kIdempotencyHold_def)
qed

end
