(* ===== verification/Pg_Server.thy ===== *)
theory Pg_Server
  imports Redis_Server "HOL-Library.Multiset"
begin

text \<open>
  The Postgres client that \<^verbatim>\<open>PgRhythmData\<close> and the worker call, over the tables
  of \<^verbatim>\<open>sql/001_products_btree.sql\<close> and \<^verbatim>\<open>sql/002_user_actions.sql\<close>.
  The driver and the server are not part of the repository: the two ways the source executes
  a statement are the fields of \<open>pg_client\<close>, and the locale \<open>pg_server\<close> states
  what is relied on (\<open>db_now\<close> is the server's \<^verbatim>\<open>now()\<close> in the latest
  execution). A statement is given by its meaning, a function of the server's choice
  of plan, its clock and the tables, and is executed with the texts among its parameters: the
  server refuses some texts, such as one with a zero byte or one too long for an index.
\<close>

subsection \<open>Tables\<close>

text \<open>The columns the statements of the source read or write.\<close>

record user_action =
  ua_user_id :: string
  ua_action_type :: string
  ua_product_id :: string
  ua_idempotency_key :: string
  ua_created_at :: time

record product =
  pr_id :: int64
  pr_sku :: string
  pr_title :: string
  pr_category_id :: "int64 option"

record database =
  user_actions :: "user_action list"
  products :: "product list"

text \<open>The unique index \<^verbatim>\<open>user_actions_user_id_idem_uidx\<close>.\<close>

definition action_key :: "user_action \<Rightarrow> string \<times> string" where
  "action_key a = (ua_user_id a, ua_idempotency_key a)"

definition keys_unique :: "database \<Rightarrow> bool" where
  "keys_unique db \<longleftrightarrow> distinct (map action_key (user_actions db))"

subsection \<open>Statements and the client\<close>

datatype sql_value = SqlBigint int64 | SqlText string

type_synonym sql_row = "(string \<times> sql_value) list"

text \<open>
  Where a statement leaves the order of rows open (ties of an ORDER BY, the choice of
  DISTINCT ON among equals) the plan decides: a rearrangement of the scanned rows and one of
  the rows of the sub-select.
\<close>

record pg_plan =
  scan_order :: "(int64 \<times> user_action) list \<Rightarrow> (int64 \<times> user_action) list"
  sub_order :: "(int64 \<times> user_action) list \<Rightarrow> (int64 \<times> user_action) list"

definition valid_plan :: "pg_plan \<Rightarrow> bool" where
  "valid_plan p \<longleftrightarrow> (\<forall>xs. mset (scan_order p xs) = mset xs) \<and> (\<forall>xs. mset (sub_order p xs) = mset xs)"

type_synonym select_stmt = "pg_plan \<Rightarrow> time \<Rightarrow> database \<Rightarrow> exn + sql_row list"
type_synonym insert_stmt = "time \<Rightarrow> database \<Rightarrow> nat \<times> database"

record 'w pg_client =
  pg_select_slave :: "string list \<Rightarrow> select_stmt \<Rightarrow> (sql_row list, 'w) prog"
  pg_insert_master :: "string list \<Rightarrow> insert_stmt \<Rightarrow> (nat, 'w) prog"

text \<open>
  A select that returns, returns the rows of its statement for some plan on what the replica
  holds; an insert that returns has taken effect, one that throws has or has not.
\<close>

locale pg_server =
  fixes c :: "'w pg_client"
    and master :: "'w \<Rightarrow> database"
    and replica :: "'w \<Rightarrow> database"
    and db_now :: "'w \<Rightarrow> time"
  assumes select_law: "pg_select_slave c ts q w = (rq, w') \<Longrightarrow> master w' = master w \<and>
      (\<forall>rows. rq = Inr rows \<longrightarrow>
        (\<exists>plan. valid_plan plan \<and> q plan (db_now w') (replica w') = Inr rows))"
    and insert_law: "pg_insert_master c ts st w = (ri, w') \<Longrightarrow>
      (\<exists>n. ri = Inr n \<and> (n, master w') = st (db_now w') (master w)) \<or>
      (\<exists>e. ri = Inl e) \<and> (master w' = master w \<or> master w' = snd (st (db_now w') (master w)))"
begin

lemma select_rows:
  assumes "pg_select_slave c ts q w = (Inr rows, w')"
  obtains plan where "valid_plan plan" and "q plan (db_now w') (replica w') = Inr rows"
  using select_law [OF assms] by blast

text \<open>An invariant of the tables that a statement keeps, an execution of it keeps.\<close>

lemma insert_keeps:
  assumes "\<And>now. P (snd (st now (master w)))" and "P (master w)" and "pg_insert_master c ts st w = (r, w')"
  shows "P (master w')"
  using insert_law [OF assms(3)] assms(1) [of "db_now w'"] assms(2) by (metis snd_conv)

end

subsection \<open>A reference server\<close>

text \<open>
  One server with a master and a replica. The replica catches up with the master at the
  executions picked by \<open>pg_sync\<close> and scans in the order of insertion; faults are
  injected as for Redis. Parameters that \<open>pg_refuses\<close> picks are refused at every execution.
\<close>

record pg_world = redis_world +
  pg_master :: database
  pg_replica :: database
  pg_sync :: "nat \<Rightarrow> bool"
  pg_clock :: "nat \<Rightarrow> time"
  pg_faults :: "nat \<Rightarrow> fault"
  pg_refuses :: "string list \<Rightarrow> bool"
  pg_count :: nat

definition scan_plan :: pg_plan where
  "scan_plan = \<lparr>scan_order = id, sub_order = id\<rparr>"

lemma valid_scan_plan [simp]: "valid_plan scan_plan"
  by (simp add: valid_plan_def scan_plan_def)

definition refused_text :: exn where
  "refused_text = Library_error ''invalid text parameter''"

definition ref_select :: "string list \<Rightarrow> select_stmt \<Rightarrow> (sql_row list, 'x pg_world_scheme) prog" where
  "ref_select ts q w =
     (let n = pg_count w;
          rep = (if pg_sync w n then pg_master w else pg_replica w);
          w1 = w\<lparr>pg_count := Suc n, pg_replica := rep\<rparr>
      in case pg_faults w n of
           No_fault \<Rightarrow> (if ts \<noteq> [] \<and> pg_refuses w ts then Inl refused_text else q scan_plan (pg_clock w n) rep, w1)
         | Fail_before e \<Rightarrow> (Inl e, w1)
         | Fail_after e \<Rightarrow> (Inl e, w1))"

definition ref_insert :: "string list \<Rightarrow> insert_stmt \<Rightarrow> (nat, 'x pg_world_scheme) prog" where
  "ref_insert ts st w =
     (if pg_refuses w ts then (Inl refused_text, w\<lparr>pg_count := Suc (pg_count w)\<rparr>)
      else let n = pg_count w;
          (k, db) = st (pg_clock w n) (pg_master w);
          w1 = w\<lparr>pg_count := Suc n\<rparr>
      in case pg_faults w n of
           No_fault \<Rightarrow> (Inr k, w1\<lparr>pg_master := db\<rparr>)
         | Fail_before e \<Rightarrow> (Inl e, w1)
         | Fail_after e \<Rightarrow> (Inl e, w1\<lparr>pg_master := db\<rparr>))"

definition ref_pg :: "'x pg_world_scheme pg_client" where
  "ref_pg = \<lparr>pg_select_slave = ref_select, pg_insert_master = ref_insert\<rparr>"

text \<open>The clock of the latest execution.\<close>

definition pg_now :: "'x pg_world_scheme \<Rightarrow> time" where
  "pg_now w = pg_clock w (pg_count w - 1)"

interpretation ref_pg: pg_server ref_pg pg_master pg_replica pg_now
proof
  fix ts and q :: select_stmt and w w' :: "'x pg_world_scheme" and r
  assume "pg_select_slave ref_pg ts q w = (r, w')"
  then show "pg_master w' = pg_master w \<and>
      (\<forall>rows. r = Inr rows \<longrightarrow>
        (\<exists>plan. valid_plan plan \<and> q plan (pg_now w') (pg_replica w') = Inr rows))"
    using valid_scan_plan
    by (auto simp: ref_pg_def ref_select_def pg_now_def Let_def split: fault.splits if_splits
        intro!: exI [of _ scan_plan])
next
  fix ts and st :: insert_stmt and w w' :: "'x pg_world_scheme" and r
  assume "pg_insert_master ref_pg ts st w = (r, w')"
  then show "(\<exists>n. r = Inr n \<and> (n, pg_master w') = st (pg_now w') (pg_master w)) \<or>
        (\<exists>e. r = Inl e) \<and> (pg_master w' = pg_master w \<or> pg_master w' = snd (st (pg_now w') (pg_master w)))"
    by (auto simp: ref_pg_def ref_insert_def pg_now_def Let_def split: fault.splits prod.splits if_splits)
qed

end
