(* ===== verification/Rabbit_Publisher.thy ===== *)
theory Rabbit_Publisher
  imports Pg_Server
begin

text \<open>
  \<^verbatim>\<open>src/infra/rabbitmq_event_publisher.hpp\<close> and
  \<^verbatim>\<open>rabbitmq_event_publisher.cpp\<close>: the publisher's configuration, the topology
  it declares when all components are loaded, and the publication of an event. The AMQP
  client and the broker are not part of the repository: the calls are the fields of
  \<open>rabbit_client\<close>, and the locale \<open>rabbit_broker\<close> states what is relied on.
\<close>

subsection \<open>The client and the broker\<close>

datatype exchange_type = kFanOut | kDirect | kTopic

datatype message_type = kPersistent | kTransient

text \<open>
  Of the flags a declaration may carry only durability matters here. The overloads of
  \<^verbatim>\<open>DeclareExchange\<close> and \<^verbatim>\<open>DeclareQueue\<close> without flags, which are the ones the source
  calls, declare with none: \<open>[]\<close>.
\<close>

datatype declare_flag = kDurable

record 'w rabbit_client =
  DeclareExchange :: "string \<Rightarrow> exchange_type \<Rightarrow> declare_flag list \<Rightarrow> (unit, 'w) prog"
  DeclareQueue :: "string \<Rightarrow> declare_flag list \<Rightarrow> (unit, 'w) prog"
  BindQueue :: "string \<Rightarrow> string \<Rightarrow> string \<Rightarrow> (unit, 'w) prog"
  PublishReliable :: "string \<Rightarrow> string \<Rightarrow> string \<Rightarrow> message_type \<Rightarrow> (unit, 'w) prog"

text \<open>
  What the broker holds: exchanges, queues with the messages waiting in them, each with its type
  and its body, bindings, and which exchanges and queues are durable.
\<close>

record broker =
  exchanges :: "string \<rightharpoonup> exchange_type"
  contents :: "string \<rightharpoonup> (message_type \<times> string) list"
  bindings :: "(string \<times> string \<times> string) set"
  durable_exchanges :: "string set"
  durable_queues :: "string set"

text \<open>The bodies that wait in a queue.\<close>

definition queues :: "broker \<Rightarrow> string \<rightharpoonup> string list" where
  "queues b q = map_option (map snd) (contents b q)"

definition declared_durable :: "declare_flag list \<Rightarrow> string \<Rightarrow> string set \<Rightarrow> string set" where
  "declared_durable flags x D = (if kDurable \<in> set flags then insert x D else D - {x})"

text \<open>
  A message reaches every queue with a binding of its exchange that matches its routing key;
  which keys match is up to the type of the exchange.
\<close>

definition routed :: "(exchange_type \<Rightarrow> string \<Rightarrow> string \<Rightarrow> bool) \<Rightarrow> exchange_type \<Rightarrow> broker \<Rightarrow> string \<Rightarrow> string \<Rightarrow> string \<Rightarrow> bool" where
  "routed matches ty b exch rk q \<longleftrightarrow> (\<exists>(e, q', k) \<in> bindings b. e = exch \<and> q' = q \<and> matches ty k rk)"

definition deliver ::
  "(exchange_type \<Rightarrow> string \<Rightarrow> string \<Rightarrow> bool) \<Rightarrow> exchange_type \<Rightarrow> string \<Rightarrow> string \<Rightarrow> message_type \<Rightarrow> string \<Rightarrow>
    broker \<Rightarrow> broker" where
  "deliver matches ty exch rk mt body b =
     b\<lparr>contents := (\<lambda>q. map_option (\<lambda>ms. if routed matches ty b exch rk q then ms @ [(mt, body)] else ms) (contents b q))\<rparr>"

lemma queues_simps [simp]:
  "queues (b\<lparr>exchanges := x\<rparr>) = queues b" "queues (b\<lparr>bindings := s\<rparr>) = queues b"
  "queues (b\<lparr>durable_exchanges := D\<rparr>) = queues b" "queues (b\<lparr>durable_queues := D\<rparr>) = queues b"
  "queues (b\<lparr>contents := h\<rparr>) q = map_option (map snd) (h q)"
  by (simp_all add: queues_def fun_eq_iff)

lemma queues_deliver [simp]:
  "queues (deliver matches ty exch rk mt body b) q =
    map_option (\<lambda>ms. if routed matches ty b exch rk q then ms @ [body] else ms) (queues b q)"
  by (cases "contents b q") (simp_all add: deliver_def queues_def)

lemma deliver_keeps [simp]:
  "exchanges (deliver matches ty exch rk mt body b) = exchanges b" "bindings (deliver matches ty exch rk mt body b) = bindings b"
  "durable_exchanges (deliver matches ty exch rk mt body b) = durable_exchanges b"
  "durable_queues (deliver matches ty exch rk mt body b) = durable_queues b"
  by (simp_all add: deliver_def)

text \<open>
  A restart of the broker: what is not durable is gone, and of the messages in a durable queue those
  that were not published as persistent.
\<close>

definition broker_restart :: "broker \<Rightarrow> broker" where
  "broker_restart b =
     b\<lparr>exchanges := (\<lambda>x. if x \<in> durable_exchanges b then exchanges b x else None),
       contents := (\<lambda>q. if q \<in> durable_queues b then map_option (filter (\<lambda>m. fst m = kPersistent)) (contents b q) else None),
       bindings := {(x, q, k) \<in> bindings b. x \<in> durable_exchanges b \<and> q \<in> durable_queues b}\<rparr>"

text \<open>
  A call that returns has taken effect, one that throws has or has not. Every type of
  exchange matches a key with itself; a publication to an exchange that does not exist
  throws, and so does the declaration of one that exists with another type or durability, and
  that of a queue that exists with another durability.
\<close>

locale rabbit_broker =
  fixes c :: "'w rabbit_client"
    and broker :: "'w \<Rightarrow> broker"
    and matches :: "exchange_type \<Rightarrow> string \<Rightarrow> string \<Rightarrow> bool"
  assumes matches_refl: "matches ty k k"
    and matches_direct: "matches kDirect k rk \<longleftrightarrow> k = rk"
    and matches_fanout: "matches kFanOut k rk"
    and exchange_law: "DeclareExchange c x ty fl w = (r1, w') \<Longrightarrow>
      broker w' = (broker w)\<lparr>exchanges := (exchanges (broker w))(x \<mapsto> ty),
          durable_exchanges := declared_durable fl x (durable_exchanges (broker w))\<rparr> \<and>
        (exchanges (broker w) x = None \<or>
         exchanges (broker w) x = Some ty \<and> (x \<in> durable_exchanges (broker w) \<longleftrightarrow> kDurable \<in> set fl)) \<or>
      broker w' = broker w \<and> (\<exists>e. r1 = Inl e)"
    and queue_law: "DeclareQueue c q fl w = (r2, w') \<Longrightarrow>
      broker w' = (broker w)\<lparr>contents := (contents (broker w))(q \<mapsto> (case contents (broker w) q of None \<Rightarrow> [] | Some ms \<Rightarrow> ms)),
          durable_queues := declared_durable fl q (durable_queues (broker w))\<rparr> \<and>
        (contents (broker w) q = None \<or> (q \<in> durable_queues (broker w) \<longleftrightarrow> kDurable \<in> set fl)) \<or>
      broker w' = broker w \<and> (\<exists>e. r2 = Inl e)"
    and bind_law: "BindQueue c x q k w = (r3, w') \<Longrightarrow>
      broker w' = (broker w)\<lparr>bindings := insert (x, q, k) (bindings (broker w))\<rparr> \<or>
      broker w' = broker w \<and> (\<exists>e. r3 = Inl e)"
    and publish_law: "PublishReliable c x rk body mt w = (r4, w') \<Longrightarrow>
      (\<exists>ty. exchanges (broker w) x = Some ty \<and> broker w' = deliver matches ty x rk mt body (broker w)) \<or>
      broker w' = broker w \<and> (\<exists>e. r4 = Inl e)"
begin

text \<open>What a queue holds after a publication that returned.\<close>

lemma publish_queue:
  assumes "PublishReliable c x rk body mt w = (Inr (), w')" and "queues (broker w) q = Some ms"
  shows "\<exists>ty. exchanges (broker w) x = Some ty \<and>
    queues (broker w') q = Some (if routed matches ty (broker w) x rk q then ms @ [body] else ms)"
  using publish_law [OF assms(1)] assms(2) by auto

end

subsection \<open>The publisher\<close>

record 'w rabbit_publisher =
  rp_client :: "'w rabbit_client"
  rp_exchange :: string
  rp_exchange_type :: exchange_type
  rp_queue :: string
  rp_bind_routing_key :: string

definition ParseExchangeType :: "string \<Rightarrow> exn + exchange_type" where
  "ParseExchangeType s =
     (if s = ''fanout'' then Inr kFanOut
      else if s = ''direct'' then Inr kDirect
      else if s = ''topic'' then Inr kTopic
      else Inl (Runtime_error (''rhythm-event-publisher: unknown exchange_type '' @ CHR 0x27 # s @ [CHR 0x27])))"

text \<open>The component's section of the static configuration; a missing option without a default throws.\<close>

type_synonym config = "string \<rightharpoonup> string"

definition cfg_As :: "config \<Rightarrow> string \<Rightarrow> exn + string" where
  "cfg_As cfg key = (case cfg key of Some v \<Rightarrow> Inr v | None \<Rightarrow> Inl (Library_error (''missing option '' @ key)))"

definition cfg_As_default :: "config \<Rightarrow> string \<Rightarrow> string \<Rightarrow> string" where
  "cfg_As_default cfg key d = (case cfg key of Some v \<Rightarrow> v | None \<Rightarrow> d)"

text \<open>\<open>find_client\<close> is the look-up of the component named by \<^verbatim>\<open>rabbit_name\<close>.\<close>

definition make_RabbitMqEventPublisher ::
  "(string \<Rightarrow> exn + 'w rabbit_client) \<Rightarrow> config \<Rightarrow> exn + 'w rabbit_publisher" where
  "make_RabbitMqEventPublisher find_client cfg =
     (case cfg_As cfg ''rabbit_name'' of Inl e \<Rightarrow> Inl e | Inr name \<Rightarrow>
      case find_client name of Inl e \<Rightarrow> Inl e | Inr client \<Rightarrow>
      case cfg_As cfg ''exchange'' of Inl e \<Rightarrow> Inl e | Inr exch \<Rightarrow>
      case ParseExchangeType (cfg_As_default cfg ''exchange_type'' ''topic'') of Inl e \<Rightarrow> Inl e | Inr ty \<Rightarrow>
      case cfg_As cfg ''queue'' of Inl e \<Rightarrow> Inl e | Inr q \<Rightarrow>
      Inr \<lparr>rp_client = client, rp_exchange = exch, rp_exchange_type = ty, rp_queue = q,
           rp_bind_routing_key = cfg_As_default cfg ''bind_routing_key'' ''user.action''\<rparr>)"

definition OnAllComponentsLoaded :: "'w rabbit_publisher \<Rightarrow> (unit, 'w) prog" where
  "OnAllComponentsLoaded P =
     bindE (DeclareExchange (rp_client P) (rp_exchange P) (rp_exchange_type P) []) (\<lambda>_.
     bindE (DeclareQueue (rp_client P) (rp_queue P) []) (\<lambda>_.
     BindQueue (rp_client P) (rp_exchange P) (rp_queue P) (rp_bind_routing_key P)))"

definition rabbit_PublishJson :: "'w rabbit_publisher \<Rightarrow> string \<Rightarrow> string \<Rightarrow> (unit, 'w) prog" where
  "rabbit_PublishJson P routing_key json_payload =
     PublishReliable (rp_client P) (rp_exchange P) routing_key json_payload kTransient"

definition rabbit_queue_port :: "'w rabbit_publisher \<Rightarrow> 'w queue_port" where
  "rabbit_queue_port P = \<lparr>PublishJson = rabbit_PublishJson P\<rparr>"

subsection \<open>The topology\<close>

text \<open>
  The three declarations are in place, as they are written: neither the exchange nor the queue is
  durable. Nothing of the program removes one.
\<close>

definition topology :: "'w rabbit_publisher \<Rightarrow> broker \<Rightarrow> bool" where
  "topology P b \<longleftrightarrow> exchanges b (rp_exchange P) = Some (rp_exchange_type P) \<and>
     queues b (rp_queue P) \<noteq> None \<and> (rp_exchange P, rp_queue P, rp_bind_routing_key P) \<in> bindings b \<and>
     rp_exchange P \<notin> durable_exchanges b \<and> rp_queue P \<notin> durable_queues b"

text \<open>So a restart of the broker takes all of it away, with the messages.\<close>

lemma topology_lost:
  assumes "topology P b"
  shows "exchanges (broker_restart b) (rp_exchange P) = None" and "contents (broker_restart b) (rp_queue P) = None"
  using assms by (simp_all add: topology_def broker_restart_def)

context rabbit_broker
begin

lemma topology_declared:
  assumes "rp_client P = c" and "OnAllComponentsLoaded P w = (Inr (), w')"
  shows "topology P (broker w')"
proof -
  from assms obtain w1 w2 where "DeclareExchange c (rp_exchange P) (rp_exchange_type P) [] w = (Inr (), w1)"
    and "DeclareQueue c (rp_queue P) [] w1 = (Inr (), w2)"
    and "BindQueue c (rp_exchange P) (rp_queue P) (rp_bind_routing_key P) w2 = (Inr (), w')"
    by (auto simp: OnAllComponentsLoaded_def elim!: bindE_InrE)
  from exchange_law [OF this(1)] queue_law [OF this(2)] bind_law [OF this(3)]
  show ?thesis by (auto simp: topology_def declared_durable_def)
qed

lemma topology_published:
  assumes "topology P (broker w)" and "rabbit_PublishJson Q rk body w = (r, w')" and "rp_client Q = c"
  shows "topology P (broker w')"
  using publish_law [of "rp_exchange Q" rk body kTransient w r w'] assms
  by (auto simp: topology_def rabbit_PublishJson_def)

lemma published_to_queue:
  assumes "rp_client P = c" and "topology P (broker w)"
    and "rabbit_PublishJson P (rp_bind_routing_key P) body w = (Inr (), w')"
    and "queues (broker w) (rp_queue P) = Some ms"
  shows "queues (broker w') (rp_queue P) = Some (ms @ [body])"
proof -
  have "routed matches (rp_exchange_type P) (broker w) (rp_exchange P) (rp_bind_routing_key P) (rp_queue P)"
    using assms(2) matches_refl unfolding routed_def topology_def by fastforce
  with publish_queue [of _ _ _ _ _ w' _ ms] assms show ?thesis
    by (fastforce simp: rabbit_PublishJson_def topology_def)
qed

text \<open>A direct exchange whose only binding to a queue has another key drops the message silently.\<close>

lemma not_routed:
  assumes "rp_client P = c" and "rp_exchange_type P = kDirect" and "topology P (broker w)"
    and "\<And>k. (rp_exchange P, q, k) \<in> bindings (broker w) \<Longrightarrow> k \<noteq> rk"
    and "rabbit_PublishJson P rk body w = (Inr (), w')"
  shows "queues (broker w') q = queues (broker w) q"
proof -
  have "\<not> routed matches kDirect (broker w) (rp_exchange P) rk q"
    using assms(4) by (auto simp: routed_def matches_direct)
  with publish_law [of "rp_exchange P" rk body kTransient w "Inr ()" w'] assms show ?thesis
    by (auto simp: rabbit_PublishJson_def topology_def option.map_ident)
qed

end

subsection \<open>A reference broker\<close>

record system_world = pg_world +
  rb :: broker
  rb_faults :: "nat \<Rightarrow> fault"
  rb_count :: nat

definition broker_call :: "(broker \<Rightarrow> exn + broker) \<Rightarrow> (unit, 'x system_world_scheme) prog" where
  "broker_call f w =
     (let n = rb_count w; w1 = w\<lparr>rb_count := Suc n\<rparr>
      in case f (rb w) of
           Inl e \<Rightarrow> (Inl e, w1)
         | Inr b \<Rightarrow>
             (case rb_faults w n of
                No_fault \<Rightarrow> (Inr (), w1\<lparr>rb := b\<rparr>)
              | Fail_before e \<Rightarrow> (Inl e, w1)
              | Fail_after e \<Rightarrow> (Inl e, w1\<lparr>rb := b\<rparr>)))"

fun ref_matches :: "exchange_type \<Rightarrow> string \<Rightarrow> string \<Rightarrow> bool" where
  "ref_matches kFanOut k rk = True"
| "ref_matches ty k rk = (k = rk)"

definition ref_rabbit :: "'x system_world_scheme rabbit_client" where
  "ref_rabbit =
     \<lparr>DeclareExchange = (\<lambda>x ty fl. broker_call (\<lambda>b.
        if exchanges b x = None \<or> exchanges b x = Some ty \<and> (x \<in> durable_exchanges b \<longleftrightarrow> kDurable \<in> set fl)
        then Inr (b\<lparr>exchanges := (exchanges b)(x \<mapsto> ty), durable_exchanges := declared_durable fl x (durable_exchanges b)\<rparr>)
        else Inl (Library_error ''PRECONDITION_FAILED''))),
      DeclareQueue = (\<lambda>q fl. broker_call (\<lambda>b.
        if contents b q = None \<or> (q \<in> durable_queues b \<longleftrightarrow> kDurable \<in> set fl)
        then Inr (b\<lparr>contents := (contents b)(q \<mapsto> (case contents b q of None \<Rightarrow> [] | Some ms \<Rightarrow> ms)),
               durable_queues := declared_durable fl q (durable_queues b)\<rparr>)
        else Inl (Library_error ''PRECONDITION_FAILED''))),
      BindQueue = (\<lambda>x q k. broker_call (\<lambda>b. Inr (b\<lparr>bindings := insert (x, q, k) (bindings b)\<rparr>))),
      PublishReliable = (\<lambda>x rk body mt. broker_call (\<lambda>b.
        case exchanges b x of
          None \<Rightarrow> Inl (Library_error ''NOT_FOUND'')
        | Some ty \<Rightarrow> Inr (deliver ref_matches ty x rk mt body b)))\<rparr>"

lemma broker_callE:
  assumes "broker_call f w = (r, w')"
  obtains b where "f (rb w) = Inr b" and "rb w' = b \<or> rb w' = rb w \<and> (\<exists>e. r = Inl e)"
  | e where "rb w' = rb w" and "r = Inl e"
  using assms by (auto simp: broker_call_def Let_def split: sum.splits fault.splits)

interpretation ref_rabbit: rabbit_broker ref_rabbit rb ref_matches
proof
  show "ref_matches ty k k" "ref_matches kDirect k rk \<longleftrightarrow> k = rk" "ref_matches kFanOut k rk" for ty k rk
    by (cases ty) simp_all
qed (auto simp: ref_rabbit_def elim!: broker_callE split: if_splits option.splits)

subsection \<open>Properties\<close>

text \<open>
  C28. Once the start of the publisher has returned, an event published under the key of its
  binding reaches the worker's queue: if the publication returns, exactly this body has been
  put at the end of the queue. This holds for every type of exchange.
\<close>

theorem rabbit_delivers_to_queue:
  assumes "rabbit_broker (rp_client P) broker matches" and "OnAllComponentsLoaded P w = (Inr (), w1)"
    and "rabbit_PublishJson P (rp_bind_routing_key P) body w1 = (Inr (), w2)"
  shows "\<exists>ms. queues (broker w1) (rp_queue P) = Some ms \<and> queues (broker w2) (rp_queue P) = Some (ms @ [body])"
proof -
  have t: "topology P (broker w1)"
    by (rule rabbit_broker.topology_declared [OF assms(1) refl assms(2)])
  then obtain ms where "queues (broker w1) (rp_queue P) = Some ms" by (auto simp: topology_def)
  with rabbit_broker.published_to_queue [OF assms(1) refl t assms(3) this] show ?thesis by blast
qed

text \<open>
  The key of the binding is configuration and the key of the message is fixed in the
  code: on a direct exchange, a queue that is bound, but never under the key of the message, gets
  nothing from a publication that returns as if the event had been handed over.
\<close>

lemma rabbit_mismatched_binding_drops:
  assumes "rabbit_broker (rp_client P) broker matches" and "OnAllComponentsLoaded P w = (Inr (), w1)"
    and "rp_exchange_type P = kDirect"
    and "\<And>k. (rp_exchange P, rp_queue P, k) \<in> bindings (broker w1) \<Longrightarrow> k \<noteq> rk"
    and "rabbit_PublishJson P rk body w1 = (Inr (), w2)"
  shows "queues (broker w2) (rp_queue P) = queues (broker w1) (rp_queue P)"
  using rabbit_broker.not_routed [OF assms(1) refl assms(3)
      rabbit_broker.topology_declared [OF assms(1) refl assms(2)] assms(4,5)] .

subsection \<open>An example\<close>

definition system_at :: "user_action list \<Rightarrow> product list \<Rightarrow> nat \<Rightarrow> broker \<Rightarrow> nat \<Rightarrow> system_world" where
  "system_at as ps n b k = redis_world.extend \<lparr>sys_clk = \<lparr>readings = (\<lambda>_. 0), pos = 0\<rparr>,
     steady_clk = \<lparr>readings = (\<lambda>_. 0), pos = 0\<rparr>, kv = Map.empty,
     srv_clk = \<lparr>readings = (\<lambda>_. 0), pos = 0\<rparr>, faults = (\<lambda>_. No_fault), commands = 0\<rparr>
     \<lparr>pg_master = \<lparr>user_actions = as, products = ps\<rparr>,
     pg_replica = \<lparr>user_actions = as, products = ps\<rparr>, pg_sync = (\<lambda>_. True),
     pg_clock = (\<lambda>_. 0), pg_faults = (\<lambda>_. No_fault), pg_refuses = (\<lambda>_. False), pg_count = n,
     rb = b, rb_faults = (\<lambda>_. No_fault), rb_count = k\<rparr>"

definition no_broker :: broker where
  "no_broker = \<lparr>exchanges = Map.empty, contents = Map.empty, bindings = {}, durable_exchanges = {}, durable_queues = {}\<rparr>"

text \<open>The names of the exchange and of the queue in the configurations of the repository.\<close>

abbreviation events_exchange :: string where
  "events_exchange \<equiv> ''rhythm.events''"

abbreviation user_queue :: string where
  "user_queue \<equiv> ''rhythm.user.action''"

definition publisher0 :: "exchange_type \<Rightarrow> string \<Rightarrow> 'x system_world_scheme rabbit_publisher" where
  "publisher0 ty k = \<lparr>rp_client = ref_rabbit, rp_exchange = events_exchange, rp_exchange_type = ty,
     rp_queue = user_queue, rp_bind_routing_key = k\<rparr>"

lemma publisher0_simps [simp]:
  "rp_exchange (publisher0 ty k) = events_exchange" "rp_queue (publisher0 ty k) = user_queue"
  "rp_exchange_type (publisher0 ty k) = ty" "rp_bind_routing_key (publisher0 ty k) = k"
  "rp_client (publisher0 ty k) = ref_rabbit"
  by (simp_all add: publisher0_def)

lemma rb_system_at [simp]: "rb (system_at as ps n b k) = b"
  by (simp add: system_at_def redis_world.defs)

lemma broker_call_system_at [simp]:
  "broker_call f (system_at as ps n b k) =
    (case f b of Inl e \<Rightarrow> (Inl e, system_at as ps n b (Suc k)) | Inr b' \<Rightarrow> (Inr (), system_at as ps n b' (Suc k)))"
  by (simp add: broker_call_def system_at_def Let_def redis_world.defs split: sum.split)

text \<open>After the start, with transient messages waiting.\<close>

definition broker0 :: "exchange_type \<Rightarrow> string \<Rightarrow> string list \<Rightarrow> broker" where
  "broker0 ty k ms = \<lparr>exchanges = [events_exchange \<mapsto> ty], contents = [user_queue \<mapsto> map (Pair kTransient) ms],
     bindings = {(events_exchange, user_queue, k)}, durable_exchanges = {}, durable_queues = {}\<rparr>"

lemma queues_broker0: "queues (broker0 ty k ms) = [user_queue \<mapsto> ms]"
  by (simp add: queues_def broker0_def fun_eq_iff comp_def)

lemma deliver_broker0:
  "deliver ref_matches ty events_exchange rk kTransient body (broker0 ty k ms) =
    broker0 ty k (if ref_matches ty k rk then ms @ [body] else ms)"
  by (simp add: deliver_def broker0_def routed_def fun_eq_iff)

lemma publisher0_run:
  "OnAllComponentsLoaded (publisher0 ty k) (system_at as ps n no_broker 0) =
    (Inr (), system_at as ps n (broker0 ty k []) (Suc (Suc (Suc 0))))"
  "rabbit_PublishJson (publisher0 ty k) rk body (system_at as ps n (broker0 ty k ms) i) =
    (Inr (), system_at as ps n (broker0 ty k (if ref_matches ty k rk then ms @ [body] else ms)) (Suc i))"
proof -
  show "OnAllComponentsLoaded (publisher0 ty k) (system_at as ps n no_broker 0) =
    (Inr (), system_at as ps n (broker0 ty k []) (Suc (Suc (Suc 0))))"
    by (simp add: OnAllComponentsLoaded_def ref_rabbit_def bindE_def broker0_def no_broker_def declared_durable_def)
  have "exchanges (broker0 ty k ms) events_exchange = Some ty" by (simp add: broker0_def)
  then show "rabbit_PublishJson (publisher0 ty k) rk body (system_at as ps n (broker0 ty k ms) i) =
    (Inr (), system_at as ps n (broker0 ty k (if ref_matches ty k rk then ms @ [body] else ms)) (Suc i))"
    by (simp add: rabbit_PublishJson_def ref_rabbit_def deliver_broker0)
qed

theorem rabbit_delivers_to_queue_witness:
  "\<exists>ms. queues (broker0 kTopic ''user.action'' []) user_queue = Some ms \<and>
    queues (broker0 kTopic ''user.action'' [''body'']) user_queue = Some (ms @ [''body''])"
proof (rule rabbit_delivers_to_queue [where P = "publisher0 kTopic ''user.action''" and broker = rb
      and matches = ref_matches and w = "system_at [] [] 0 no_broker 0" and body = "''body''"
      and ?w1.0 = "system_at [] [] 0 (broker0 kTopic ''user.action'' []) 3"
      and ?w2.0 = "system_at [] [] 0 (broker0 kTopic ''user.action'' [''body'']) 4", simplified])
  show "OnAllComponentsLoaded (publisher0 kTopic ''user.action'') (system_at [] [] 0 no_broker 0) =
      (Inr (), system_at [] [] 0 (broker0 kTopic ''user.action'' []) 3)"
    using publisher0_run(1) [of kTopic "''user.action''" "[]" "[]" 0] by (simp add: numeral_3_eq_3)
  show "rabbit_PublishJson (publisher0 kTopic ''user.action'') ''user.action'' ''body''
      (system_at [] [] 0 (broker0 kTopic ''user.action'' []) 3) =
      (Inr (), system_at [] [] 0 (broker0 kTopic ''user.action'' [''body'']) 4)"
    by (simp add: publisher0_run(2))
qed (simp add: ref_rabbit.rabbit_broker_axioms)


end
