(* ===== verification/Action_Service.thy ===== *)
theory Action_Service
  imports Ports Json_Codec Ttl_Policy
begin

text \<open>
  \<^verbatim>\<open>src/services/action_service.hpp\<close> and \<^verbatim>\<open>action_service.cpp\<close>: the
  validation of an event, the reservation of its idempotency key and its publication. The
  locale \<open>action_ports\<close> says what the service relies on of the two ports behind it; what
  follows from it for runs of requests is proved once there.
\<close>

subsection \<open>The service\<close>

record action_payload =
  ap_user_id :: string
  ap_action_type :: string
  ap_product_id :: string
  ap_idempotency_key :: string

datatype handle_action_result = Accepted | Duplicate

record 'w action_service =
  as_queue :: "'w queue_port"
  as_idempotency :: "'w idempotency_port"

definition ActionService :: "'w queue_port \<Rightarrow> 'w idempotency_port \<Rightarrow> 'w action_service" where
  [simp]: "ActionService queue idempotency = \<lparr>as_queue = queue, as_idempotency = idempotency\<rparr>"

definition EnsureNonEmpty :: "string \<Rightarrow> string \<Rightarrow> exn + unit" where
  "EnsureNonEmpty field name =
     (if field = [] then Inl (Runtime_error (''validation: empty field '' @ quoted name)) else Inr ())"

definition IsAllowedActionType :: "string \<Rightarrow> bool" where
  "IsAllowedActionType t \<longleftrightarrow>
     t = ''view'' \<or> t = ''purchase'' \<or> t = ''cart_add'' \<or> t = ''like'' \<or> t = ''save''"

definition action_doc :: "action_payload \<Rightarrow> json" where
  "action_doc p = JObject
     [(''user_id'', JString (ap_user_id p)), (''action_type'', JString (ap_action_type p)),
      (''product_id'', JString (ap_product_id p)),
      (''idempotency_key'', JString (ap_idempotency_key p))]"

definition HandleAction ::
  "json_lib \<Rightarrow> 'w action_service \<Rightarrow> action_payload \<Rightarrow> (handle_action_result, 'w) prog" where
  "HandleAction J S p =
     bindE (pure_prog (EnsureNonEmpty (ap_user_id p) ''user_id'')) (\<lambda>_.
     bindE (pure_prog (EnsureNonEmpty (ap_action_type p) ''action_type'')) (\<lambda>_.
     bindE (pure_prog (EnsureNonEmpty (ap_product_id p) ''product_id'')) (\<lambda>_.
     bindE (pure_prog (EnsureNonEmpty (ap_idempotency_key p) ''idempotency_key'')) (\<lambda>_.
     if \<not> IsAllowedActionType (ap_action_type p)
     then throw (Runtime_error ''validation: unknown action_type'')
     else
       bindE (TryReserve (as_idempotency S) (ap_idempotency_key p) kIdempotencyHold) (\<lambda>reserved.
       if \<not> reserved then ret Duplicate
       else
         bindE (PublishJson (as_queue S) ''user.action'' (ToString J (action_doc p))) (\<lambda>_.
         ret Accepted))))))"

subsection \<open>Validation\<close>

definition valid_payload :: "action_payload \<Rightarrow> bool" where
  "valid_payload p \<longleftrightarrow> ap_user_id p \<noteq> [] \<and> ap_product_id p \<noteq> [] \<and> ap_idempotency_key p \<noteq> [] \<and>
     IsAllowedActionType (ap_action_type p)"

text \<open>The first rule a payload breaks, in the order of the checks.\<close>

definition validation_error :: "action_payload \<Rightarrow> string" where
  "validation_error p =
     (if ap_user_id p = [] then ''validation: empty field '' @ quoted ''user_id''
      else if ap_action_type p = [] then ''validation: empty field '' @ quoted ''action_type''
      else if ap_product_id p = [] then ''validation: empty field '' @ quoted ''product_id''
      else if ap_idempotency_key p = [] then ''validation: empty field '' @ quoted ''idempotency_key''
      else ''validation: unknown action_type'')"

lemma IsAllowedActionType_not_Nil [simp]: "\<not> IsAllowedActionType []"
  by (simp add: IsAllowedActionType_def)

text \<open>What a valid payload does: reserve, then publish.\<close>

lemma HandleAction_valid:
  assumes "valid_payload p"
  shows "HandleAction J S p =
    bindE (TryReserve (as_idempotency S) (ap_idempotency_key p) kIdempotencyHold) (\<lambda>reserved.
      if \<not> reserved then ret Duplicate
      else bindE (PublishJson (as_queue S) ''user.action'' (ToString J (action_doc p))) (\<lambda>_. ret Accepted))"
  using assms
  by (auto simp: fun_eq_iff HandleAction_def valid_payload_def EnsureNonEmpty_def bindE_def)

lemma HandleAction_invalid:
  assumes "\<not> valid_payload p"
  shows "HandleAction J S p w = (Inl (Runtime_error (validation_error p)), w)"
  using assms
  by (auto simp: HandleAction_def valid_payload_def EnsureNonEmpty_def validation_error_def bindE_def)

lemma HandleAction_returns_valid: "HandleAction J S p w = (Inr r, w') \<Longrightarrow> valid_payload p"
  using HandleAction_invalid [of p J S w] by fastforce

lemma HandleAction_AcceptedE:
  assumes "HandleAction J S p w = (Inr Accepted, w')"
  obtains w1 where "TryReserve (as_idempotency S) (ap_idempotency_key p) kIdempotencyHold w = (Inr True, w1)"
    and "PublishJson (as_queue S) ''user.action'' (ToString J (action_doc p)) w1 = (Inr (), w')"
    and "valid_payload p"
  using assms HandleAction_returns_valid [OF assms]
  by (auto simp: HandleAction_valid elim!: bindE_InrE split: if_splits)

subsection \<open>What the service relies on\<close>

text \<open>Requests handled one after the other: the outcome and the world after each.\<close>

fun handle_all ::
  "json_lib \<Rightarrow> 'w action_service \<Rightarrow> action_payload list \<Rightarrow> 'w \<Rightarrow>
   ((exn + handle_action_result) \<times> 'w) list" where
  "handle_all J S [] w = []"
| "handle_all J S (p # ps) w = HandleAction J S p w # handle_all J S ps (snd (HandleAction J S p w))"

text \<open>
  \<open>held_at w t tok\<close>: a reservation of \<open>tok\<close> made in \<open>w\<close> at time \<open>t\<close> would be
  refused. \<open>clk\<close> is the clock of the store after an operation.
\<close>

locale action_ports =
  fixes S :: "'w action_service"
    and held_at :: "'w \<Rightarrow> time \<Rightarrow> string \<Rightarrow> bool"
    and clk :: "'w \<Rightarrow> time"
  assumes reserve_answer: "tok \<noteq> [] \<Longrightarrow>
      TryReserve (as_idempotency S) tok kIdempotencyHold w = (Inr b, w') \<Longrightarrow>
      (b \<longleftrightarrow> \<not> held_at w (clk w') tok) \<and>
      (\<forall>t tok'. held_at w' t tok' \<longleftrightarrow>
         (if b \<and> tok' = tok then t < clk w' + ns_of_secs kIdempotencyHold else held_at w t tok'))"
    and reserve_throws: "tok \<noteq> [] \<Longrightarrow>
      TryReserve (as_idempotency S) tok kIdempotencyHold w = (Inl e, w') \<Longrightarrow>
      held_at w t tok' \<Longrightarrow> held_at w' t tok'"
    and publish_frame: "PublishJson (as_queue S) rk body w = (r, w') \<Longrightarrow> held_at w' = held_at w"
    and publish_clk: "PublishJson (as_queue S) rk body w = (r, w') \<Longrightarrow> clk w' = clk w"
begin

lemma HandleAction_clk:
  assumes "HandleAction J S p w = (Inr Accepted, w')"
  shows "\<not> held_at w (clk w') (ap_idempotency_key p)"
    and "held_at w' t tok \<longleftrightarrow>
      (if tok = ap_idempotency_key p then t < clk w' + ns_of_secs kIdempotencyHold else held_at w t tok)"
proof -
  obtain w1 where r: "TryReserve (as_idempotency S) (ap_idempotency_key p) kIdempotencyHold w = (Inr True, w1)"
    and q: "PublishJson (as_queue S) ''user.action'' (ToString J (action_doc p)) w1 = (Inr (), w')"
    and "valid_payload p"
    using assms by (rule HandleAction_AcceptedE)
  then have "ap_idempotency_key p \<noteq> []" by (simp add: valid_payload_def)
  from reserve_answer [OF this r] publish_frame [OF q] publish_clk [OF q]
  show "\<not> held_at w (clk w') (ap_idempotency_key p)"
    and "held_at w' t tok \<longleftrightarrow>
      (if tok = ap_idempotency_key p then t < clk w' + ns_of_secs kIdempotencyHold else held_at w t tok)"
    by simp_all
qed

text \<open>No request frees a token, whatever its outcome.\<close>

lemma HandleAction_keeps_held:
  assumes "\<forall>t<d. held_at w t tok" and "HandleAction J S p w = (r, w')"
  shows "\<forall>t<d. held_at w' t tok"
proof (cases "valid_payload p")
  case False
  with assms show ?thesis by (simp add: HandleAction_invalid)
next
  case True
  then have ne: "ap_idempotency_key p \<noteq> []" by (simp add: valid_payload_def)
  obtain b w1 where r: "TryReserve (as_idempotency S) (ap_idempotency_key p) kIdempotencyHold w = (b, w1)"
    by fastforce
  have "\<forall>t<d. held_at w1 t tok"
  proof (cases b)
    case (Inl e)
    with assms(1) reserve_throws [OF ne r [unfolded Inl]] show ?thesis by blast
  next
    case (Inr granted)
    note ans = reserve_answer [OF ne r [unfolded Inr]]
    have "0 < ns_of_secs kIdempotencyHold" by simp
    then have "d \<le> clk w1 + ns_of_secs kIdempotencyHold" if "granted" "tok = ap_idempotency_key p"
      using ans that assms(1) by (meson add_increasing2 less_imp_le not_le)
    with ans assms(1) show ?thesis by auto
  qed
  moreover have "held_at w' = held_at w1"
    using assms(2) True r publish_frame
    by (auto simp: HandleAction_valid bindE_def split: sum.splits prod.splits if_splits)
  ultimately show ?thesis by simp
qed

lemma accepted_after_held:
  assumes "\<forall>t<d. held_at w t tok" and "j < length ps" and "ap_idempotency_key (ps ! j) = tok"
    and "handle_all J S ps w ! j = (Inr Accepted, w')"
  shows "d \<le> clk w'"
  using assms
proof (induction ps arbitrary: w j)
  case (Cons p ps)
  show ?case
  proof (cases j)
    case 0
    with Cons.prems have "\<not> held_at w (clk w') tok"
      using HandleAction_clk(1) [of J p w w'] by simp
    with Cons.prems(1) show ?thesis by (meson not_le)
  next
    case (Suc k)
    have "\<forall>t<d. held_at (snd (HandleAction J S p w)) t tok"
      using HandleAction_keeps_held [OF Cons.prems(1)] by (metis prod.collapse)
    from Cons.IH [OF this, of k] Cons.prems(2-4) Suc show ?thesis by simp
  qed
qed simp

lemma accepted_spaced:
  assumes "i < j" and "j < length ps" and "ap_idempotency_key (ps ! i) = ap_idempotency_key (ps ! j)"
    and "handle_all J S ps w ! i = (Inr Accepted, wi)"
    and "handle_all J S ps w ! j = (Inr Accepted, wj)"
  shows "clk wi + ns_of_secs kIdempotencyHold \<le> clk wj"
  using assms
proof (induction ps arbitrary: w i j)
  case (Cons p ps)
  obtain l where j: "j = Suc l" using Cons.prems(1) by (cases j) auto
  show ?case
  proof (cases i)
    case 0
    with Cons.prems(4) have acc: "HandleAction J S p w = (Inr Accepted, wi)" by simp
    have "\<forall>t < clk wi + ns_of_secs kIdempotencyHold. held_at wi t (ap_idempotency_key p)"
      using HandleAction_clk(2) [OF acc] by simp
    from accepted_after_held [OF this, of l ps J wj] Cons.prems j 0 acc show ?thesis by simp
  next
    case (Suc k)
    with Cons.IH [of k l "snd (HandleAction J S p w)"] Cons.prems j show ?thesis by simp
  qed
qed simp

text \<open>
  A request whose publication failed after its token had been granted: until the token
  expires every further request with it is answered as a duplicate.
\<close>

lemma lost_event:
  assumes "TryReserve (as_idempotency S) (ap_idempotency_key p) kIdempotencyHold w = (Inr True, w1)"
    and "PublishJson (as_queue S) ''user.action'' (ToString J (action_doc p)) w1 = (Inl e, w2)"
    and "valid_payload p" and "valid_payload q" and "ap_idempotency_key q = ap_idempotency_key p"
    and "HandleAction J S q w2 = (Inr r, w3)" and "clk w3 < clk w2 + ns_of_secs kIdempotencyHold"
  shows "HandleAction J S p w = (Inl e, w2) \<and> r = Duplicate"
proof -
  have ne: "ap_idempotency_key p \<noteq> []" using assms(3) by (simp add: valid_payload_def)
  have held: "held_at w2 t (ap_idempotency_key p) \<longleftrightarrow> t < clk w2 + ns_of_secs kIdempotencyHold" for t
    using reserve_answer [OF ne assms(1)] publish_frame [OF assms(2)] publish_clk [OF assms(2)] by simp
  have "r \<noteq> Accepted"
    using HandleAction_clk(1) [of J q w2 w3] assms(5-7) held by auto
  moreover have "HandleAction J S p w = (Inl e, w2)"
    using assms(1-3) by (simp add: HandleAction_valid bindE_def)
  ultimately show ?thesis by (cases r) auto
qed

end

subsection \<open>Properties\<close>

text \<open>
  Validation comes before every effect: a payload with an empty field or an unknown
  action type is refused with the error of the first rule it breaks, and neither the
  idempotency store nor the queue has been touched.
\<close>

lemma HandleAction_rejects_invalid:
  assumes "\<not> valid_payload p"
  shows "HandleAction J S p w = (Inl (Runtime_error (validation_error p)), w)"
  using assms by (rule HandleAction_invalid)


end
