(* ===== verification/Worker.thy ===== *)
theory Worker
  imports Redis_Data Rabbit_Publisher Action_Service
begin

text \<open>
  The worker of \<^verbatim>\<open>src/workers/user_action_consumer.hpp\<close> and
  \<^verbatim>\<open>user_action_consumer.cpp\<close>: a message of the queue becomes a row of
  \<^verbatim>\<open>user_actions\<close>, and a new row invalidates what Redis caches for the user. A
  message whose processing returns is acknowledged; one whose processing throws is delivered
  again by the consumer base class.
\<close>

subsection \<open>The consumer\<close>

text \<open>
  \<open>uc_redis_cache\<close> is None in a build without \<^verbatim>\<open>RHYTHM_WORKER_WITH_REDIS\<close>,
  where the worker only logs the keys it would delete.
\<close>

record 'w user_action_consumer =
  uc_pg :: "'w pg_client"
  uc_redis_cache :: "'w redis_rhythm_data option"

text \<open>
  \<^verbatim>\<open>INSERT ... ON CONFLICT (user_id, idempotency_key) DO NOTHING\<close>: the number of
  rows affected and the new table. \<^verbatim>\<open>created_at\<close> defaults to the server's
  \<^verbatim>\<open>now()\<close>.
\<close>

definition kInsertUserAction :: "string \<Rightarrow> string \<Rightarrow> string \<Rightarrow> string \<Rightarrow> insert_stmt" where
  "kInsertUserAction user_id action_type product_id idempotency_key now db =
     (if (user_id, idempotency_key) \<in> action_key ` set (user_actions db) then (0, db)
      else (1, db\<lparr>user_actions := user_actions db @
        [\<lparr>ua_user_id = user_id, ua_action_type = action_type, ua_product_id = product_id,
          ua_idempotency_key = idempotency_key, ua_created_at = now\<rparr>]\<rparr>))"

text \<open>\<open>!a || !b || ...\<close> over the required members, from left to right, stopping at the first missing one.\<close>

fun has_members :: "json_lib \<Rightarrow> json \<Rightarrow> string list \<Rightarrow> (bool, 'w) prog" where
  "has_members J json [] = ret True"
| "has_members J json (k # ks) =
     bindE (pure_prog (HasMember J json k)) (\<lambda>b. if \<not> b then ret False else has_members J json ks)"

definition Process :: "json_lib \<Rightarrow> 'w user_action_consumer \<Rightarrow> string \<Rightarrow> (unit, 'w) prog" where
  "Process J U message =
     (case FromString J message of
        Inl ex \<Rightarrow> ret ()
      | Inr json \<Rightarrow>
          bindE (has_members J json [''user_id'', ''action_type'', ''product_id'', ''idempotency_key'']) (\<lambda>complete.
          if \<not> complete then ret ()
          else
            bindE (pure_prog (As_string J (at_key json ''user_id''))) (\<lambda>user_id.
            bindE (pure_prog (As_string J (at_key json ''action_type''))) (\<lambda>action_type.
            bindE (pure_prog (As_string J (at_key json ''product_id''))) (\<lambda>product_id.
            bindE (pure_prog (As_string J (at_key json ''idempotency_key''))) (\<lambda>idempotency_key.
            bindE (pg_insert_master (uc_pg U) [user_id, action_type, product_id, idempotency_key]
              (kInsertUserAction user_id action_type product_id idempotency_key)) (\<lambda>rows_affected.
            if 0 < rows_affected then
              (case uc_redis_cache U of
                 Some cache \<Rightarrow> redis_InvalidateAfterUserAction cache user_id
               | None \<Rightarrow> ret ())
            else ret ())))))))"

subsection \<open>Lemmas\<close>

lemma insert_keys_unique: "keys_unique db \<Longrightarrow> keys_unique (snd (kInsertUserAction u t p k now db))"
  by (auto simp: keys_unique_def kInsertUserAction_def action_key_def)

lemma insert_grows: "\<exists>new. user_actions (snd (kInsertUserAction u t p k now db)) = user_actions db @ new"
  by (simp add: kInsertUserAction_def)

text \<open>Which row a message asks for.\<close>

definition message_fields :: "json_lib \<Rightarrow> string \<Rightarrow> action_payload option" where
  "message_fields J message =
     (case FromString J message of
        Inr (JObject kvs) \<Rightarrow>
          (case (map_of kvs ''user_id'', map_of kvs ''action_type'', map_of kvs ''product_id'',
                 map_of kvs ''idempotency_key'') of
             (Some (JString u), Some (JString t), Some (JString p), Some (JString k)) \<Rightarrow>
               Some \<lparr>ap_user_id = u, ap_action_type = t, ap_product_id = p, ap_idempotency_key = k\<rparr>
           | _ \<Rightarrow> None)
      | _ \<Rightarrow> None)"

lemma map_of_member: "map_of kvs k = Some v \<Longrightarrow> k \<in> fst ` set kvs"
  by (metis map_of_eq_None_iff option.distinct(1))

definition insert_payload :: "action_payload \<Rightarrow> insert_stmt" where
  "insert_payload p = kInsertUserAction (ap_user_id p) (ap_action_type p) (ap_product_id p) (ap_idempotency_key p)"

definition payload_texts :: "action_payload \<Rightarrow> string list" where
  "payload_texts p = [ap_user_id p, ap_action_type p, ap_product_id p, ap_idempotency_key p]"

text \<open>What is left of the processing of a message once its fields are read.\<close>

definition store_action :: "'w user_action_consumer \<Rightarrow> action_payload \<Rightarrow> (unit, 'w) prog" where
  "store_action U p =
     bindE (pg_insert_master (uc_pg U) (payload_texts p) (insert_payload p)) (\<lambda>n.
     if 0 < n then
       (case uc_redis_cache U of
          Some cache \<Rightarrow> redis_InvalidateAfterUserAction cache (ap_user_id p)
        | None \<Rightarrow> ret ())
     else ret ())"

lemma Process_fields:
  assumes "message_fields J message = Some p"
  shows "Process J U message = store_action U p"
proof -
  obtain kvs where "FromString J message = Inr (JObject kvs)"
    and "map_of kvs ''user_id'' = Some (JString (ap_user_id p))"
      "map_of kvs ''action_type'' = Some (JString (ap_action_type p))"
      "map_of kvs ''product_id'' = Some (JString (ap_product_id p))"
      "map_of kvs ''idempotency_key'' = Some (JString (ap_idempotency_key p))"
    using assms
    by (auto simp: message_fields_def split: sum.splits json.splits option.splits)
  moreover note this(2-5) [THEN map_of_member]
  ultimately show ?thesis
    by (simp add: fun_eq_iff Process_def at_key_def As_string_def store_action_def insert_payload_def payload_texts_def bindE_def)
qed

lemma As_string_Inr: "As_string J v = Inr s \<longleftrightarrow> v = Some (JString s)"
  by (auto simp: As_string_def split: option.splits json.splits)

lemma has_members_object:
  "has_members J (JObject kvs) ks w = (Inr (set ks \<subseteq> fst ` set kvs), w)"
  by (induction ks) (auto simp: bindE_def)

lemma bindE_pure: "bindE (pure_prog r) f w = (case r of Inl e \<Rightarrow> (Inl e, w) | Inr x \<Rightarrow> f x w)"
  by (simp add: bindE_def)

text \<open>A message without the fields leaves the tables and Redis alone, whether it is skipped or thrown back.\<close>

lemma Process_no_fields:
  assumes "nonobj_no_member J" and "message_fields J message = None"
  shows "snd (Process J U message w) = w"
proof (cases "\<exists>kvs. FromString J message = Inr (JObject kvs)")
  case True
  then obtain kvs where kvs: "FromString J message = Inr (JObject kvs)" by blast
  let ?A = "\<lambda>k. As_string J (at_key (JObject kvs) k)"
  have not_all: False if "?A ''user_id'' = Inr u" "?A ''action_type'' = Inr t" "?A ''product_id'' = Inr p"
    "?A ''idempotency_key'' = Inr k" for u t p k
    using that assms(2) kvs by (simp add: As_string_Inr at_key_def message_fields_def)
  obtain b where b: "has_members J (JObject kvs) [''user_id'', ''action_type'', ''product_id'', ''idempotency_key''] w
      = (Inr b, w)"
    using that has_members_object by metis
  show ?thesis
  proof (cases b)
    case True
    with kvs b not_all show ?thesis
      by (cases "?A ''user_id''"; cases "?A ''action_type''"; cases "?A ''product_id''";
          cases "?A ''idempotency_key''")
        (simp_all add: Process_def bindE_pure del: has_members.simps, blast)
  qed (use kvs b in \<open>simp add: Process_def del: has_members.simps\<close>)
next
  case False
  have "HasMember J json k \<noteq> Inr True" if "FromString J message = Inr json" for json k
    using False that assms(1) by (cases json) (auto simp: HasMember_def nonobj_no_member_def)
  then show ?thesis
    by (cases "FromString J message"; cases "HasMember J (projr (FromString J message)) ''user_id''")
      (auto simp: Process_def bindE_pure bindE_def)
qed

lemma message_fields_action_doc:
  "codec_ok J (action_doc p) \<Longrightarrow> message_fields J (ToString J (action_doc p)) = Some p"
  by (cases p) (simp add: message_fields_def codec_ok_def action_doc_def)

text \<open>An action processed once: the row, or the row that was there, and the caches.\<close>

definition has_row :: "action_payload \<Rightarrow> database \<Rightarrow> bool" where
  "has_row p db \<longleftrightarrow> (ap_user_id p, ap_idempotency_key p) \<in> action_key ` set (user_actions db)"

lemma insert_payload_row:
  "insert_payload p now db = (if has_row p db then (0, db) else (1, snd (insert_payload p now db)))"
  "has_row p (snd (insert_payload p now db))"
  "has_row q db \<Longrightarrow> has_row q (snd (insert_payload p now db))"
  by (auto simp: insert_payload_def kInsertUserAction_def has_row_def action_key_def)

text \<open>
  The database side of the worker under the laws of the server, with what the invalidation
  does to the tables (nothing) as a hypothesis.
\<close>

context pg_server
begin

lemma store_action_master:
  assumes "uc_pg U = c"
    and "\<And>cache u w r w'. uc_redis_cache U = Some cache \<Longrightarrow>
      redis_InvalidateAfterUserAction cache u w = (r, w') \<Longrightarrow> master w' = master w"
    and "store_action U p w = (r, w')"
  shows "master w' = master w \<or> (\<exists>now. master w' = snd (insert_payload p now (master w)))"
    and "r = Inr () \<Longrightarrow> has_row p (master w')"
proof -
  obtain n w1 where ins: "pg_insert_master c (payload_texts p) (insert_payload p) w = (n, w1)" by fastforce
  note law = insert_law [OF ins]
  have tail: "master w' = master w1 \<and> (r = Inr () \<longrightarrow> (\<exists>k. n = Inr k))"
    using assms(1,3) ins assms(2)
    by (auto simp: store_action_def bindE_def split: sum.splits if_splits option.splits)
  show "master w' = master w \<or> (\<exists>now. master w' = snd (insert_payload p now (master w)))"
    using law tail by (metis snd_conv)
  show "has_row p (master w')" if "r = Inr ()"
    using law tail that insert_payload_row(2) [of p] by (metis Inl_Inr_False snd_conv)
qed

text \<open>An action whose row is there: nothing is changed and nothing invalidated.\<close>

lemma store_action_again:
  assumes "uc_pg U = c" and "has_row p (master w)" and "store_action U p w = (r, w')"
  shows "master w' = master w \<and> pg_insert_master c (payload_texts p) (insert_payload p) w = (map_sum id (\<lambda>_. 0) r, w')"
proof -
  obtain n w1 where ins: "pg_insert_master c (payload_texts p) (insert_payload p) w = (n, w1)" by fastforce
  have zero: "insert_payload p now (master w) = (0, master w)" for now
    using insert_payload_row(1) [of p now "master w"] assms(2) by simp
  from insert_law [OF ins] have "master w1 = master w" and n: "\<And>k. n = Inr k \<Longrightarrow> k = 0"
    by (auto simp: zero)
  with assms(1,3) ins show ?thesis
    by (cases n) (auto simp: store_action_def bindE_def)
qed

end

text \<open>
  The two servers are apart: a DEL does not change the tables, an INSERT does not change what
  Redis holds.
\<close>

definition del_apart :: "('w \<Rightarrow> 'b) \<Rightarrow> 'w redis_rhythm_data \<Rightarrow> bool" where
  "del_apart f R \<longleftrightarrow> (\<forall>k w r w'. r_Del (rr_client R) k w = (r, w') \<longrightarrow> f w' = f w)"

definition insert_apart :: "('w \<Rightarrow> 'b) \<Rightarrow> 'w pg_client \<Rightarrow> bool" where
  "insert_apart f c \<longleftrightarrow> (\<forall>ts st w r w'. pg_insert_master c ts st w = (r, w') \<longrightarrow> f w' = f w)"

lemma invalidate_apart:
  assumes "del_apart f R" and "redis_InvalidateAfterUserAction R u w = (r, w')"
  shows "f w' = f w"
  using assms
  by (auto simp: del_apart_def redis_InvalidateAfterUserAction_def redis_DropFeed_def
      redis_InvalidateUserDerived_def bindE_def split: sum.splits prod.splits)

definition apart :: "('w \<Rightarrow> database) \<Rightarrow> ('w \<Rightarrow> string \<Rightarrow> cell) \<Rightarrow> 'w user_action_consumer \<Rightarrow> bool" where
  "apart master store U \<longleftrightarrow> insert_apart store (uc_pg U) \<and>
     (\<forall>R. uc_redis_cache U = Some R \<longrightarrow> del_apart master R)"

lemma apart_invalidate:
  "apart master store U \<Longrightarrow> uc_redis_cache U = Some R \<Longrightarrow>
    redis_InvalidateAfterUserAction R u w = (r, w') \<Longrightarrow> master w' = master w"
  by (auto simp: apart_def dest: invalidate_apart)

subsection \<open>Properties\<close>

text \<open>
  C16. Whatever message arrives and however its processing ends, the worker only ever appends
  to the table, at most one row per message, and no two rows share a user and an idempotency
  key if none did before.
\<close>

theorem worker_keeps_keys_unique:
  assumes "pg_server (uc_pg U) master replica db_now" and "apart master store U"
    and "nonobj_no_member J" and "keys_unique (master w)" and "Process J U message w = (r, w')"
  shows "keys_unique (master w') \<and>
    (\<exists>new. length new \<le> 1 \<and> user_actions (master w') = user_actions (master w) @ new)"
proof (cases "message_fields J message")
  case None
  with Process_no_fields [OF assms(3) None, of U w] assms(4,5) show ?thesis by simp
next
  case (Some p)
  have step: "keys_unique db \<Longrightarrow> keys_unique (snd (insert_payload p now db))"
    and grow: "\<exists>new. length new \<le> 1 \<and> user_actions (snd (insert_payload p now db)) = user_actions db @ new" for now db
    by (simp_all add: insert_payload_def insert_keys_unique) (simp add: kInsertUserAction_def)
  have frame: "master w' = master w" if "uc_redis_cache U = Some cache"
    and "redis_InvalidateAfterUserAction cache u w = (r, w')" for cache u w r w'
    using apart_invalidate [OF assms(2) that] .
  have run: "store_action U p w = (r, w')"
    using assms(5) unfolding Process_fields [OF Some] .
  have "master w' = master w \<or> (\<exists>now. master w' = snd (insert_payload p now (master w)))"
    by (rule pg_server.store_action_master(1) [OF assms(1) refl frame run])
  then show ?thesis using step grow assms(4) by fastforce
qed

text \<open>What a delivery that stores a new row does to Redis.\<close>

lemma store_action_invalidates:
  assumes "pg_server (uc_pg U) master replica db_now" and "apart master store U"
    and "uc_redis_cache U = Some R" and "redis_server (rr_client R) store srv"
    and run: "store_action U p w = (Inr (), w')" and new: "\<not> has_row p (master w)"
  shows "store w' = (store w)(FeedKey (ap_user_id p) := None,
    GptRankKey (ap_user_id p) := None, VisitLastKey (ap_user_id p) := None)"
proof -
  have "store_action U p = bindE (pg_insert_master (uc_pg U) (payload_texts p) (insert_payload p))
      (\<lambda>n. if 0 < n then redis_InvalidateAfterUserAction R (ap_user_id p) else ret ())"
    unfolding store_action_def assms(3) option.case ..
  with run obtain n w1 where ins: "pg_insert_master (uc_pg U) (payload_texts p) (insert_payload p) w = (Inr n, w1)"
    and rest: "(if 0 < n then redis_InvalidateAfterUserAction R (ap_user_id p) else ret ()) w1 = (Inr (), w')"
    by (auto elim!: bindE_InrE)
  have "0 < n"
    using pg_server.insert_law [OF assms(1) ins] insert_payload_row(1) [of p _ "master w"] new
    by (metis Inl_Inr_False less_one prod.inject sum.inject(2))
  with rest redis_server.invalidate_store [OF assms(4) refl] assms(2) ins show ?thesis
    by (auto simp: apart_def insert_apart_def)
qed

text \<open>
  C15. An acknowledged event is stored: when the processing of a message that the action
  service printed returns, the table has a row with its user and its key. If it was not
  there before and the worker is built with Redis, the user's feed, ranking and last visit
  are gone from the cache and no other key has changed.
\<close>

theorem worker_stores_and_invalidates:
  assumes "pg_server (uc_pg U) master replica db_now" and "apart master store U"
    and "uc_redis_cache U = Some R" and "redis_server (rr_client R) store srv"
    and "codec_ok J (action_doc p)" and "Process J U (ToString J (action_doc p)) w = (Inr (), w')"
  shows "has_row p (master w') \<and>
    (\<not> has_row p (master w) \<longrightarrow> store w' = (store w)(FeedKey (ap_user_id p) := None,
       GptRankKey (ap_user_id p) := None, VisitLastKey (ap_user_id p) := None))"
proof -
  have run: "store_action U p w = (Inr (), w')"
    using assms(6) Process_fields [OF message_fields_action_doc [OF assms(5)]] by metis
  have frame: "master w' = master w" if "uc_redis_cache U = Some cache"
    and "redis_InvalidateAfterUserAction cache u w = (r, w')" for cache u w r w'
    using apart_invalidate [OF assms(2) that] .
  have "has_row p (master w')"
    by (rule pg_server.store_action_master(2) [OF assms(1) refl frame run refl])
  with store_action_invalidates [OF assms(1-4) run] show ?thesis by blast
qed

text \<open>
  C33. The retry of a failed invalidation does not invalidate: if the row of the message is in
  the table, in particular because an earlier delivery stored it and then failed on Redis,
  the next delivery that returns is acknowledged with tables and cache as they are, and
  whatever feed Redis holds for the user stays.
\<close>

theorem worker_redelivery_skips_invalidation:
  assumes "pg_server (uc_pg U) master replica db_now" and "apart master store U"
    and "message_fields J message = Some p"
    and "Process J U message w = (Inl e, w1)" and "has_row p (master w1)"
    and "Process J U message w1 = (r, w2)"
  shows "master w2 = master w1 \<and> store w2 = store w1"
proof -
  have run: "store_action U p w1 = (r, w2)"
    using assms(6) unfolding Process_fields [OF assms(3)] .
  from pg_server.store_action_again [OF assms(1) refl assms(5) run] assms(2) show ?thesis
    by (auto simp: apart_def insert_apart_def)
qed

text \<open>
  C34. A message without the four text fields has no effect: if it is not JSON or lacks a field
  it is acknowledged, if a field is not a text its processing throws, every time it is
  delivered.
\<close>

theorem worker_malformed_message:
  assumes "nonobj_no_member J" and "message_fields J message = None"
  shows "snd (Process J U message w) = w \<and>
    ((\<exists>e. FromString J message = Inl e) \<longrightarrow> fst (Process J U message w) = Inr ()) \<and>
    (\<forall>kvs. FromString J message = Inr (JObject kvs) \<longrightarrow>
      (fst (Process J U message w) = Inr () \<longleftrightarrow>
        \<not> {''user_id'', ''action_type'', ''product_id'', ''idempotency_key''} \<subseteq> fst ` set kvs))"
proof (intro conjI allI impI)
  show "snd (Process J U message w) = w" by (rule Process_no_fields [OF assms])
  show "fst (Process J U message w) = Inr ()" if "\<exists>e. FromString J message = Inl e"
    using that by (auto simp: Process_def)
  fix kvs assume kvs: "FromString J message = Inr (JObject kvs)"
  show "fst (Process J U message w) = Inr () \<longleftrightarrow>
        \<not> {''user_id'', ''action_type'', ''product_id'', ''idempotency_key''} \<subseteq> fst ` set kvs"
  proof (cases "{''user_id'', ''action_type'', ''product_id'', ''idempotency_key''} \<subseteq> fst ` set kvs")
    case True
    let ?A = "\<lambda>k. As_string J (at_key (JObject kvs) k)"
    have not_all: False if "?A ''user_id'' = Inr u" "?A ''action_type'' = Inr t" "?A ''product_id'' = Inr p"
      "?A ''idempotency_key'' = Inr k" for u t p k
      using that assms(2) kvs by (simp add: As_string_Inr at_key_def message_fields_def)
    show ?thesis
      using kvs True not_all
      by (cases "?A ''user_id''"; cases "?A ''action_type''"; cases "?A ''product_id''";
          cases "?A ''idempotency_key''") (simp_all add: Process_def bindE_pure, blast)
  next
    case False
    then have hm: "has_members J (JObject kvs) [''user_id'', ''action_type'', ''product_id'', ''idempotency_key''] w =
        (Inr False, w)"
      by (simp only: has_members_object) simp
    have "fst (Process J U message w) = Inr ()"
      unfolding Process_def kvs sum.case bindE_def hm by simp
    with False show ?thesis by simp
  qed
qed

subsection \<open>An example\<close>

definition worker_at :: "user_action list \<Rightarrow> (string \<Rightarrow> cell) \<Rightarrow> (nat \<Rightarrow> fault) \<Rightarrow> nat \<Rightarrow> nat \<Rightarrow> system_world" where
  "worker_at as m fs i n = (system_at [] [] n no_broker 0)\<lparr>pg_master := \<lparr>user_actions = as, products = []\<rparr>,
     kv := m, faults := fs, commands := i, srv_clk := \<lparr>readings = (\<lambda>_. 0), pos = i\<rparr>\<rparr>"

definition worker0 :: "'x system_world_scheme user_action_consumer" where
  "worker0 = \<lparr>uc_pg = ref_pg, uc_redis_cache = Some \<lparr>rr_client = ref_redis,
     rr_visit_last_ttl = default_visit_ledger_ttl, rr_json = ref_json\<rparr>\<rparr>"

lemma worker_at_simps [simp]:
  "pg_master (worker_at as m fs i n) = \<lparr>user_actions = as, products = []\<rparr>"
  "kv (worker_at as m fs i n) = m"
  by (simp_all add: worker_at_def)

lemma worker_insert [simp]:
  "pg_insert_master ref_pg ts (kInsertUserAction u t p k) (worker_at as m fs i n) =
    (if (u, k) \<in> action_key ` set as then (Inr 0, worker_at as m fs i (Suc n))
     else (Inr 1, worker_at (as @ [\<lparr>ua_user_id = u, ua_action_type = t, ua_product_id = p,
       ua_idempotency_key = k, ua_created_at = 0\<rparr>]) m fs i (Suc n)))"
  by (simp add: ref_pg_def ref_insert_def worker_at_def system_at_def kInsertUserAction_def Let_def redis_world.defs)

lemma worker_del [simp]:
  "r_Del ref_redis key (worker_at as m fs i n) =
    (case fs i of
       No_fault \<Rightarrow> (Inr (), worker_at as (m(key := None)) fs (Suc i) n)
     | Fail_before e \<Rightarrow> (Inl e, worker_at as m fs (Suc i) n)
     | Fail_after e \<Rightarrow> (Inl e, worker_at as (m(key := None)) fs (Suc i) n))"
  by (simp add: ref_redis_def command_def worker_at_def system_at_def Let_def redis_world.defs tick_def
      split: fault.split)

lemma worker0_apart: "apart pg_master kv worker0"
  by (auto simp: apart_def insert_apart_def del_apart_def worker0_def ref_pg_def ref_insert_def ref_redis_def
      command_def Let_def split: fault.splits prod.splits)

lemma worker0_pg: "pg_server (uc_pg worker0) pg_master pg_replica pg_now"
  by (simp add: worker0_def ref_pg.pg_server_axioms)

definition stored_action :: user_action where
  "stored_action = \<lparr>ua_user_id = ''u'', ua_action_type = ''view'', ua_product_id = ''1'',
     ua_idempotency_key = ''k'', ua_created_at = 0\<rparr>"

definition view_action :: action_payload where
  "view_action = \<lparr>ap_user_id = ''u'', ap_action_type = ''view'', ap_product_id = ''1'', ap_idempotency_key = ''k''\<rparr>"

abbreviation view_message :: string where
  "view_message \<equiv> ToString ref_json (action_doc view_action)"

lemma view_fields: "message_fields ref_json view_message = Some view_action"
  by (simp add: message_fields_action_doc)

lemma Process_view:
  "Process ref_json worker0 view_message = store_action worker0 view_action"
  by (rule Process_fields [OF view_fields])

lemma store_view:
  "store_action worker0 view_action (worker_at [] m (\<lambda>_. No_fault) 0 0) =
    (Inr (), worker_at [stored_action] (m(FeedKey ''u'' := None, GptRankKey ''u'' := None, VisitLastKey ''u'' := None))
      (\<lambda>_. No_fault) 3 1)"
  "store_action worker0 view_action (worker_at [] m (\<lambda>_. Fail_before e) 0 0) =
    (Inl e, worker_at [stored_action] m (\<lambda>_. Fail_before e) 1 1)"
  "store_action worker0 view_action (worker_at [stored_action] m fs i n) =
    (Inr (), worker_at [stored_action] m fs i (Suc n))"
  by (simp_all add: store_action_def insert_payload_def worker0_def view_action_def stored_action_def bindE_def
      redis_defs numeral_3_eq_3 action_key_def)

theorem worker_keeps_keys_unique_witness:
  "\<exists>w'. Process ref_json worker0 view_message (worker_at [] Map.empty (\<lambda>_. Fail_before (Library_error ''redis'')) 0 0) =
      (Inl (Library_error ''redis''), w') \<and> keys_unique (pg_master w') \<and> user_actions (pg_master w') = [stored_action]"
  using worker_keeps_keys_unique [OF worker0_pg worker0_apart _ _
      store_view(2) [of Map.empty "Library_error ''redis''", folded Process_view]]
    store_view(2) [of Map.empty "Library_error ''redis''", folded Process_view]
  by (simp add: keys_unique_def)

theorem worker_stores_and_invalidates_witness:
  "\<exists>w'. Process ref_json worker0 view_message
      (worker_at [] [FeedKey ''u'' \<mapsto> (''x'', None)] (\<lambda>_. No_fault) 0 0) = (Inr (), w') \<and>
    has_row view_action (pg_master w') \<and> kv w' (FeedKey ''u'') = None"
  using worker_stores_and_invalidates [OF worker0_pg worker0_apart _ _ _
      store_view(1) [of "[FeedKey ''u'' \<mapsto> (''x'', None)]", folded Process_view], where srv = srv_time]
    store_view(1) [of "[FeedKey ''u'' \<mapsto> (''x'', None)]", folded Process_view]
  by (simp add: worker0_def ref_redis.redis_server_axioms has_row_def action_key_def)

theorem worker_redelivery_skips_invalidation_witness:
  "\<exists>w1 w2. let e = Library_error ''redis'' in
     Process ref_json worker0 view_message
       (worker_at [] [FeedKey ''u'' \<mapsto> (''feed'', None)] (\<lambda>_. Fail_before e) 0 0) = (Inl e, w1) \<and>
     Process ref_json worker0 view_message w1 = (Inr (), w2) \<and> kv w2 = [FeedKey ''u'' \<mapsto> (''feed'', None)]"
proof -
  let ?m = "[FeedKey ''u'' \<mapsto> (''feed'', None)]"
  let ?e = "Library_error ''redis''"
  let ?fs = "\<lambda>_. Fail_before ?e"
  note runs = store_view(2) [of ?m ?e, folded Process_view] store_view(3) [of ?m ?fs 1 1, folded Process_view]
  have "has_row view_action (pg_master (worker_at [stored_action] ?m ?fs 1 1))"
    by (simp add: has_row_def view_action_def stored_action_def action_key_def)
  from worker_redelivery_skips_invalidation [OF worker0_pg worker0_apart view_fields runs(1) this runs(2)] runs
  show ?thesis unfolding Let_def by auto
qed

theorem worker_malformed_message_witness:
  "Process ref_json worker0 (ToString ref_json (JObject [(''user_id'', JInt64 5)]))
     (worker_at [] Map.empty (\<lambda>_. No_fault) 0 0) = (Inr (), worker_at [] Map.empty (\<lambda>_. No_fault) 0 0)"
proof -
  let ?doc = "JObject [(''user_id'', JInt64 5)]"
  let ?w = "worker_at [] Map.empty (\<lambda>_. No_fault) 0 0"
  have f: "FromString ref_json (ToString ref_json ?doc) = Inr ?doc"
    using ref_json_codec_ok by (simp add: codec_ok_def)
  then have "message_fields ref_json (ToString ref_json ?doc) = None" by (simp add: message_fields_def)
  from worker_malformed_message [OF ref_json_nonobj this, of worker0 ?w] f show ?thesis
    by (simp add: prod_eq_iff)
qed

end
