(* ===== verification/Pg_Data.thy ===== *)
theory Pg_Data
  imports Pg_Server
begin

text \<open>
  \<^verbatim>\<open>src/infra/pg_rhythm_data.hpp\<close> and \<^verbatim>\<open>pg_rhythm_data.cpp\<close>: the
  product catalogue and the behaviour queries. Each SQL text is the function of the tables
  it denotes; each method is its guards, the execution and the reading of the column.
\<close>

subsection \<open>The queries\<close>

definition kRecentHistoryDays :: int where "kRecentHistoryDays = 90"
definition kPopularWindowDays :: int where "kPopularWindowDays = 30"

definition ns_of_days :: "int \<Rightarrow> time" where
  "ns_of_days d = ns_of_secs (d * 86400)"

text \<open>\<^verbatim>\<open>product_id ~ '^[0-9]+$'\<close>\<close>

definition pg_digits :: "string \<Rightarrow> bool" where
  "pg_digits s \<longleftrightarrow> s \<noteq> [] \<and> list_all is_digit s"

text \<open>\<^verbatim>\<open>CAST(product_id AS BIGINT)\<close> of such a text.\<close>

definition cast_bigint :: "string \<Rightarrow> exn + int64" where
  "cast_bigint s =
     (if dec_val s < 2 ^ 63 then Inr (of_nat (dec_val s))
      else Inl (Library_error ''value is out of range for type bigint''))"

definition listed_action :: "string \<Rightarrow> bool" where
  "listed_action t \<longleftrightarrow> t \<in> {''view'', ''purchase'', ''cart_add'', ''like'', ''save''}"

definition type_rank :: "string \<Rightarrow> int" where
  "type_rank t = (if t = ''save'' then 4 else if t = ''purchase'' then 4 else if t = ''like'' then 3
     else if t = ''cart_add'' then 2 else if t = ''view'' then 1 else 0)"

definition popular_weight :: "string \<Rightarrow> int" where
  "popular_weight t = (if t = ''save'' then 3 else if t = ''purchase'' then 3 else if t = ''like'' then 2
     else if t = ''cart_add'' then 2 else if t = ''view'' then 1 else 0)"

text \<open>The conditions both windows share, and the cast of the rows that pass.\<close>

definition in_window :: "time \<Rightarrow> int \<Rightarrow> user_action \<Rightarrow> bool" where
  "in_window now days a \<longleftrightarrow> pg_digits (ua_product_id a) \<and> listed_action (ua_action_type a) \<and>
     now - ns_of_days days \<le> ua_created_at a"

fun cast_rows :: "user_action list \<Rightarrow> exn + (int64 \<times> user_action) list" where
  "cast_rows [] = Inr []"
| "cast_rows (a # as) =
     (case cast_bigint (ua_product_id a) of
        Inl e \<Rightarrow> Inl e
      | Inr p \<Rightarrow> map_sum id (\<lambda>rs. (p, a) # rs) (cast_rows as))"

text \<open>\<^verbatim>\<open>DISTINCT ON\<close>: of the rows with one key the first.\<close>

function first_per_key :: "('k \<times> 'v) list \<Rightarrow> ('k \<times> 'v) list" where
  "first_per_key [] = []"
| "first_per_key ((k, v) # xs) = (k, v) # first_per_key (filter (\<lambda>x. fst x \<noteq> k) xs)"
  by pat_completeness auto
termination
  by (relation "measure length") (auto simp: le_imp_less_Suc)

definition pid_rows :: "int64 list \<Rightarrow> sql_row list" where
  "pid_rows ps = map (\<lambda>p. [(''pid'', SqlBigint p)]) ps"

definition latest_per_product :: "pg_plan \<Rightarrow> (int64 \<times> user_action) list \<Rightarrow> (int64 \<times> user_action) list" where
  "latest_per_product plan rows =
     first_per_key (sort_key (\<lambda>r. sint (fst r)) (sort_key (\<lambda>r. - ua_created_at (snd r)) (scan_order plan rows)))"

definition rank_rows :: "pg_plan \<Rightarrow> (int64 \<times> user_action) list \<Rightarrow> (int64 \<times> user_action) list" where
  "rank_rows plan sub =
     sort_key (\<lambda>r. - type_rank (ua_action_type (snd r)))
       (sort_key (\<lambda>r. - ua_created_at (snd r)) (sub_order plan sub))"

definition kRecentProductIds :: "string \<Rightarrow> int \<Rightarrow> int \<Rightarrow> select_stmt" where
  "kRecentProductIds user_id limit days plan now db =
     map_sum id
       (\<lambda>rows. pid_rows (take (nat limit) (map fst (rank_rows plan (latest_per_product plan rows)))))
       (cast_rows (filter (\<lambda>a. ua_user_id a = user_id \<and> in_window now days a) (user_actions db)))"

definition popular_score :: "(int64 \<times> user_action) list \<Rightarrow> int64 \<Rightarrow> int" where
  "popular_score rows p = sum_list (map (\<lambda>r. popular_weight (ua_action_type (snd r))) (filter (\<lambda>r. fst r = p) rows))"

definition popular_order :: "(int64 \<times> user_action) list \<Rightarrow> int64 list" where
  "popular_order rows =
     sort_key (\<lambda>p. - popular_score rows p) (sort_key sint (remdups (map fst rows)))"

definition kPopularProductIds :: "int \<Rightarrow> int \<Rightarrow> select_stmt" where
  "kPopularProductIds limit days plan now db =
     map_sum id (\<lambda>rows. pid_rows (take (nat limit) (popular_order rows)))
       (cast_rows (filter (in_window now days) (user_actions db)))"

text \<open>The scalar sub-select: no row is NULL, more than one row is an error.\<close>

definition anchor_category :: "database \<Rightarrow> int64 \<Rightarrow> exn + int64 option" where
  "anchor_category db anchor =
     (case filter (\<lambda>p. pr_id p = anchor) (products db) of
        [] \<Rightarrow> Inr None
      | [p] \<Rightarrow> Inr (pr_category_id p)
      | _ \<Rightarrow> Inl (Library_error ''more than one row returned by a subquery''))"

definition kCatalogNeighborIds :: "int64 \<Rightarrow> int \<Rightarrow> select_stmt" where
  "kCatalogNeighborIds anchor limit plan now db =
     map_sum id
       (\<lambda>cat. case cat of
          None \<Rightarrow> []
        | Some cat \<Rightarrow> pid_rows (take (nat limit) (sort_key sint (map pr_id
            (filter (\<lambda>p. pr_category_id p = Some cat \<and> pr_id p \<noteq> anchor) (products db))))))
       (anchor_category db anchor)"

definition kSelectProduct :: "int64 \<Rightarrow> select_stmt" where
  "kSelectProduct i plan now db =
     Inr (map (\<lambda>p. [(''id'', SqlBigint (pr_id p)), (''sku'', SqlText (pr_sku p)), (''title'', SqlText (pr_title p))])
       (filter (\<lambda>p. pr_id p = i) (products db)))"

subsection \<open>The methods\<close>

record 'w pg_rhythm_data =
  pg_cluster :: "'w pg_client"

definition As_bigint :: "sql_value option \<Rightarrow> exn + int64" where
  "As_bigint v = (case v of Some (SqlBigint x) \<Rightarrow> Inr x | _ \<Rightarrow> Inl (Library_error ''type mismatch''))"

definition As_text :: "sql_value option \<Rightarrow> exn + string" where
  "As_text v = (case v of Some (SqlText x) \<Rightarrow> Inr x | _ \<Rightarrow> Inl (Library_error ''type mismatch''))"

definition IsReasonableLimit :: "nat \<Rightarrow> bool" where
  "IsReasonableLimit limit \<longleftrightarrow> 0 < limit \<and> limit \<le> 2 ^ 31 - 1"

fun PidsFromPidColumn :: "sql_row list \<Rightarrow> (int64 list, 'w) prog" where
  "PidsFromPidColumn [] = ret []"
| "PidsFromPidColumn (row # res) =
     bindE (pure_prog (As_bigint (map_of row ''pid''))) (\<lambda>p.
     bindE (PidsFromPidColumn res) (\<lambda>out. ret (p # out)))"

definition pg_GetById :: "'w pg_rhythm_data \<Rightarrow> int64 \<Rightarrow> (product_row option, 'w) prog" where
  "pg_GetById P i =
     bindE (pg_select_slave (pg_cluster P) [] (kSelectProduct i)) (\<lambda>res.
     case res of
       [] \<Rightarrow> ret None
     | row # _ \<Rightarrow>
         bindE (pure_prog (As_bigint (map_of row ''id''))) (\<lambda>i.
         bindE (pure_prog (As_text (map_of row ''sku''))) (\<lambda>sku.
         bindE (pure_prog (As_text (map_of row ''title''))) (\<lambda>title.
         ret (Some \<lparr>row_id = i, row_sku = sku, row_title = title\<rparr>)))))"

definition pg_RecentProductIds :: "'w pg_rhythm_data \<Rightarrow> string \<Rightarrow> nat \<Rightarrow> (int64 list, 'w) prog" where
  "pg_RecentProductIds P user_id limit =
     (if \<not> IsReasonableLimit limit then ret []
      else bindE (pg_select_slave (pg_cluster P) [user_id] (kRecentProductIds user_id (int limit) kRecentHistoryDays))
        PidsFromPidColumn)"

definition pg_PopularProductIds :: "'w pg_rhythm_data \<Rightarrow> nat \<Rightarrow> (int64 list, 'w) prog" where
  "pg_PopularProductIds P limit =
     (if \<not> IsReasonableLimit limit then ret []
      else bindE (pg_select_slave (pg_cluster P) [] (kPopularProductIds (int limit) kPopularWindowDays))
        PidsFromPidColumn)"

definition pg_CatalogNeighborProductIds :: "'w pg_rhythm_data \<Rightarrow> int64 \<Rightarrow> nat \<Rightarrow> (int64 list, 'w) prog" where
  "pg_CatalogNeighborProductIds P anchor_product_id limit =
     (if \<not> IsReasonableLimit limit \<or> sint anchor_product_id \<le> 0 then ret []
      else bindE (pg_select_slave (pg_cluster P) [] (kCatalogNeighborIds anchor_product_id (int limit)))
        PidsFromPidColumn)"

definition pg_behavior_port :: "'w pg_rhythm_data \<Rightarrow> 'w behavior_port" where
  "pg_behavior_port P = \<lparr>RecentProductIds = pg_RecentProductIds P,
     PopularProductIds = pg_PopularProductIds P,
     CatalogNeighborProductIds = pg_CatalogNeighborProductIds P\<rparr>"

definition pg_catalog_port :: "'w pg_rhythm_data \<Rightarrow> 'w catalog_port" where
  "pg_catalog_port P = \<lparr>GetById = pg_GetById P\<rparr>"

lemmas pg_method_defs = pg_GetById_def pg_RecentProductIds_def pg_PopularProductIds_def
  pg_CatalogNeighborProductIds_def

declare pg_method_defs [op_defs]

subsection \<open>Lemmas on the methods\<close>

lemma PidsFromPidColumn_pid_rows [simp]: "PidsFromPidColumn (pid_rows ps) = ret ps"
  by (induction ps) (auto simp: pid_rows_def As_bigint_def fun_eq_iff bindE_def)

subsection \<open>Lemmas on the queries\<close>

definition pid_of :: "user_action \<Rightarrow> int64" where
  "pid_of a = of_nat (dec_val (ua_product_id a))"

lemma cast_rows_eq:
  "cast_rows as =
    (if \<forall>a \<in> set as. dec_val (ua_product_id a) < 2 ^ 63 then Inr (map (\<lambda>a. (pid_of a, a)) as)
     else Inl (Library_error ''value is out of range for type bigint''))"
  by (induction as) (auto simp: cast_bigint_def pid_of_def)

lemma cast_rows_Inr:
  "cast_rows as = Inr rows \<longleftrightarrow>
    (\<forall>a \<in> set as. dec_val (ua_product_id a) < 2 ^ 63) \<and> rows = map (\<lambda>a. (pid_of a, a)) as"
  by (auto simp: cast_rows_eq)

lemma first_per_key_keys: "fst ` set (first_per_key xs) = fst ` set xs"
proof (induction xs rule: first_per_key.induct)
  case (2 k v xs)
  have "fst ` set (filter (\<lambda>x. fst x \<noteq> k) xs) = fst ` set xs - {k}" by auto
  with 2 show ?case by auto
qed simp

lemma first_per_key_distinct: "distinct (map fst (first_per_key xs))"
  by (induction xs rule: first_per_key.induct) (auto simp: first_per_key_keys)

lemma first_per_key_subset: "set (first_per_key xs) \<subseteq> set xs"
  by (induction xs rule: first_per_key.induct) auto

lemma first_per_key_first:
  assumes "sorted_wrt S xs" and "(k, v) \<in> set (first_per_key xs)" and "(k, v') \<in> set xs"
  shows "v' = v \<or> S (k, v) (k, v')"
  using assms
proof (induction xs rule: first_per_key.induct)
  case (2 j w xs)
  have "sorted_wrt S (filter (\<lambda>x. fst x \<noteq> j) xs)"
    using "2.prems"(1) by (simp add: sorted_wrt_filter)
  show ?case
  proof (cases "k = j")
    case True
    with "2.prems"(2) have "v = w"
      using first_per_key_subset [of "filter (\<lambda>x. fst x \<noteq> j) xs"] by auto
    with True "2.prems"(1,3) show ?thesis by auto
  next
    case False
    with "2.IH" [OF \<open>sorted_wrt S (filter (\<lambda>x. fst x \<noteq> j) xs)\<close>] "2.prems"(2,3) show ?thesis by auto
  qed
qed simp

lemma set_scan_order [simp]: "valid_plan plan \<Longrightarrow> set (scan_order plan xs) = set xs"
  and set_sub_order [simp]: "valid_plan plan \<Longrightarrow> set (sub_order plan xs) = set xs"
  by (auto simp: valid_plan_def dest: mset_eq_setD)

lemma sort_key_trivial: "sorted_wrt (\<lambda>a b. f a \<le> f b) (sort_key (f :: 'a \<Rightarrow> int) xs)"
  using sorted_sort_key [of f xs] by (simp add: sorted_map)

lemma latest_per_product_rows:
  assumes "valid_plan plan"
  shows "distinct (map fst (latest_per_product plan rows))"
    and "fst ` set (latest_per_product plan rows) = fst ` set rows"
    and "set (latest_per_product plan rows) \<subseteq> set rows"
    and "(k, v) \<in> set (latest_per_product plan rows) \<Longrightarrow> (k, v') \<in> set rows \<Longrightarrow>
      ua_created_at v' \<le> ua_created_at v"
proof -
  let ?s = "sort_key (\<lambda>r. sint (fst r)) (sort_key (\<lambda>r. - ua_created_at (snd r)) (scan_order plan rows))"
  show "distinct (map fst (latest_per_product plan rows))"
    by (simp add: latest_per_product_def first_per_key_distinct)
  show "fst ` set (latest_per_product plan rows) = fst ` set rows"
    using assms by (simp add: latest_per_product_def first_per_key_keys)
  show "set (latest_per_product plan rows) \<subseteq> set rows"
    using assms first_per_key_subset [of ?s] by (simp add: latest_per_product_def)
  assume v: "(k, v) \<in> set (latest_per_product plan rows)" and v': "(k, v') \<in> set rows"
  have "sorted_wrt (\<lambda>a b. sint (fst a) < sint (fst b) \<or> sint (fst a) = sint (fst b) \<and>
      - ua_created_at (snd a) \<le> - ua_created_at (snd b)) ?s"
    by (rule sort_key_stable_wrt) (rule sort_key_trivial)
  from first_per_key_first [OF this] v v' assms
  have "v' = v \<or> - ua_created_at v \<le> - ua_created_at v'"
    by (fastforce simp: latest_per_product_def)
  then show "ua_created_at v' \<le> ua_created_at v" by auto
qed

text \<open>The row of higher rank, and of two with equal rank the later one, comes first.\<close>

definition ranked_action :: "user_action \<Rightarrow> user_action \<Rightarrow> bool" where
  "ranked_action a b \<longleftrightarrow> type_rank (ua_action_type b) < type_rank (ua_action_type a) \<or>
     type_rank (ua_action_type b) = type_rank (ua_action_type a) \<and> ua_created_at b \<le> ua_created_at a"

lemma sorted_rank_rows: "sorted_wrt (\<lambda>r q. ranked_action (snd r) (snd q)) (rank_rows plan sub)"
proof -
  have "sorted_wrt (\<lambda>r q. - type_rank (ua_action_type (snd r)) < - type_rank (ua_action_type (snd q)) \<or>
      - type_rank (ua_action_type (snd r)) = - type_rank (ua_action_type (snd q)) \<and>
      - ua_created_at (snd r) \<le> - ua_created_at (snd q)) (rank_rows plan sub)"
    unfolding rank_rows_def by (rule sort_key_stable_wrt) (rule sort_key_trivial)
  then show ?thesis by (rule sorted_wrt_mono_rel [rotated]) (auto simp: ranked_action_def)
qed

lemma mset_rank_rows: "valid_plan plan \<Longrightarrow> mset (rank_rows plan sub) = mset sub"
  by (simp add: rank_rows_def valid_plan_def)

lemma distinct_rank_rows:
  assumes "valid_plan plan" and "distinct (map fst sub)"
  shows "distinct (map fst (rank_rows plan sub))"
proof -
  have "mset (map fst (rank_rows plan sub)) = mset (map fst sub)"
    using mset_rank_rows [OF assms(1), of sub] by simp
  then show ?thesis using assms(2) by (metis mset_eq_imp_distinct_iff)
qed

definition popular_before :: "(int64 \<times> user_action) list \<Rightarrow> int64 \<Rightarrow> int64 \<Rightarrow> bool" where
  "popular_before rows p q \<longleftrightarrow> popular_score rows q < popular_score rows p \<or>
     popular_score rows q = popular_score rows p \<and> sint p \<le> sint q"

lemma sorted_popular_order: "sorted_wrt (popular_before rows) (popular_order rows)"
proof -
  have "sorted_wrt (\<lambda>p q. - popular_score rows p < - popular_score rows q \<or>
      - popular_score rows p = - popular_score rows q \<and> sint p \<le> sint q) (popular_order rows)"
    unfolding popular_order_def by (rule sort_key_stable_wrt) (rule sort_key_trivial)
  then show ?thesis by (rule sorted_wrt_mono_rel [rotated]) (auto simp: popular_before_def)
qed

lemma popular_order_elems [simp]:
  "set (popular_order rows) = fst ` set rows" "distinct (popular_order rows)"
  by (simp_all add: popular_order_def)

text \<open>The rows a window selects, each with its product.\<close>

definition window_rows :: "(user_action \<Rightarrow> bool) \<Rightarrow> time \<Rightarrow> int \<Rightarrow> database \<Rightarrow> (int64 \<times> user_action) list" where
  "window_rows Q now days db =
     map (\<lambda>a. (pid_of a, a)) (filter (\<lambda>a. Q a \<and> in_window now days a) (user_actions db))"

lemma kPopularProductIds_rows:
  assumes "kPopularProductIds (int limit) days plan now db = Inr res"
  shows "res = pid_rows (take limit (popular_order (window_rows (\<lambda>_. True) now days db)))"
proof -
  obtain rows where "cast_rows (filter (in_window now days) (user_actions db)) = Inr rows"
    and "res = pid_rows (take limit (popular_order rows))"
    using assms by (auto simp: kPopularProductIds_def map_sum_def split: sum.splits)
  then show ?thesis by (simp add: cast_rows_Inr window_rows_def)
qed

lemma kRecentProductIds_rows:
  assumes "kRecentProductIds u (int limit) days plan now db = Inr res"
  shows "res = pid_rows (take limit (map fst (rank_rows plan
    (latest_per_product plan (window_rows (\<lambda>a. ua_user_id a = u) now days db)))))"
proof -
  obtain rows where "cast_rows (filter (\<lambda>a. ua_user_id a = u \<and> in_window now days a) (user_actions db)) = Inr rows"
    and "res = pid_rows (take limit (map fst (rank_rows plan (latest_per_product plan rows))))"
    using assms by (auto simp: kRecentProductIds_def map_sum_def split: sum.splits)
  then show ?thesis by (simp add: cast_rows_Inr window_rows_def)
qed

definition neighbours :: "database \<Rightarrow> int64 \<Rightarrow> int64 set" where
  "neighbours db anchor = {pr_id p | p. p \<in> set (products db) \<and> pr_id p \<noteq> anchor \<and>
     pr_category_id p \<noteq> None \<and> (\<exists>a \<in> set (products db). pr_id a = anchor \<and> pr_category_id a = pr_category_id p)}"

lemma kCatalogNeighborIds_rows:
  assumes "kCatalogNeighborIds anchor (int limit) plan now db = Inr res"
  shows "\<exists>xs. res = pid_rows (take limit (sort_key sint xs)) \<and> set xs = neighbours db anchor \<and>
    (distinct (map pr_id (products db)) \<longrightarrow> distinct xs)"
proof -
  obtain cat where cat: "anchor_category db anchor = Inr cat"
    and res: "res = (case cat of None \<Rightarrow> [] | Some c \<Rightarrow> pid_rows (take limit (sort_key sint (map pr_id
        (filter (\<lambda>p. pr_category_id p = Some c \<and> pr_id p \<noteq> anchor) (products db))))))"
    using assms by (auto simp: kCatalogNeighborIds_def map_sum_def split: sum.splits)
  let ?as = "filter (\<lambda>p. pr_id p = anchor) (products db)"
  have mem: "a \<in> set (products db) \<and> pr_id a = anchor \<longleftrightarrow> a \<in> set ?as" for a by auto
  show ?thesis
  proof (cases cat)
    case None
    have "\<forall>a \<in> set ?as. pr_category_id a = None"
      using cat None by (auto simp: anchor_category_def simp del: set_filter split: list.splits)
    then have "pr_category_id a = None" if "a \<in> set (products db)" and "pr_id a = anchor" for a
      using that by simp
    then have "neighbours db anchor = {}" by (auto simp: neighbours_def)
    with None res show ?thesis by (intro exI [of _ "[]"]) (simp add: pid_rows_def)
  next
    case (Some c)
    obtain a where a: "?as = [a]" "pr_category_id a = Some c"
      using cat Some by (auto simp: anchor_category_def split: list.splits)
    let ?xs = "map pr_id (filter (\<lambda>p. pr_category_id p = Some c \<and> pr_id p \<noteq> anchor) (products db))"
    have "b = a" if "b \<in> set (products db)" and "pr_id b = anchor" for b
      using mem [of b] that a(1) by simp
    moreover have "a \<in> set (products db)" "pr_id a = anchor" using mem [of a] a(1) by simp_all
    ultimately have "(\<exists>b \<in> set (products db). pr_id b = anchor \<and> pr_category_id b = v) \<longleftrightarrow> v = Some c" for v
      using a(2) by metis
    then have "set ?xs = neighbours db anchor"
      unfolding neighbours_def by auto
    with Some res show ?thesis
      by (intro exI [of _ ?xs]) (simp add: distinct_map_filter)
  qed
qed

lemma PopularProductIds_throws:
  assumes "pg_server (pg_cluster P) master replica db_now" and "IsReasonableLimit limit"
    and "pg_PopularProductIds P limit w = (r, w')"
    and "a \<in> set (user_actions (replica w'))" and "in_window (db_now w') kPopularWindowDays a"
    and "2 ^ 63 \<le> dec_val (ua_product_id a)"
  shows "\<exists>e. r = Inl e"
proof (rule ccontr)
  assume "\<nexists>e. r = Inl e"
  then obtain ids where "r = Inr ids" by (cases r) auto
  with assms(2,3) obtain res w1 where
    sel: "pg_select_slave (pg_cluster P) [] (kPopularProductIds (int limit) kPopularWindowDays) w = (Inr res, w1)"
    and pids: "PidsFromPidColumn res w1 = (Inr ids, w')"
    by (auto simp: pg_PopularProductIds_def elim!: bindE_InrE)
  obtain plan where q: "kPopularProductIds (int limit) kPopularWindowDays plan (db_now w1) (replica w1) = Inr res"
    using pg_server.select_rows [OF assms(1) sel] by blast
  have "w1 = w'" using kPopularProductIds_rows [OF q] pids by simp
  with q assms(4-6) show False
    by (auto simp: kPopularProductIds_def cast_rows_eq map_sum_def split: if_splits)
qed

subsection \<open>Properties\<close>

text \<open>
  C23. What the popularity query answers: if it returns, the ids are the first
  \<open>limit\<close> of the products with an action of the last thirty days on the replica, by the
  sum of the weights of their actions (3 for saved and bought, 2 for liked and put into the
  cart, 1 for viewed) and then by id, each once.
\<close>

theorem popular_products_spec:
  assumes "pg_server (pg_cluster P) master replica db_now" and "IsReasonableLimit limit"
    and "pg_PopularProductIds P limit w = (Inr ids, w')"
  defines "rows \<equiv> window_rows (\<lambda>_. True) (db_now w') kPopularWindowDays (replica w')"
  shows "top_of (popular_before rows) limit (fst ` set rows) ids"
proof -
  obtain res w1 where sel: "pg_select_slave (pg_cluster P) [] (kPopularProductIds (int limit) kPopularWindowDays) w = (Inr res, w1)"
    and pids: "PidsFromPidColumn res w1 = (Inr ids, w')"
    using assms(2,3) by (auto simp: pg_PopularProductIds_def elim!: bindE_InrE)
  obtain plan where "kPopularProductIds (int limit) kPopularWindowDays plan (db_now w1) (replica w1) = Inr res"
    using pg_server.select_rows [OF assms(1) sel] by blast
  from kPopularProductIds_rows [OF this] pids have "ids = take limit (popular_order rows)"
    by (auto simp: rows_def)
  then show ?thesis
    using top_of_take [OF sorted_popular_order [of rows], of limit] by simp
qed

text \<open>
  C24. What the history query answers: if it returns, there is a latest action of the user for
  each product of the last ninety days, and the ids are the first \<open>limit\<close> of these
  products by the rank of that action (4 for saved and bought, 3 for liked, 2 for put into
  the cart, 1 for viewed) and then by its time, each once.
\<close>

theorem recent_products_spec:
  assumes "pg_server (pg_cluster P) master replica db_now" and "IsReasonableLimit limit"
    and "pg_RecentProductIds P u limit w = (Inr ids, w')"
  defines "rows \<equiv> window_rows (\<lambda>a. ua_user_id a = u) (db_now w') kRecentHistoryDays (replica w')"
  shows "\<exists>latest. (\<forall>p \<in> fst ` set rows. (p, latest p) \<in> set rows \<and>
        (\<forall>a. (p, a) \<in> set rows \<longrightarrow> ua_created_at a \<le> ua_created_at (latest p))) \<and>
      top_of (\<lambda>p q. ranked_action (latest p) (latest q)) limit (fst ` set rows) ids"
proof -
  obtain res w1 where sel: "pg_select_slave (pg_cluster P) [u] (kRecentProductIds u (int limit) kRecentHistoryDays) w = (Inr res, w1)"
    and pids: "PidsFromPidColumn res w1 = (Inr ids, w')"
    using assms(2,3) by (auto simp: pg_RecentProductIds_def elim!: bindE_InrE)
  obtain plan where plan: "valid_plan plan"
    and "kRecentProductIds u (int limit) kRecentHistoryDays plan (db_now w1) (replica w1) = Inr res"
    using pg_server.select_rows [OF assms(1) sel] by blast
  let ?sub = "latest_per_product plan rows"
  let ?ranked = "rank_rows plan ?sub"
  from kRecentProductIds_rows [OF \<open>_ = Inr res\<close>] pids have ids: "ids = take limit (map fst ?ranked)"
    by (auto simp: rows_def)
  note sub = latest_per_product_rows [OF plan, where rows = rows]
  have d: "distinct (map fst ?ranked)" and set_ranked: "set ?ranked = set ?sub"
    using distinct_rank_rows [OF plan sub(1)] mset_rank_rows [OF plan] by (auto dest: mset_eq_setD)
  define latest where "latest p = the (map_of ?sub p)" for p
  have latest: "latest (fst r) = snd r" if "r \<in> set ?sub" for r
  proof -
    have "map_of ?sub (fst r) = Some (snd r)"
      using that sub(1) by (intro map_of_is_SomeI) simp_all
    then show ?thesis by (simp add: latest_def)
  qed
  have mem: "(p, latest p) \<in> set ?sub" if "p \<in> fst ` set rows" for p
  proof -
    from that sub(2) obtain r where "r \<in> set ?sub" "fst r = p" by (metis imageE)
    with latest [of r] show ?thesis by (metis prod.collapse)
  qed
  have "sorted_wrt (\<lambda>p q. ranked_action (latest p) (latest q)) (map fst ?ranked)"
    unfolding sorted_wrt_map
    by (rule sorted_wrt_mono_rel [OF _ sorted_rank_rows]) (simp add: set_ranked latest)
  from top_of_take [OF this d, of limit] ids set_ranked sub(2)
  have "top_of (\<lambda>p q. ranked_action (latest p) (latest q)) limit (fst ` set rows) ids" by simp
  with mem sub(3,4) show ?thesis by (intro exI [of _ latest]) blast
qed

text \<open>
  C25. What the neighbour query answers: if it returns, the ids are the \<open>limit\<close> smallest
  ids of the other products of the anchor's category on the replica; the anchor is not
  among them, and an anchor that is unknown or has no category has no neighbours.
\<close>

theorem neighbour_products_spec:
  assumes "pg_server (pg_cluster P) master replica db_now" and "IsReasonableLimit limit"
    and "0 < sint anchor" and "distinct (map pr_id (products (replica w')))"
    and "pg_CatalogNeighborProductIds P anchor limit w = (Inr ids, w')"
  shows "top_of (\<lambda>p q. sint p \<le> sint q) limit (neighbours (replica w') anchor) ids \<and> anchor \<notin> set ids"
proof -
  obtain res w1 where sel: "pg_select_slave (pg_cluster P) [] (kCatalogNeighborIds anchor (int limit)) w = (Inr res, w1)"
    and pids: "PidsFromPidColumn res w1 = (Inr ids, w')"
    using assms(2,3,5) by (auto simp: pg_CatalogNeighborProductIds_def elim!: bindE_InrE)
  obtain plan where "kCatalogNeighborIds anchor (int limit) plan (db_now w1) (replica w1) = Inr res"
    using pg_server.select_rows [OF assms(1) sel] by blast
  from kCatalogNeighborIds_rows [OF this] obtain xs where
    res: "res = pid_rows (take limit (sort_key sint xs))"
    and xs: "set xs = neighbours (replica w1) anchor"
    and d: "distinct (map pr_id (products (replica w1))) \<longrightarrow> distinct xs" by blast
  have w1: "w1 = w'" and ids: "ids = take limit (sort_key sint xs)" using pids res by auto
  have "distinct (sort_key sint xs)" using d w1 assms(4) by simp
  from top_of_take [OF sort_key_trivial this, of limit] xs w1 ids
  have top: "top_of (\<lambda>p q. sint p \<le> sint q) limit (neighbours (replica w') anchor) ids" by simp
  moreover have "anchor \<notin> neighbours (replica w') anchor" by (auto simp: neighbours_def)
  ultimately show ?thesis by (auto simp: top_of_def)
qed

text \<open>
  One action poisons the popularity query for everybody: while the replica holds, in the
  window, a row of a listed type whose product id is a number of \<open>2 ^ 63\<close> or more, every
  call of \<^verbatim>\<open>PopularProductIds\<close> with a sensible limit throws.
\<close>

lemma popular_query_poisoned:
  assumes "pg_server (pg_cluster P) master replica db_now" and "IsReasonableLimit limit"
    and "pg_PopularProductIds P limit w = (r, w')"
    and "a \<in> set (user_actions (replica w'))" and "in_window (db_now w') kPopularWindowDays a"
    and "2 ^ 63 \<le> dec_val (ua_product_id a)"
  shows "\<exists>e. r = Inl e"
  using assms by (rule PopularProductIds_throws)

subsection \<open>An example\<close>

definition example_action :: "string \<Rightarrow> string \<Rightarrow> string \<Rightarrow> time \<Rightarrow> user_action" where
  "example_action u t p created = \<lparr>ua_user_id = u, ua_action_type = t, ua_product_id = p,
     ua_idempotency_key = ''k'', ua_created_at = created\<rparr>"

definition example_product :: "int64 \<Rightarrow> product" where
  "example_product i = \<lparr>pr_id = i, pr_sku = ''s'', pr_title = ''t'', pr_category_id = Some 1\<rparr>"

text \<open>The world after \<open>n\<close> executions without faults over given tables.\<close>

definition pg_at :: "user_action list \<Rightarrow> product list \<Rightarrow> nat \<Rightarrow> pg_world" where
  "pg_at as ps n = redis_world.extend \<lparr>sys_clk = \<lparr>readings = (\<lambda>_. 0), pos = 0\<rparr>,
     steady_clk = \<lparr>readings = (\<lambda>_. 0), pos = 0\<rparr>, kv = Map.empty,
     srv_clk = \<lparr>readings = (\<lambda>_. 0), pos = 0\<rparr>, faults = (\<lambda>_. No_fault), commands = 0\<rparr>
     \<lparr>pg_master = \<lparr>user_actions = as, products = ps\<rparr>,
     pg_replica = \<lparr>user_actions = as, products = ps\<rparr>, pg_sync = (\<lambda>_. True),
     pg_clock = (\<lambda>_. 0), pg_faults = (\<lambda>_. No_fault), pg_refuses = (\<lambda>_. False), pg_count = n\<rparr>"

definition pg_data0 :: "'x pg_world_scheme pg_rhythm_data" where
  "pg_data0 = \<lparr>pg_cluster = ref_pg\<rparr>"

lemma pg_at_simps [simp]:
  "pg_replica (pg_at as ps n) = \<lparr>user_actions = as, products = ps\<rparr>"
  "pg_master (pg_at as ps n) = \<lparr>user_actions = as, products = ps\<rparr>" "pg_now (pg_at as ps n) = 0"
  by (simp_all add: pg_at_def pg_now_def redis_world.defs)

lemma select_pg_at [simp]:
  "pg_select_slave ref_pg ts q (pg_at as ps n) =
    (q scan_plan 0 \<lparr>user_actions = as, products = ps\<rparr>, pg_at as ps (Suc n))"
  by (simp add: ref_pg_def ref_select_def pg_at_def Let_def redis_world.defs)

lemma pg_data0_server: "pg_server (pg_cluster pg_data0) pg_master pg_replica pg_now"
  by (simp add: pg_data0_def ref_pg.pg_server_axioms)

definition example_actions :: "user_action list" where
  "example_actions = [example_action ''u'' ''view'' ''7'' 0, example_action ''u'' ''save'' ''3'' 0]"

lemmas example_defs = example_actions_def example_action_def example_product_def
lemmas window_simps = in_window_def listed_action_def pg_digits_def is_digit_def ns_of_days_def
  kPopularWindowDays_def kRecentHistoryDays_def pid_of_def dec_val_def digit_val_def
lemmas query_simps = scan_plan_def popular_order_def popular_score_def popular_weight_def
  latest_per_product_def rank_rows_def type_rank_def

lemma example_queries:
  "kPopularProductIds 60 kPopularWindowDays scan_plan 0 \<lparr>user_actions = example_actions, products = []\<rparr> =
    Inr (pid_rows [3, 7])"
  "kRecentProductIds ''u'' 60 kRecentHistoryDays scan_plan 0
    \<lparr>user_actions = example_actions, products = []\<rparr> = Inr (pid_rows [3, 7])"
  by (simp_all add: kPopularProductIds_def kRecentProductIds_def cast_rows_eq example_defs window_simps query_simps)

theorem popular_products_spec_witness:
  "\<exists>w'. pg_PopularProductIds pg_data0 60 (pg_at example_actions [] 0) = (Inr [3, 7], w') \<and>
    top_of (popular_before [(7, example_action ''u'' ''view'' ''7'' 0), (3, example_action ''u'' ''save'' ''3'' 0)])
      60 {7, 3} [3, 7]"
proof -
  have run: "pg_PopularProductIds pg_data0 60 (pg_at example_actions [] 0) = (Inr [3, 7], pg_at example_actions [] 1)"
    by (simp add: pg_PopularProductIds_def IsReasonableLimit_def pg_data0_def bindE_def example_queries)
  show ?thesis
    using popular_products_spec [OF pg_data0_server _ run] run
    by (simp add: IsReasonableLimit_def window_rows_def example_defs window_simps)
qed

theorem recent_products_spec_witness:
  "\<exists>latest. latest (7 :: int64) = example_action ''u'' ''view'' ''7'' 0 \<and> latest 3 = example_action ''u'' ''save'' ''3'' 0 \<and>
     top_of (\<lambda>p q. ranked_action (latest p) (latest q)) 60 {7, 3} [3, 7]"
proof -
  have run: "pg_RecentProductIds pg_data0 ''u'' 60 (pg_at example_actions [] 0) =
      (Inr [3, 7], pg_at example_actions [] 1)"
    by (simp add: pg_RecentProductIds_def IsReasonableLimit_def pg_data0_def bindE_def example_queries)
  have rows: "window_rows (\<lambda>a. ua_user_id a = ''u'') 0 kRecentHistoryDays \<lparr>user_actions = example_actions, products = []\<rparr> =
      [(7, example_action ''u'' ''view'' ''7'' 0), (3, example_action ''u'' ''save'' ''3'' 0)]"
    by (simp add: window_rows_def example_defs window_simps)
  show ?thesis
    using recent_products_spec [OF pg_data0_server _ run] rows
    by (auto simp: IsReasonableLimit_def)
qed

theorem neighbour_products_spec_witness:
  "\<exists>w'. pg_CatalogNeighborProductIds pg_data0 4 60 (pg_at [] (map example_product [9, 4, 2]) 0) = (Inr [2, 9], w') \<and>
    top_of (\<lambda>p q. sint p \<le> sint q) 60 (neighbours \<lparr>user_actions = [], products = map example_product [9, 4, 2]\<rparr> 4)
      [2, 9] \<and> 4 \<notin> set [2, 9 :: int64]"
proof -
  have run: "pg_CatalogNeighborProductIds pg_data0 4 60 (pg_at [] (map example_product [9, 4, 2]) 0) =
      (Inr [2, 9], pg_at [] (map example_product [9, 4, 2]) 1)"
    by (simp add: pg_CatalogNeighborProductIds_def IsReasonableLimit_def pg_data0_def bindE_def
        kCatalogNeighborIds_def anchor_category_def example_product_def)
  show ?thesis
    using neighbour_products_spec [OF pg_data0_server _ _ _ run] run
    by (simp add: IsReasonableLimit_def example_product_def)
qed


end
