(* ===== verification/Recommendation_Service.thy ===== *)
theory Recommendation_Service
  imports Ports Ttl_Policy "HOL-Library.AList" "HOL-Library.Multiset"
begin

text \<open>
  \<^verbatim>\<open>src/services/recommendation_service.hpp\<close> and
  \<^verbatim>\<open>recommendation_service.cpp\<close>: collecting the four sources through the side
  caches, the weighted merge, the cut and the feed cache around them.
\<close>

subsection \<open>The service\<close>

record 'w recommendation_service =
  rs_cache :: "'w cache_port"
  rs_side_cache :: "'w side_port"
  rs_gpt :: "'w gpt_port"
  rs_behavior :: "'w behavior_port"
  rs_visits :: "'w visit_port"

definition RecommendationService ::
  "'w cache_port \<Rightarrow> 'w side_port \<Rightarrow> 'w gpt_port \<Rightarrow> 'w behavior_port \<Rightarrow> 'w visit_port \<Rightarrow> 'w recommendation_service" where
  [simp]: "RecommendationService cache side_cache gpt behavior visits =
     \<lparr>rs_cache = cache, rs_side_cache = side_cache, rs_gpt = gpt, rs_behavior = behavior, rs_visits = visits\<rparr>"

record recommendation_sources =
  src_history :: "int64 list"
  src_popular :: "int64 list"
  src_gpt_ranked :: "int64 list"
  src_similar :: "int64 list"

definition WeightHistory :: int32 where "WeightHistory = 3"
definition WeightPopular :: int32 where "WeightPopular = 2"
definition WeightGpt :: int32 where "WeightGpt = 4"
definition WeightSimilar :: int32 where "WeightSimilar = 3"

lemmas weight_defs = WeightHistory_def WeightPopular_def WeightGpt_def WeightSimilar_def

subsection \<open>Collecting the sources\<close>

definition fetch_popular :: "'w recommendation_service \<Rightarrow> (int64 list, 'w) prog" where
  "fetch_popular S =
     bindE (TryGetPopularGlobal (rs_side_cache S)) (\<lambda>cached.
     case cached of
       Some ids \<Rightarrow> ret ids
     | None \<Rightarrow>
         bindE (PopularProductIds (rs_behavior S) 120) (\<lambda>ids.
         bindE (PutPopularGlobal (rs_side_cache S) ids kPopularProductsTtl) (\<lambda>_. ret ids)))"

definition fetch_gpt :: "'w recommendation_service \<Rightarrow> string \<Rightarrow> (int64 list, 'w) prog" where
  "fetch_gpt S user_id =
     bindE (TryGetGptRanked (rs_side_cache S) user_id) (\<lambda>cached.
     case cached of
       Some ids \<Rightarrow> ret ids
     | None \<Rightarrow>
         bindE (RankProductIds (rs_gpt S) user_id kGptRecommendationIds) (\<lambda>ids.
         bindE (PutGptRanked (rs_side_cache S) user_id ids kGptRankingTtl) (\<lambda>_. ret ids)))"

text \<open>The anchor of the similar products; 0 stands for none.\<close>

definition similar_anchor :: "int64 list \<Rightarrow> int64 list \<Rightarrow> int64" where
  "similar_anchor history popular =
     (case history of
        x # _ \<Rightarrow> x
      | [] \<Rightarrow> (case popular of x # _ \<Rightarrow> x | [] \<Rightarrow> 0))"

definition fetch_similar :: "'w recommendation_service \<Rightarrow> int64 \<Rightarrow> (int64 list, 'w) prog" where
  "fetch_similar S anchor =
     (if anchor = 0 then ret []
      else
        bindE (TryGetSimilar (rs_side_cache S) anchor) (\<lambda>cached.
        case cached of
          Some ids \<Rightarrow> ret ids
        | None \<Rightarrow>
            bindE (CatalogNeighborProductIds (rs_behavior S) anchor 60) (\<lambda>similar.
            bindE (if similar = [] then PopularProductIds (rs_behavior S) 60 else ret similar) (\<lambda>similar.
            bindE (PutSimilar (rs_side_cache S) anchor similar kSimilarProductsTtl) (\<lambda>_.
            ret similar)))))"

definition FetchSources :: "'w recommendation_service \<Rightarrow> string \<Rightarrow> (recommendation_sources, 'w) prog" where
  "FetchSources S user_id =
     bindE (RecentProductIds (rs_behavior S) user_id 120) (\<lambda>history.
     bindE (fetch_popular S) (\<lambda>popular.
     bindE (fetch_gpt S user_id) (\<lambda>gpt_ranked.
     bindE (fetch_similar S (similar_anchor history popular)) (\<lambda>similar.
     ret \<lparr>src_history = history, src_popular = popular, src_gpt_ranked = gpt_ranked,
          src_similar = similar\<rparr>))))"

subsection \<open>The weighted merge\<close>

text \<open>
  The hash map from ids to scores as a list of pairs in order of first insertion. In what
  order \<^verbatim>\<open>std::unordered_map\<close> is walked is up to the library: it is the argument
  \<open>iter\<close> of the merge, some rearrangement of the pairs.
\<close>

type_synonym score_map = "(int64 \<times> int32) list"

definition score_at :: "score_map \<Rightarrow> int64 \<Rightarrow> int32" where
  "score_at m i = (case map_of m i of None \<Rightarrow> 0 | Some s \<Rightarrow> s)"

definition score_add :: "int32 \<Rightarrow> int64 \<Rightarrow> score_map \<Rightarrow> score_map" where
  "score_add w i m = AList.update i (score_at m i + w) m"

fun add_all :: "int64 list \<Rightarrow> int32 \<Rightarrow> score_map \<Rightarrow> score_map" where
  "add_all [] w m = m"
| "add_all (i # vec) w m = add_all vec w (score_add w i m)"

definition merge_scores :: "recommendation_sources \<Rightarrow> score_map" where
  "merge_scores s =
     add_all (src_similar s) WeightSimilar
       (add_all (src_gpt_ranked s) WeightGpt
         (add_all (src_popular s) WeightPopular
           (add_all (src_history s) WeightHistory [])))"

text \<open>
  The comparison handed to \<^verbatim>\<open>std::sort\<close>: higher score first, then the smaller id,
  both signed. It is a strict total order, so it makes the items a \<open>linorder\<close> and the
  library's \<open>sort\<close> the model of \<^verbatim>\<open>std::sort\<close>.
\<close>

datatype item = Item (item_id: int64) (item_score: int32)

definition item_before :: "item \<Rightarrow> item \<Rightarrow> bool" where
  "item_before a b =
     (if item_score a \<noteq> item_score b then sint (item_score a) > sint (item_score b)
      else sint (item_id a) < sint (item_id b))"

instantiation item :: linorder
begin

definition less_item :: "item \<Rightarrow> item \<Rightarrow> bool" where
  "less_item a b = item_before a b"

definition less_eq_item :: "item \<Rightarrow> item \<Rightarrow> bool" where
  "less_eq_item a b \<longleftrightarrow> item_before a b \<or> a = b"

instance
proof
  have eqI: "a = b" if "item_score a = item_score b" "item_id a = item_id b" for a b :: item
    using that by (cases a; cases b) simp
  fix a b c :: item
  show "a < b \<longleftrightarrow> a \<le> b \<and> \<not> b \<le> a"
    by (auto simp: less_item_def less_eq_item_def item_before_def)
  show "a \<le> a" by (simp add: less_eq_item_def)
  show "a \<le> b \<Longrightarrow> b \<le> c \<Longrightarrow> a \<le> c"
    by (auto simp: less_eq_item_def item_before_def split: if_splits)
  show "a \<le> b \<Longrightarrow> b \<le> a \<Longrightarrow> a = b"
    by (auto simp: less_eq_item_def item_before_def split: if_splits)
  have sint_neq: "sint x < sint y \<or> sint y < sint x" if "x \<noteq> y" for x y :: "'w::len word"
    using that by (metis neq_iff signed_word_eqI)
  show "a \<le> b \<or> b \<le> a"
    using eqI [of a b] sint_neq [of "item_score a" "item_score b"] sint_neq [of "item_id a" "item_id b"]
    by (auto simp: less_eq_item_def item_before_def)
qed

end

definition FanOutMerge :: "(item list \<Rightarrow> item list) \<Rightarrow> recommendation_sources \<Rightarrow> int64 list" where
  "FanOutMerge iter s =
     (let score = merge_scores s;
          items = iter (map (\<lambda>(i, w). Item i w) score)
      in map item_id (sort items))"

definition TakeTop :: "int64 list \<Rightarrow> nat \<Rightarrow> int64 list" where
  "TakeTop ranked limit = (if length ranked \<le> limit then ranked else take limit ranked)"

subsection \<open>The request\<close>

definition rebuild_feed ::
  "(item list \<Rightarrow> item list) \<Rightarrow> 'w recommendation_service \<Rightarrow> string \<Rightarrow> (int64 list, 'w) prog" where
  "rebuild_feed iter S user_id =
     bindE (FetchSources S user_id) (\<lambda>sources.
     let merged = FanOutMerge iter sources;
         top_ranked = TakeTop merged kGptRecommendationIds
     in bindE (PutFeed (rs_cache S) user_id top_ranked kFeedKeyTtl) (\<lambda>_.
        ret (TakeTop top_ranked kFeedListSize)))"

definition GetRecommendations ::
  "(item list \<Rightarrow> item list) \<Rightarrow> 'x clocks_scheme recommendation_service \<Rightarrow> string \<Rightarrow>
   (int64 list, 'x clocks_scheme) prog" where
  "GetRecommendations iter S user_id =
     bindE (LastSeenUtc (rs_visits S) user_id) (\<lambda>prev_seen.
     bindE (ShouldInvalidateFeed_call prev_seen) (\<lambda>invalidate.
     bindE (if invalidate then DropFeed (rs_cache S) user_id else ret ()) (\<lambda>_.
     bindE (MarkSeenUtc (rs_visits S) user_id) (\<lambda>_.
     bindE (TryGetFeed (rs_cache S) user_id) (\<lambda>cached.
     case cached of
       Some entry \<Rightarrow>
         bindE (ClassifyVisit_call prev_seen) (\<lambda>recency.
         bindE (TouchFeed (rs_cache S) user_id (ExtendFeedTtlOnHit recency)) (\<lambda>_.
         ret (TakeTop (product_ids entry) kFeedListSize)))
     | None \<Rightarrow> rebuild_feed iter S user_id)))))"

subsection \<open>The scores\<close>

lemma score_at_add: "score_at (score_add w i m) j = (if j = i then score_at m i + w else score_at m j)"
  by (simp add: score_at_def score_add_def update_conv')

lemma score_at_Nil [simp]: "score_at [] i = 0"
  by (simp add: score_at_def)

lemma keys_score_add: "fst ` set (score_add w i m) = insert i (fst ` set m)"
  unfolding score_add_def by (simp add: dom_map_of_conv_image_fst [symmetric] update_conv')

lemma distinct_score_add: "distinct (map fst m) \<Longrightarrow> distinct (map fst (score_add w i m))"
  by (simp add: score_add_def distinct_update)

lemma score_at_add_all: "score_at (add_all vec w m) j = score_at m j + of_nat (count_list vec j) * w"
  by (induction vec w m rule: add_all.induct) (auto simp: score_at_add algebra_simps)

lemma keys_add_all: "fst ` set (add_all vec w m) = set vec \<union> fst ` set m"
  by (induction vec w m rule: add_all.induct) (auto simp: keys_score_add)

lemma distinct_add_all: "distinct (map fst m) \<Longrightarrow> distinct (map fst (add_all vec w m))"
  by (induction vec w m rule: add_all.induct) (auto simp: distinct_score_add)

definition source_ids :: "recommendation_sources \<Rightarrow> int64 set" where
  "source_ids s = set (src_history s) \<union> set (src_popular s) \<union> set (src_gpt_ranked s) \<union> set (src_similar s)"

text \<open>The score the merge is after: over the integers, each occurrence with the weight of its source.\<close>

definition weight :: "recommendation_sources \<Rightarrow> int64 \<Rightarrow> int" where
  "weight s i = 3 * int (count_list (src_history s) i) + 2 * int (count_list (src_popular s) i) +
     4 * int (count_list (src_gpt_ranked s) i) + 3 * int (count_list (src_similar s) i)"

definition source_length :: "recommendation_sources \<Rightarrow> nat" where
  "source_length s = length (src_history s) + length (src_popular s) + length (src_gpt_ranked s) +
     length (src_similar s)"

lemma keys_merge_scores: "fst ` set (merge_scores s) = source_ids s"
  by (auto simp: merge_scores_def keys_add_all source_ids_def)

lemma distinct_merge_scores: "distinct (map fst (merge_scores s))"
  by (simp add: merge_scores_def distinct_add_all)

lemma score_merge_scores: "score_at (merge_scores s) i = of_int (weight s i)"
  by (simp add: merge_scores_def score_at_add_all weight_def weight_defs algebra_simps)

lemma weight_bounds: "0 \<le> weight s i" "weight s i \<le> 4 * int (source_length s)"
  using count_le_length [of "src_history s" i] count_le_length [of "src_popular s" i]
    count_le_length [of "src_gpt_ranked s" i] count_le_length [of "src_similar s" i]
  by (simp_all add: weight_def source_length_def)

text \<open>Below \<open>2 ^ 29\<close> ids in all, the 32-bit score does not overflow.\<close>

lemma sint_score:
  assumes "source_length s < 2 ^ 29"
  shows "sint (of_int (weight s i) :: int32) = weight s i"
proof -
  have "weight s i < 2 ^ 31"
    using weight_bounds(2) [of s i] assms by simp
  then show ?thesis
    using weight_bounds(1) [of s i] by (simp add: signed_of_int signed_take_bit_int_eq_self)
qed

lemma score_map_item:
  assumes "(i, w) \<in> set (merge_scores s)"
  shows "w = of_int (weight s i)" and "i \<in> source_ids s"
proof -
  have "map_of (merge_scores s) i = Some w"
    using assms distinct_merge_scores by simp
  then show "w = of_int (weight s i)"
    using score_merge_scores [of s i] by (simp add: score_at_def)
  show "i \<in> source_ids s" using assms keys_merge_scores [of s] by force
qed

subsection \<open>The order of the merge\<close>

definition ranked_before :: "recommendation_sources \<Rightarrow> int64 \<Rightarrow> int64 \<Rightarrow> bool" where
  "ranked_before s i j \<longleftrightarrow> weight s i > weight s j \<or> weight s i = weight s j \<and> sint i < sint j"

abbreviation merge_items :: "recommendation_sources \<Rightarrow> item list" where
  "merge_items s \<equiv> map (\<lambda>(i, w). Item i w) (merge_scores s)"

lemma item_id_merge_items: "map item_id (merge_items s) = map fst (merge_scores s)"
  by (simp add: case_prod_beta)

lemma FanOutMerge_iter:
  assumes "\<And>xs. mset (iter xs) = mset xs"
  shows "FanOutMerge iter s = map item_id (sort (merge_items s))"
proof -
  have "sort (iter (merge_items s)) = sort (merge_items s)"
    using assms by (intro properties_for_sort) simp_all
  then show ?thesis by (simp add: FanOutMerge_def Let_def)
qed

lemma distinct_merge_items: "distinct (map item_id (sort (merge_items s)))"
proof -
  have "distinct (map item_id (merge_items s))"
    unfolding item_id_merge_items by (rule distinct_merge_scores)
  then show ?thesis
    by (metis distinct_map distinct_sort set_sort)
qed

lemma set_merge_items: "set (map item_id (sort (merge_items s))) = source_ids s"
  using item_id_merge_items [of s] keys_merge_scores [of s]
  by (metis list.set_map set_sort)

lemma strict_sorted_merge_items: "sorted_wrt (<) (sort (merge_items s))"
proof -
  have "distinct (sort (merge_items s))"
    using distinct_merge_items by (rule distinct_map [THEN iffD1, THEN conjunct1])
  then show ?thesis by (simp add: strict_sorted_iff)
qed

lemma sorted_merge:
  assumes "source_length s < 2 ^ 29"
  shows "sorted_wrt (ranked_before s) (map item_id (sort (merge_items s)))"
proof -
  have before: "ranked_before s (item_id a) (item_id b)"
    if "a \<in> set (merge_items s)" and "b \<in> set (merge_items s)" and "a < b" for a b
  proof -
    have "item_score a = of_int (weight s (item_id a))" "item_score b = of_int (weight s (item_id b))"
      using that(1,2) score_map_item(1) by fastforce+
    then have "sint (item_score a) = weight s (item_id a)" "sint (item_score b) = weight s (item_id b)"
      using sint_score [OF assms] by simp_all
    then show ?thesis
      using that(3) unfolding less_item_def item_before_def ranked_before_def
      by (metis signed_word_eqI)
  qed
  show ?thesis
    unfolding sorted_wrt_map
    by (rule sorted_wrt_mono_rel [OF _ strict_sorted_merge_items]) (rule before; simp)
qed

lemma ranked_before_total:
  "i \<noteq> j \<Longrightarrow> ranked_before s i j \<or> ranked_before s j i"
  unfolding ranked_before_def by (metis linorder_neqE signed_word_eqI)

lemma ranked_before_asym: "ranked_before s i j \<Longrightarrow> \<not> ranked_before s j i"
  by (auto simp: ranked_before_def)

lemma transp_ranked_before: "transp (ranked_before s)"
  by (rule transpI) (auto simp: ranked_before_def)

text \<open>A list in the order of \<open>ranked_before\<close> is determined by its elements.\<close>

lemma ranked_unique:
  assumes "sorted_wrt (ranked_before s) xs" and "sorted_wrt (ranked_before s) ys" and "set xs = set ys"
  shows "xs = ys"
  using assms
proof (induction xs arbitrary: ys)
  case (Cons x xs)
  then obtain y zs where ys: "ys = y # zs" by (cases ys) auto
  have "x = y"
    using Cons.prems ys ranked_before_asym by (metis insert_iff list.simps(15) sorted_wrt.simps(2))
  moreover have "x \<notin> set xs" and "y \<notin> set zs"
    using Cons.prems(1,2) ys ranked_before_asym by fastforce+
  ultimately have "set xs = set zs"
    using Cons.prems(3) ys by (simp add: insert_ident)
  with Cons.IH [of zs] Cons.prems(1,2) ys \<open>x = y\<close> show ?case by simp
qed simp

lemma TakeTop_take [simp]: "TakeTop xs n = take n xs"
  by (simp add: TakeTop_def)

text \<open>What a feed is cached as: at most a hundred ids, each once.\<close>

definition good_feed :: "int64 list \<Rightarrow> bool" where
  "good_feed ids \<longleftrightarrow> distinct ids \<and> length ids \<le> kGptRecommendationIds"

lemma good_feed_merge:
  assumes "\<And>xs. mset (iter xs) = mset xs"
  shows "good_feed (TakeTop (FanOutMerge iter s) kGptRecommendationIds)"
  using distinct_merge_items [of s] by (simp add: good_feed_def FanOutMerge_iter [OF assms])

lemma GetRecommendations_length:
  assumes "GetRecommendations iter S u w = (Inr ids, w')"
  shows "length ids \<le> kFeedListSize"
  using assms
  by (auto simp: GetRecommendations_def rebuild_feed_def Let_def elim!: bindE_InrE split: option.splits)

subsection \<open>What the service relies on\<close>

text \<open>
  \<open>keeps cached m\<close>: the program \<open>m\<close> may lose feeds of the cache (they expire), but
  neither adds nor changes one.
\<close>

definition keeps :: "('w \<Rightarrow> string \<rightharpoonup> int64 list) \<Rightarrow> ('a, 'w) prog \<Rightarrow> bool" where
  "keeps cached m \<longleftrightarrow> (\<forall>w r w'. m w = (r, w') \<longrightarrow> cached w' \<subseteq>\<^sub>m cached w)"

lemma keepsD: "keeps cached m \<Longrightarrow> m w = (r, w') \<Longrightarrow> cached w' \<subseteq>\<^sub>m cached w"
  by (simp add: keeps_def)

lemma keeps_ret [simp, intro]: "keeps cached (ret x)" "keeps cached (throw e)" "keeps cached (pure_prog r)"
  by (simp_all add: keeps_def)

lemma keeps_bindE [intro]:
  assumes "keeps cached m" and "\<And>x. keeps cached (f x)"
  shows "keeps cached (bindE m f)"
proof (unfold keeps_def, intro allI impI)
  fix w r w' assume r: "bindE m f w = (r, w')"
  obtain x w1 where m: "m w = (x, w1)" by fastforce
  show "cached w' \<subseteq>\<^sub>m cached w"
  proof (cases x)
    case (Inl e)
    with r m keepsD [OF assms(1) m] show ?thesis by simp
  next
    case (Inr y)
    with r m have "f y w1 = (r, w')" by simp
    from map_le_trans [OF keepsD [OF assms(2) this] keepsD [OF assms(1) m]] show ?thesis .
  qed
qed

lemma keeps_try_catch:
  assumes "keeps cached m" and "\<And>e. keeps cached (h e)"
  shows "keeps cached (try_catch m h)"
proof (unfold keeps_def, intro allI impI)
  fix w r w' assume r: "try_catch m h w = (r, w')"
  obtain x w1 where m: "m w = (x, w1)" by fastforce
  show "cached w' \<subseteq>\<^sub>m cached w"
    using r m keepsD [OF assms(1) m] map_le_trans [OF keepsD [OF assms(2)] keepsD [OF assms(1) m]]
    by (cases x) auto
qed

lemma keeps_if [intro]: "keeps cached m \<Longrightarrow> keeps cached n \<Longrightarrow> keeps cached (if b then m else n)"
  by simp

lemma keeps_option [intro]:
  "keeps cached m \<Longrightarrow> (\<And>x. keeps cached (f x)) \<Longrightarrow>
    keeps cached (case v of None \<Rightarrow> m | Some x \<Rightarrow> f x)"
  by (cases v) auto

locale recommend_ports =
  fixes S :: "'x clocks_scheme recommendation_service"
    and cached :: "'x clocks_scheme \<Rightarrow> string \<rightharpoonup> int64 list"
  assumes clock_frame: "cached (w\<lparr>sys_clk := c\<rparr>) = cached w"
    and visit_frame: "keeps cached (LastSeenUtc (rs_visits S) u)" "keeps cached (MarkSeenUtc (rs_visits S) u)"
    and side_get_frame: "keeps cached (TryGetPopularGlobal (rs_side_cache S))"
      "keeps cached (TryGetGptRanked (rs_side_cache S) u)" "keeps cached (TryGetSimilar (rs_side_cache S) a)"
    and side_put_frame: "keeps cached (PutPopularGlobal (rs_side_cache S) ids kPopularProductsTtl)"
      "keeps cached (PutGptRanked (rs_side_cache S) u ids kGptRankingTtl)"
      "keeps cached (PutSimilar (rs_side_cache S) a ids kSimilarProductsTtl)"
    and source_frame: "keeps cached (RecentProductIds (rs_behavior S) u n)"
      "keeps cached (PopularProductIds (rs_behavior S) n)"
      "keeps cached (CatalogNeighborProductIds (rs_behavior S) a n)"
      "keeps cached (RankProductIds (rs_gpt S) u n)"
    and feed_frame: "keeps cached (TryGetFeed (rs_cache S) u)" "keeps cached (DropFeed (rs_cache S) u)"
      "0 \<le> ext \<Longrightarrow> keeps cached (TouchFeed (rs_cache S) u ext)"
    and get_feed: "TryGetFeed (rs_cache S) u w = (Inr (Some e), w') \<Longrightarrow> cached w u = Some (product_ids e)"
    and drop_feed: "DropFeed (rs_cache S) u w = (Inr (), w') \<Longrightarrow> cached w' u = None"
    and put_feed: "PutFeed (rs_cache S) u ids kFeedKeyTtl w = (rp, w') \<Longrightarrow>
      cached w' \<subseteq>\<^sub>m (cached w)(u \<mapsto> ids) \<or> cached w' \<subseteq>\<^sub>m cached w"
begin

lemma keeps_ttl_calls:
  "keeps cached (ShouldInvalidateFeed_call v)" "keeps cached (ClassifyVisit_call v)"
  unfolding keeps_def
  using ShouldInvalidateFeed_call_run [of v] ClassifyVisit_call_run [of v] clock_frame
  by (metis Pair_inject map_le_refl)+

lemmas frames = visit_frame side_get_frame side_put_frame source_frame feed_frame keeps_ttl_calls

lemma keeps_FetchSources: "keeps cached (FetchSources S u)"
  unfolding FetchSources_def fetch_popular_def fetch_gpt_def fetch_similar_def
  by (intro keeps_bindE keeps_option keeps_if keeps_ret frames)

text \<open>Every feed in the cache is a good one.\<close>

definition feeds_good :: "'x clocks_scheme \<Rightarrow> bool" where
  "feeds_good w \<longleftrightarrow> (\<forall>u ids. cached w u = Some ids \<longrightarrow> good_feed ids)"

lemma feeds_good_le: "cached w' \<subseteq>\<^sub>m cached w \<Longrightarrow> feeds_good w \<Longrightarrow> feeds_good w'"
  unfolding feeds_good_def map_le_def by (metis domI)

lemma feeds_good_keeps: "keeps cached m \<Longrightarrow> ensures feeds_good m (\<lambda>_. True)"
  by (rule ensuresI) (blast intro: feeds_good_le keepsD)

lemma feeds_good_get:
  "ensures feeds_good (TryGetFeed (rs_cache S) u) (\<lambda>r. \<forall>e. r = Some e \<longrightarrow> good_feed (product_ids e))"
proof (rule ensuresI)
  fix w r w' assume I: "feeds_good w" and r: "TryGetFeed (rs_cache S) u w = (r, w')"
  have "feeds_good w'" by (rule feeds_good_le [OF keepsD [OF feed_frame(1) r] I])
  moreover have "good_feed (product_ids e)" if "r = Inr (Some e)" for e
    using get_feed [OF r [unfolded that]] I by (simp add: feeds_good_def)
  ultimately show "feeds_good w' \<and> (\<forall>x. r = Inr x \<longrightarrow> (\<forall>e. x = Some e \<longrightarrow> good_feed (product_ids e)))"
    by simp
qed

lemma feeds_good_put:
  assumes "good_feed ids"
  shows "ensures feeds_good (PutFeed (rs_cache S) u ids kFeedKeyTtl) (\<lambda>_. True)"
proof (rule ensuresI)
  fix w r w' assume I: "feeds_good w" and r: "PutFeed (rs_cache S) u ids kFeedKeyTtl w = (r, w')"
  have "good_feed xs" if "cached w' v = Some xs" for v xs
  proof -
    have "((cached w)(u \<mapsto> ids)) v = Some xs \<or> cached w v = Some xs"
      using put_feed [OF r] that by (metis domI map_le_def)
    then show ?thesis using I assms by (auto simp: feeds_good_def split: if_splits)
  qed
  then show "feeds_good w' \<and> (\<forall>x. r = Inr x \<longrightarrow> True)" by (simp add: feeds_good_def)
qed

lemma rebuild_feed_good:
  assumes "\<And>xs. mset (iter xs) = mset xs"
  shows "ensures feeds_good (rebuild_feed iter S u) distinct"
  unfolding rebuild_feed_def Let_def
proof (rule ensures_seq [OF feeds_good_keeps [OF keeps_FetchSources]])
  fix src
  have g: "good_feed (TakeTop (FanOutMerge iter src) kGptRecommendationIds)"
    by (rule good_feed_merge [OF assms])
  then have d: "distinct (TakeTop (TakeTop (FanOutMerge iter src) kGptRecommendationIds) kFeedListSize)"
    unfolding good_feed_def TakeTop_take by (blast intro: distinct_take)
  show "ensures feeds_good
      (bindE (PutFeed (rs_cache S) u (TakeTop (FanOutMerge iter src) kGptRecommendationIds) kFeedKeyTtl)
        (\<lambda>_. ret (TakeTop (TakeTop (FanOutMerge iter src) kGptRecommendationIds) kFeedListSize))) distinct"
    by (rule ensures_seq [OF feeds_good_put [OF g]]) (rule ensures_ret, rule d)
qed

text \<open>Every request keeps the cached feeds good and answers no id twice.\<close>

lemma GetRecommendations_good:
  assumes "\<And>xs. mset (iter xs) = mset xs"
  shows "ensures feeds_good (GetRecommendations iter S u) distinct"
  unfolding GetRecommendations_def
proof (rule ensures_seq [OF feeds_good_keeps [OF visit_frame(1)]],
    rule ensures_seq [OF feeds_good_keeps [OF keeps_ttl_calls(1)]],
    rule ensures_seq [OF feeds_good_keeps [OF keeps_if [OF feed_frame(2) keeps_ret(1)]]],
    rule ensures_seq [OF feeds_good_keeps [OF visit_frame(2)]],
    rule ensures_bindE [OF feeds_good_get])
  fix prev r
  assume good: "\<forall>e. r = Some e \<longrightarrow> good_feed (product_ids e)"
  show "ensures feeds_good (case r of
       Some entry \<Rightarrow>
         bindE (ClassifyVisit_call prev) (\<lambda>recency.
         bindE (TouchFeed (rs_cache S) u (ExtendFeedTtlOnHit recency)) (\<lambda>_.
         ret (TakeTop (product_ids entry) kFeedListSize)))
     | None \<Rightarrow> rebuild_feed iter S u) distinct"
  proof (cases r)
    case None
    then show ?thesis using rebuild_feed_good [OF assms] by simp
  next
    case (Some e)
    with good have d: "distinct (TakeTop (product_ids e) kFeedListSize)"
      by (simp add: good_feed_def)
    have "ensures feeds_good (bindE (ClassifyVisit_call prev) (\<lambda>recency.
        bindE (TouchFeed (rs_cache S) u (ExtendFeedTtlOnHit recency)) (\<lambda>_.
        ret (TakeTop (product_ids e) kFeedListSize)))) distinct"
      by (rule ensures_seq [OF feeds_good_keeps [OF keeps_ttl_calls(2)]],
          rule ensures_seq [OF feeds_good_keeps [OF feed_frame(3) [OF ExtendFeedTtlOnHit_nonneg]]])
        (rule ensures_ret, rule d)
    with Some show ?thesis by simp
  qed
qed

text \<open>
  A visitor whose last visit lies a day back, or who was never seen, gets a feed built for
  this request: what the cache held is not served.
\<close>

lemma stale_visitor_rebuilds:
  assumes "LastSeenUtc (rs_visits S) u w = (Inr prev, w1)"
    and "ShouldInvalidateFeed (peek (sys_clk w1)) prev"
    and "GetRecommendations iter S u w = (Inr ids, w')"
  shows "\<exists>w2. cached w2 u = None \<and> rebuild_feed iter S u w2 = (Inr ids, w')"
proof -
  obtain c where "ShouldInvalidateFeed_call prev w1 = (Inr True, w1\<lparr>sys_clk := c\<rparr>)"
    using ShouldInvalidateFeed_call_run [of prev w1] assms(2) by auto
  with assms(1,3) obtain w2 w3 w4 r where d: "DropFeed (rs_cache S) u (w1\<lparr>sys_clk := c\<rparr>) = (Inr (), w2)"
    and m: "MarkSeenUtc (rs_visits S) u w2 = (Inr (), w3)"
    and g: "TryGetFeed (rs_cache S) u w3 = (Inr r, w4)"
    and rest: "r = None \<Longrightarrow> rebuild_feed iter S u w4 = (Inr ids, w')"
    unfolding GetRecommendations_def by (elim bindE_InrE) (fastforce simp: bindE_Inr_iff)
  have none3: "cached w3 u = None"
    using keepsD [OF visit_frame(2) m] drop_feed [OF d] by (metis domIff map_le_def)
  then have "r = None" using get_feed [of u w3 _ w4] g by (cases r) auto
  moreover have "cached w4 u = None"
    using keepsD [OF feed_frame(1) g] none3 by (metis domIff map_le_def)
  ultimately show ?thesis using rest by auto
qed

text \<open>
  A visitor seen less than a day ago whose feed is in the cache is served from it: neither
  the sources nor the merge run, and the cached feed is only extended.
\<close>

lemma recent_visitor_hit:
  assumes "LastSeenUtc (rs_visits S) u w = (Inr prev, w1)"
    and "\<not> ShouldInvalidateFeed (peek (sys_clk w1)) prev"
    and "\<And>w2. MarkSeenUtc (rs_visits S) u (w1\<lparr>sys_clk := w2\<rparr>) = (Inr (), m w2)"
    and "\<And>w2. TryGetFeed (rs_cache S) u (m w2) = (Inr (Some e), g w2)"
    and "GetRecommendations iter S u w = (Inr ids, w')"
  shows "ids = TakeTop (product_ids e) kFeedListSize \<and> cached w' \<subseteq>\<^sub>m cached w"
proof -
  obtain c where c: "ShouldInvalidateFeed_call prev w1 = (Inr False, w1\<lparr>sys_clk := c\<rparr>)"
    using ShouldInvalidateFeed_call_run [of prev w1] assms(2) by auto
  from assms(5) assms(1,3,4) c obtain r w5 where r: "ClassifyVisit_call prev (g c) = (Inr r, w5)"
    and t: "TouchFeed (rs_cache S) u (ExtendFeedTtlOnHit r) w5 = (Inr (), w')"
    and ids: "ids = TakeTop (product_ids e) kFeedListSize"
    unfolding GetRecommendations_def by (elim bindE_InrE) (auto simp: bindE_Inr_iff)
  have "cached w' \<subseteq>\<^sub>m cached w5" by (rule keepsD [OF feed_frame(3) t]) simp
  also have "cached w5 \<subseteq>\<^sub>m cached (g c)" by (rule keepsD [OF keeps_ttl_calls(2) r])
  also have "cached (g c) \<subseteq>\<^sub>m cached (m c)" by (rule keepsD [OF feed_frame(1) assms(4)])
  also have "cached (m c) \<subseteq>\<^sub>m cached (w1\<lparr>sys_clk := c\<rparr>)" by (rule keepsD [OF visit_frame(2) assms(3)])
  also have "cached (w1\<lparr>sys_clk := c\<rparr>) = cached w1" by (rule clock_frame)
  also have "cached w1 \<subseteq>\<^sub>m cached w" by (rule keepsD [OF visit_frame(1) assms(1)])
  finally show ?thesis using ids by simp
qed

end

subsection \<open>Properties\<close>

text \<open>
  C17. The merge computes the specified ranking: over fewer than \<open>2 ^ 29\<close> ids in all,
  where the 32-bit scores do not overflow, its result is the one list that holds exactly the
  ids of the four sources, ordered by the weighted number of occurrences (3 for history, 2
  for popular, 4 for the ranking, 3 for similar products) and then by id, in whatever order
  the hash map is walked.
\<close>

theorem FanOutMerge_characterised:
  assumes "\<And>xs. mset (iter xs) = mset xs" and "source_length s < 2 ^ 29"
  shows "FanOutMerge iter s = xs \<longleftrightarrow> set xs = source_ids s \<and> sorted_wrt (ranked_before s) xs"
proof
  assume "FanOutMerge iter s = xs"
  then have "xs = map item_id (sort (merge_items s))" using FanOutMerge_iter [OF assms(1)] by simp
  then show "set xs = source_ids s \<and> sorted_wrt (ranked_before s) xs"
    using sorted_merge [OF assms(2)] set_merge_items by metis
next
  assume "set xs = source_ids s \<and> sorted_wrt (ranked_before s) xs"
  then have "map item_id (sort (merge_items s)) = xs"
    using ranked_unique [OF sorted_merge [OF assms(2)]] set_merge_items by blast
  then show "FanOutMerge iter s = xs" using FanOutMerge_iter [OF assms(1)] by simp
qed

theorem FanOutMerge_characterised_witness:
  "FanOutMerge rev \<lparr>src_history = [1], src_popular = [2], src_gpt_ranked = [1, 3],
     src_similar = [10]\<rparr> = [1, 3, 10, 2]"
proof (rule FanOutMerge_characterised [THEN iffD2])
  show "mset (rev xs) = mset xs" for xs :: "item list" by simp
qed (simp_all add: source_length_def source_ids_def ranked_before_def weight_def insert_commute)

end
