(* ===== verification/Product_Service.thy ===== *)
theory Product_Service
  imports Ports Json_Model
begin

text \<open>
  \<^verbatim>\<open>src/services/product_service.hpp\<close> and
  \<^verbatim>\<open>product_service.cpp\<close>: the document of a product in the catalogue.
\<close>

record 'w product_service =
  ps_catalog :: "'w catalog_port"

definition ProductService :: "'w catalog_port \<Rightarrow> 'w product_service" where
  [simp]: "ProductService catalog = \<lparr>ps_catalog = catalog\<rparr>"

definition product_doc :: "product_row \<Rightarrow> json" where
  "product_doc row = JObject
     [(''id'', JInt64 (row_id row)), (''sku'', JString (row_sku row)), (''title'', JString (row_title row))]"

definition GetProductJson :: "'w product_service \<Rightarrow> int64 \<Rightarrow> (json option, 'w) prog" where
  "GetProductJson S i =
     bindE (GetById (ps_catalog S) i) (\<lambda>row.
     case row of
       None \<Rightarrow> ret None
     | Some row \<Rightarrow> ret (Some (product_doc row)))"

text \<open>The document determines the row.\<close>

lemma product_doc_inj: "product_doc r = product_doc r' \<longleftrightarrow> r = r'"
  by (cases r; cases r') (simp add: product_doc_def)

end
