(* ===== verification/Handlers.thy ===== *)
theory Handlers
  imports Action_Service Recommendation_Service Product_Service
begin

text \<open>
  The HTTP handlers of \<^verbatim>\<open>src/handlers/\<close>. A handler turns a request into a
  response; what it throws is left to the server framework, which is not part of the
  repository.
\<close>

subsection \<open>Requests and responses\<close>

text \<open>
  \<open>GetHeader\<close> and \<open>GetArg\<close> answer the empty string for what the request does not
  carry.
\<close>

record http_request =
  hr_header :: "string \<rightharpoonup> string"
  hr_arg :: "string \<rightharpoonup> string"
  hr_body :: string

definition GetHeader :: "http_request \<Rightarrow> string \<Rightarrow> string" where
  "GetHeader r name = (case hr_header r name of None \<Rightarrow> [] | Some v \<Rightarrow> v)"

definition GetArg :: "http_request \<Rightarrow> string \<Rightarrow> string" where
  "GetArg r name = (case hr_arg r name of None \<Rightarrow> [] | Some v \<Rightarrow> v)"

datatype http_status = kOk | kAccepted | kBadRequest | kNotFound

record http_response =
  rsp_status :: http_status
  rsp_content_type :: string
  rsp_body :: string

definition reply :: "http_status \<Rightarrow> string \<Rightarrow> http_response" where
  "reply st body = \<lparr>rsp_status = st, rsp_content_type = ''application/json'', rsp_body = body\<rparr>"

lemma reply_simps [simp]:
  "rsp_status (reply st b) = st" "rsp_body (reply st b) = b"
  "rsp_content_type (reply st b) = ''application/json''"
  by (simp_all add: reply_def)

subsection \<open>POST /action\<close>

definition action_payload_of :: "json_lib \<Rightarrow> json \<Rightarrow> string \<Rightarrow> (action_payload, 'w) prog" where
  "action_payload_of J json key =
     bindE (pure_prog (JsonFieldAsString J json ''user_id'')) (\<lambda>user_id.
     bindE (pure_prog (JsonFieldAsString J json ''action_type'')) (\<lambda>action_type.
     bindE (pure_prog (JsonFieldAsString J json ''product_id'')) (\<lambda>product_id.
     ret \<lparr>ap_user_id = user_id, ap_action_type = action_type, ap_product_id = product_id,
          ap_idempotency_key = key\<rparr>)))"

definition ActionHandler_HandleRequestThrow ::
  "json_lib \<Rightarrow> 'w action_service \<Rightarrow> http_request \<Rightarrow> (http_response, 'w) prog" where
  "ActionHandler_HandleRequestThrow J S req =
     (let idempotency_key = TrimCopy (GetHeader req ''Idempotency-Key'')
      in if idempotency_key = [] then ret (reply kBadRequest (JsonError J ''missing_idempotency_key''))
         else if 256 < length idempotency_key
         then ret (reply kBadRequest (JsonError J ''idempotency_key_too_long''))
         else
           let body = hr_body req
           in if body = [] then ret (reply kBadRequest (JsonError J ''empty_body''))
              else case FromString J body of
                Inl e \<Rightarrow> ret (reply kBadRequest (JsonError J ''invalid_json''))
              | Inr json \<Rightarrow>
                  try_catch
                    (bindE (action_payload_of J json idempotency_key) (\<lambda>payload.
                     bindE (HandleAction J S payload) (\<lambda>r.
                     ret (reply kAccepted (JsonActionAccepted J (r = Duplicate))))))
                    (\<lambda>e. ret (reply kBadRequest (JsonError J (what e)))))"

subsection \<open>GET /recommend\<close>

definition items_doc :: "int64 list \<Rightarrow> json" where
  "items_doc items = JObject [(''items'', ids_json items)]"

definition RecommendHandler_HandleRequestThrow ::
  "json_lib \<Rightarrow> (item list \<Rightarrow> item list) \<Rightarrow> 'x clocks_scheme recommendation_service \<Rightarrow> http_request \<Rightarrow>
   (http_response, 'x clocks_scheme) prog" where
  "RecommendHandler_HandleRequestThrow J iter S req =
     (let user_id = GetArg req ''user_id''
      in if user_id = [] then ret (reply kBadRequest (JsonError J ''missing_user_id''))
         else bindE (GetRecommendations iter S user_id) (\<lambda>items.
              ret (reply kOk (ToString J (items_doc items)))))"

subsection \<open>GET /product\<close>

definition ProductHandler_HandleRequestThrow ::
  "json_lib \<Rightarrow> 'w product_service \<Rightarrow> http_request \<Rightarrow> (http_response, 'w) prog" where
  "ProductHandler_HandleRequestThrow J S req =
     (let id_raw = GetArg req ''id''
      in if id_raw = [] then ret (reply kBadRequest (JsonError J ''missing_query_id''))
         else case stoll id_raw of
           Inl e \<Rightarrow> ret (reply kBadRequest (JsonError J ''invalid_id''))
         | Inr i \<Rightarrow>
             bindE (GetProductJson S i) (\<lambda>doc.
             case doc of
               None \<Rightarrow> ret (reply kNotFound (JsonError J ''not_found''))
             | Some doc \<Rightarrow> ret (reply kOk (ToString J doc))))"

subsection \<open>Lemmas\<close>

text \<open>What the payload of a request is, if it has one.\<close>

definition json_payload :: "json_lib \<Rightarrow> json \<Rightarrow> string \<Rightarrow> exn + action_payload" where
  "json_payload J json key = fst (action_payload_of J json key ())"

lemma action_payload_of_run: "action_payload_of J json key w = (json_payload J json key, w)"
  unfolding json_payload_def action_payload_of_def bindE_def pure_prog_def ret_def
  by (simp split: sum.split)

lemma json_payload_key: "json_payload J json key = Inr p \<Longrightarrow> ap_idempotency_key p = key"
  unfolding json_payload_def action_payload_of_def bindE_def pure_prog_def ret_def
  by (auto split: sum.splits)

definition request_key :: "http_request \<Rightarrow> string" where
  "request_key req = TrimCopy (GetHeader req ''Idempotency-Key'')"

definition request_payload :: "json_lib \<Rightarrow> http_request \<Rightarrow> action_payload option" where
  "request_payload J req =
     (if request_key req = [] \<or> 256 < length (request_key req) \<or> hr_body req = [] then None
      else case FromString J (hr_body req) of
        Inl e \<Rightarrow> None
      | Inr json \<Rightarrow>
          (case json_payload J json (request_key req) of Inl e \<Rightarrow> None | Inr p \<Rightarrow> Some p))"

text \<open>Without a payload the handler answers 400 and does nothing.\<close>

lemma ActionHandler_no_payload:
  assumes "request_payload J req = None"
  shows "\<exists>b. ActionHandler_HandleRequestThrow J S req w = (Inr (reply kBadRequest b), w)"
proof (cases "request_key req = [] \<or> 256 < length (request_key req) \<or> hr_body req = []")
  case True
  then show ?thesis
    by (auto simp: ActionHandler_HandleRequestThrow_def Let_def request_key_def)
next
  case False
  then show ?thesis
    using assms
    by (cases "FromString J (hr_body req)"; cases "json_payload J (projr (FromString J (hr_body req))) (request_key req)")
      (auto simp: ActionHandler_HandleRequestThrow_def Let_def request_payload_def
        action_payload_of_run try_catch_def bindE_def simp flip: request_key_def)
qed

lemma ActionHandler_payload:
  assumes "request_payload J req = Some p"
  shows "ActionHandler_HandleRequestThrow J S req w =
    (case HandleAction J S p w of
       (Inl e, w') \<Rightarrow> (Inr (reply kBadRequest (JsonError J (what e))), w')
     | (Inr r, w') \<Rightarrow> (Inr (reply kAccepted (JsonActionAccepted J (r = Duplicate))), w'))"
proof -
  obtain json where "FromString J (hr_body req) = Inr json"
    and "json_payload J json (request_key req) = Inr p"
    and "request_key req \<noteq> []" "\<not> 256 < length (request_key req)" "hr_body req \<noteq> []"
    using assms by (auto simp: request_payload_def split: sum.splits if_splits)
  then show ?thesis
    by (simp add: ActionHandler_HandleRequestThrow_def Let_def
        action_payload_of_run try_catch_def bindE_def flip: request_key_def split: prod.split sum.split)
qed

lemma request_payload_key:
  assumes "request_payload J req = Some p"
  shows "ap_idempotency_key p = request_key req \<and> 0 < length (request_key req) \<and>
    length (request_key req) \<le> 256"
  using assms by (auto simp: request_payload_def dest: json_payload_key split: sum.splits if_splits)

lemma ActionHandler_status:
  assumes "ActionHandler_HandleRequestThrow J S req w = (r, w')"
  shows "\<exists>rsp. r = Inr rsp \<and> rsp_status rsp \<in> {kAccepted, kBadRequest} \<and> rsp_content_type rsp = ''application/json''"
proof (cases "request_payload J req")
  case None
  with ActionHandler_no_payload [of J req S w] assms show ?thesis by fastforce
next
  case (Some p)
  with ActionHandler_payload [OF this, of S w] assms show ?thesis
    by (auto split: prod.splits sum.splits)
qed

subsection \<open>Properties\<close>

text \<open>
  C27. The status tells what the service did: 202 is answered exactly when the request
  carries a key of 1 to 256 characters after trimming and a JSON body with the three fields,
  the payload passes validation, and the reservation and, for a new key, the publication
  went through; the body then says whether the key was a duplicate.
\<close>

theorem action_handler_accepts_iff:
  "ActionHandler_HandleRequestThrow J S req w = (Inr (reply kAccepted b), w') \<longleftrightarrow>
   (\<exists>p r. request_payload J req = Some p \<and> HandleAction J S p w = (Inr r, w') \<and>
      b = JsonActionAccepted J (r = Duplicate))"
proof (cases "request_payload J req")
  case None
  with ActionHandler_no_payload [of J req S w] show ?thesis by (auto simp: reply_def)
next
  case (Some p)
  with ActionHandler_payload [OF this, of S w] show ?thesis
    by (auto simp: reply_def split: prod.splits sum.splits)
qed

text \<open>
  \<^verbatim>\<open>GET /product\<close> reads the digits at the start of the id and ignores
  whatever follows them: any text that does not start with a digit may be appended to the
  decimal form of an id without changing the response or the effects.
\<close>

lemma product_id_ignores_trailing:
  assumes "hr_arg req ''id'' = Some (to_string_i64 i @ garbage)"
    and "hr_arg req' ''id'' = Some (to_string_i64 i)"
    and "\<forall>c r. garbage = c # r \<longrightarrow> \<not> is_digit c"
  shows "ProductHandler_HandleRequestThrow J S req = ProductHandler_HandleRequestThrow J S req'"
proof -
  have "stoll (to_string_i64 i @ garbage) = Inr i"
    using stoll_int_to_string_append [OF _ _ assms(3), of "sint i"] sint_i64_range [of i]
    by (simp add: to_string_i64_def)
  moreover have "to_string_i64 i \<noteq> []" by (simp add: to_string_i64_def int_to_string_def)
  ultimately show ?thesis
    using assms(1,2) by (simp add: fun_eq_iff ProductHandler_HandleRequestThrow_def GetArg_def stoll_to_string_i64)
qed


text \<open>
  For an id in decimal the product handler is the catalogue: 200 with a document that
  determines the row if the catalogue has one, 404 if it has none, and what the catalogue
  throws goes to the framework.
\<close>

lemma product_handler_catalogue:
  assumes "hr_arg req ''id'' = Some (to_string_i64 i)"
  shows "ProductHandler_HandleRequestThrow J S req w =
    (case GetById (ps_catalog S) i w of
       (Inl e, w') \<Rightarrow> (Inl e, w')
     | (Inr None, w') \<Rightarrow> (Inr (reply kNotFound (JsonError J ''not_found'')), w')
     | (Inr (Some row), w') \<Rightarrow> (Inr (reply kOk (ToString J (product_doc row))), w'))"
proof -
  have "to_string_i64 i \<noteq> []" by (simp add: to_string_i64_def int_to_string_def)
  then show ?thesis
    using assms
    by (simp add: ProductHandler_HandleRequestThrow_def GetArg_def stoll_to_string_i64
        GetProductJson_def bindE_def split: prod.split sum.split option.split)
qed


end
