(* ===== verification/App_Wiring.thy ===== *)
theory App_Wiring
  imports Worker Pg_Data Handlers
begin

text \<open>
  How the binaries are put together: \<^verbatim>\<open>src/app/component_bootstrap.cpp\<close>,
  \<^verbatim>\<open>src/app/port_resolution.cpp\<close>, \<^verbatim>\<open>src/main.cpp\<close> and
  \<^verbatim>\<open>src/workers/worker_main.cpp\<close>, for each choice of the build flags, and the
  constructors that look their dependencies up.
\<close>

subsection \<open>Component lists\<close>

record build_flags =
  with_postgres :: bool
  with_redis :: bool
  with_rabbitmq :: bool

text \<open>The types of the components; the first six are the framework's.\<close>

datatype component_type = DnsClient | Secdist | DefaultSecdistProvider | Postgres | Redis | RabbitMQ
  | PgRhythmData | RedisRhythmData | RabbitMqEventPublisher
  | ActionHandler | RecommendHandler | ProductHandler | UserActionConsumer

type_synonym component_list = "(component_type \<times> string) list"

text \<open>
  The name under which a component is registered without an explicit one: its
  \<^verbatim>\<open>kName\<close>. \<open>framework_name\<close> stands for the names of the framework's own.
\<close>

fun kName :: "(component_type \<Rightarrow> string) \<Rightarrow> component_type \<Rightarrow> string" where
  "kName framework_name PgRhythmData = ''rhythm-pg-data''"
| "kName framework_name RedisRhythmData = ''rhythm-redis-data''"
| "kName framework_name RabbitMqEventPublisher = ''rhythm-event-publisher''"
| "kName framework_name ActionHandler = ''handler-action''"
| "kName framework_name RecommendHandler = ''handler-recommend''"
| "kName framework_name ProductHandler = ''handler-product''"
| "kName framework_name UserActionConsumer = ''user-action-consumer''"
| "kName framework_name c = framework_name c"

definition Append :: "(component_type \<Rightarrow> string) \<Rightarrow> component_type \<Rightarrow> component_list \<Rightarrow> component_list" where
  "Append fw c cl = cl @ [(c, kName fw c)]"

definition Append_named :: "component_type \<Rightarrow> string \<Rightarrow> component_list \<Rightarrow> component_list" where
  "Append_named c name cl = cl @ [(c, name)]"

definition AppendRhythmInfrastructure ::
  "(component_type \<Rightarrow> string) \<Rightarrow> build_flags \<Rightarrow> component_list \<Rightarrow> component_list" where
  "AppendRhythmInfrastructure fw flags cl =
     (let cl = (if with_rabbitmq flags \<or> with_redis flags \<or> with_postgres flags
                then Append fw DefaultSecdistProvider (Append fw Secdist (Append fw DnsClient cl)) else cl);
          cl = (if with_postgres flags
                then Append fw PgRhythmData (Append_named Postgres ''rhythm-pg'' cl) else cl);
          cl = (if with_redis flags
                then Append fw RedisRhythmData (Append_named Redis ''rhythm-redis'' cl) else cl)
      in if with_rabbitmq flags
         then Append fw RabbitMqEventPublisher (Append_named RabbitMQ ''rhythm-rabbit'' cl) else cl)"

text \<open>\<^verbatim>\<open>main\<close>, over the framework's minimal list.\<close>

definition main_components :: "(component_type \<Rightarrow> string) \<Rightarrow> component_list \<Rightarrow> build_flags \<Rightarrow> component_list" where
  "main_components fw minimal flags =
     Append fw ProductHandler (Append fw RecommendHandler (Append fw ActionHandler
       (AppendRhythmInfrastructure fw flags minimal)))"

text \<open>The worker's \<^verbatim>\<open>main\<close>; \<open>worker_with_redis\<close> is \<^verbatim>\<open>RHYTHM_WORKER_WITH_REDIS\<close>.\<close>

definition worker_components :: "(component_type \<Rightarrow> string) \<Rightarrow> component_list \<Rightarrow> bool \<Rightarrow> component_list" where
  "worker_components fw minimal worker_with_redis =
     (let cl = Append_named RabbitMQ ''rhythm-rabbit'' (Append_named Postgres ''rhythm-pg''
                 (Append fw DnsClient (Append fw DefaultSecdistProvider (Append fw Secdist minimal))));
          cl = (if worker_with_redis
                then Append fw RedisRhythmData (Append_named Redis ''rhythm-redis'' cl) else cl)
      in Append fw UserActionConsumer cl)"

subsection \<open>Looking components up\<close>

text \<open>\<open>FindComponent\<close> throws if no component of that type has that name.\<close>

definition FindComponent :: "component_list \<Rightarrow> component_type \<Rightarrow> string \<Rightarrow> exn + unit" where
  "FindComponent cl c name =
     (if (c, name) \<in> set cl then Inr () else Inl (Library_error (''component not found: '' @ name)))"

definition found :: "exn + unit \<Rightarrow> 'a \<Rightarrow> exn + 'a" where
  "found r x = map_sum id (\<lambda>_. x) r"

text \<open>The objects behind the components and behind \<^verbatim>\<open>GlobalBeans()\<close>.\<close>

record 'w bean_ports =
  bp_cache :: "'w cache_port"
  bp_side :: "'w side_port"
  bp_idempotency :: "'w idempotency_port"
  bp_event_queue :: "'w queue_port"
  bp_product_catalog :: "'w catalog_port"
  bp_gpt :: "'w gpt_port"
  bp_behavior_store :: "'w behavior_port"
  bp_visit_ledger :: "'w visit_port"

record 'w process =
  pc_fw :: "component_type \<Rightarrow> string"
  pc_list :: component_list
  pc_beans :: "'w bean_ports"
  pc_pg :: "'w pg_rhythm_data"
  pc_redis :: "'w redis_rhythm_data"
  pc_rabbit :: "'w rabbit_publisher"

definition find_kName :: "'w process \<Rightarrow> component_type \<Rightarrow> exn + unit" where
  "find_kName P c = FindComponent (pc_list P) c (kName (pc_fw P) c)"

definition RedisBacking :: "'w process \<Rightarrow> exn + 'w redis_rhythm_data" where
  "RedisBacking P = found (find_kName P RedisRhythmData) (pc_redis P)"

definition EventQueue :: "build_flags \<Rightarrow> 'w process \<Rightarrow> exn + 'w queue_port" where
  "EventQueue flags P =
     (if with_rabbitmq flags
      then found (find_kName P RabbitMqEventPublisher) (rabbit_queue_port (pc_rabbit P))
      else Inr (bp_event_queue (pc_beans P)))"

definition Idempotency :: "build_flags \<Rightarrow> 'w process \<Rightarrow> exn + 'w idempotency_port" where
  "Idempotency flags P =
     (if with_redis flags then map_sum id redis_idempotency_port (RedisBacking P)
      else Inr (bp_idempotency (pc_beans P)))"

definition RecommendationCache :: "build_flags \<Rightarrow> 'w process \<Rightarrow> exn + 'w cache_port" where
  "RecommendationCache flags P =
     (if with_redis flags then map_sum id redis_cache_port (RedisBacking P)
      else Inr (bp_cache (pc_beans P)))"

definition SideRecommendationCache :: "build_flags \<Rightarrow> 'w process \<Rightarrow> exn + 'w side_port" where
  "SideRecommendationCache flags P =
     (if with_redis flags then map_sum id redis_side_port (RedisBacking P)
      else Inr (bp_side (pc_beans P)))"

definition VisitLedgerPort ::
  "build_flags \<Rightarrow> 'x clocks_scheme process \<Rightarrow> exn + 'x clocks_scheme visit_port" where
  "VisitLedgerPort flags P =
     (if with_redis flags then map_sum id redis_visit_port (RedisBacking P)
      else Inr (bp_visit_ledger (pc_beans P)))"

definition GptRecommend :: "'w process \<Rightarrow> 'w gpt_port" where
  "GptRecommend P = bp_gpt (pc_beans P)"

definition BehaviorStore :: "build_flags \<Rightarrow> 'w process \<Rightarrow> exn + 'w behavior_port" where
  "BehaviorStore flags P =
     (if with_postgres flags then found (find_kName P PgRhythmData) (pg_behavior_port (pc_pg P))
      else Inr (bp_behavior_store (pc_beans P)))"

definition ProductCatalog :: "build_flags \<Rightarrow> 'w process \<Rightarrow> exn + 'w catalog_port" where
  "ProductCatalog flags P =
     (if with_postgres flags then found (find_kName P PgRhythmData) (pg_catalog_port (pc_pg P))
      else Inr (bp_product_catalog (pc_beans P)))"

lemmas port_defs = EventQueue_def Idempotency_def RecommendationCache_def
  SideRecommendationCache_def VisitLedgerPort_def GptRecommend_def BehaviorStore_def
  ProductCatalog_def RedisBacking_def find_kName_def FindComponent_def found_def

subsection \<open>Constructors\<close>

definition bindS :: "exn + 'a \<Rightarrow> ('a \<Rightarrow> exn + 'b) \<Rightarrow> exn + 'b" where
  "bindS m f = (case m of Inl e \<Rightarrow> Inl e | Inr x \<Rightarrow> f x)"

lemma bindS_simps [simp]: "bindS (Inl e) f = Inl e" "bindS (Inr x) f = f x"
  by (simp_all add: bindS_def)

definition ActionHandler_service :: "build_flags \<Rightarrow> 'w process \<Rightarrow> exn + 'w action_service" where
  "ActionHandler_service flags P =
     bindS (EventQueue flags P) (\<lambda>queue.
     bindS (Idempotency flags P) (\<lambda>idempotency.
     Inr (ActionService queue idempotency)))"

definition RecommendHandler_service ::
  "build_flags \<Rightarrow> 'x clocks_scheme process \<Rightarrow> exn + 'x clocks_scheme recommendation_service" where
  "RecommendHandler_service flags P =
     bindS (RecommendationCache flags P) (\<lambda>cache.
     bindS (SideRecommendationCache flags P) (\<lambda>side_cache.
     bindS (BehaviorStore flags P) (\<lambda>behavior.
     bindS (VisitLedgerPort flags P) (\<lambda>visits.
     Inr (RecommendationService cache side_cache (GptRecommend P) behavior visits)))))"

definition ProductHandler_service :: "build_flags \<Rightarrow> 'w process \<Rightarrow> exn + 'w product_service" where
  "ProductHandler_service flags P =
     bindS (ProductCatalog flags P) (\<lambda>catalog. Inr (ProductService catalog))"

text \<open>The look-ups of the components behind the ports, from their configuration sections.\<close>

definition PgRhythmData_deps :: "component_list \<Rightarrow> config \<Rightarrow> exn + unit" where
  "PgRhythmData_deps cl cfg = FindComponent cl Postgres (cfg_As_default cfg ''postgres_name'' ''rhythm-pg'')"

definition RedisRhythmData_deps :: "component_list \<Rightarrow> config \<Rightarrow> exn + unit" where
  "RedisRhythmData_deps cl cfg = FindComponent cl Redis (cfg_As_default cfg ''redis_component'' ''rhythm-redis'')"

definition RabbitMqEventPublisher_deps :: "component_list \<Rightarrow> config \<Rightarrow> exn + unit" where
  "RabbitMqEventPublisher_deps cl cfg =
     bindS (cfg_As cfg ''rabbit_name'') (FindComponent cl RabbitMQ)"

definition UserActionConsumer_deps :: "bool \<Rightarrow> component_list \<Rightarrow> config \<Rightarrow> exn + unit" where
  "UserActionConsumer_deps worker_with_redis cl cfg =
     bindS (cfg_As cfg ''postgres_name'') (\<lambda>pg.
     bindS (FindComponent cl Postgres pg) (\<lambda>_.
     if worker_with_redis
     then FindComponent cl RedisRhythmData (cfg_As_default cfg ''redis_cache_component'' ''rhythm-redis-data'')
     else Inr ()))"

lemmas deps_defs = PgRhythmData_deps_def RedisRhythmData_deps_def RabbitMqEventPublisher_deps_def
  UserActionConsumer_deps_def

lemmas list_defs = Append_def Append_named_def AppendRhythmInfrastructure_def main_components_def
  worker_components_def

subsection \<open>Properties\<close>

text \<open>
  C38. For each of the eight builds the constructors of the three handlers find everything
  they look up, and the services they build sit on the ports of the flags: Redis for cache,
  side caches, tokens and visits, Postgres for behaviour and catalogue, Rabbit for events, the
  in-process objects for what is switched off and always for the ranking.
\<close>

theorem main_wiring:
  assumes "pc_list P = main_components (pc_fw P) minimal flags"
  shows "ActionHandler_service flags P = Inr
      \<lparr>as_queue = (if with_rabbitmq flags then rabbit_queue_port (pc_rabbit P) else bp_event_queue (pc_beans P)),
       as_idempotency = (if with_redis flags then redis_idempotency_port (pc_redis P)
         else bp_idempotency (pc_beans P))\<rparr> \<and>
    RecommendHandler_service flags P = Inr
      \<lparr>rs_cache = (if with_redis flags then redis_cache_port (pc_redis P) else bp_cache (pc_beans P)),
       rs_side_cache = (if with_redis flags then redis_side_port (pc_redis P) else bp_side (pc_beans P)),
       rs_gpt = bp_gpt (pc_beans P),
       rs_behavior = (if with_postgres flags then pg_behavior_port (pc_pg P) else bp_behavior_store (pc_beans P)),
       rs_visits = (if with_redis flags then redis_visit_port (pc_redis P) else bp_visit_ledger (pc_beans P))\<rparr> \<and>
    ProductHandler_service flags P = Inr
      \<lparr>ps_catalog = (if with_postgres flags then pg_catalog_port (pc_pg P)
         else bp_product_catalog (pc_beans P))\<rparr>"
  using assms
  by (auto simp: ActionHandler_service_def RecommendHandler_service_def ProductHandler_service_def
      port_defs list_defs Let_def)

text \<open>
  C39. With the names of the repository's configurations every component that a build
  registers, of the server and of the worker, finds the components it looks up; a component
  whose flag is off is not registered.
\<close>

theorem backing_components_found:
  assumes "\<And>v. cfg ''postgres_name'' = Some v \<Longrightarrow> v = ''rhythm-pg''"
    and "\<And>v. cfg ''redis_component'' = Some v \<Longrightarrow> v = ''rhythm-redis''"
    and "cfg ''rabbit_name'' = Some ''rhythm-rabbit''"
    and "wcfg ''postgres_name'' = Some ''rhythm-pg''"
    and "\<And>v. wcfg ''redis_cache_component'' = Some v \<Longrightarrow> v = ''rhythm-redis-data''"
    and "\<forall>(c, name) \<in> set minimal. c \<notin> {PgRhythmData, RedisRhythmData, RabbitMqEventPublisher}"
  shows "(PgRhythmData \<in> fst ` set (main_components fw minimal flags) \<longleftrightarrow> with_postgres flags) \<and>
    (with_postgres flags \<longrightarrow> PgRhythmData_deps (main_components fw minimal flags) cfg = Inr ()) \<and>
    (RedisRhythmData \<in> fst ` set (main_components fw minimal flags) \<longleftrightarrow> with_redis flags) \<and>
    (with_redis flags \<longrightarrow> RedisRhythmData_deps (main_components fw minimal flags) cfg = Inr ()) \<and>
    (RabbitMqEventPublisher \<in> fst ` set (main_components fw minimal flags) \<longleftrightarrow> with_rabbitmq flags) \<and>
    (with_rabbitmq flags \<longrightarrow> RabbitMqEventPublisher_deps (main_components fw minimal flags) cfg = Inr ()) \<and>
    UserActionConsumer_deps b (worker_components fw minimal b) wcfg = Inr () \<and>
    (b \<longrightarrow> RedisRhythmData_deps (worker_components fw minimal b) cfg = Inr ())"
proof -
  have "cfg_As_default cfg ''postgres_name'' ''rhythm-pg'' = ''rhythm-pg''"
    and "cfg_As_default cfg ''redis_component'' ''rhythm-redis'' = ''rhythm-redis''"
    and "cfg_As_default wcfg ''redis_cache_component'' ''rhythm-redis-data'' = ''rhythm-redis-data''"
    using assms(1,2,5) by (auto simp: cfg_As_default_def split: option.split)
  moreover have "c \<notin> fst ` set minimal" if "c \<in> {PgRhythmData, RedisRhythmData, RabbitMqEventPublisher}" for c
    using assms(6) that by fastforce
  ultimately show ?thesis
    using assms(3,4)
    by (auto simp: deps_defs list_defs FindComponent_def cfg_As_def cfg_As_default_def Let_def)
qed

theorem main_wiring_witness:
  "\<forall>P minimal flags. \<exists>a r p. let P' = P\<lparr>pc_list := main_components (pc_fw P) minimal flags\<rparr>
     in ActionHandler_service flags P' = Inr a \<and> RecommendHandler_service flags P' = Inr r \<and>
        ProductHandler_service flags P' = Inr p"
proof (intro allI)
  fix P :: "'x clocks_scheme process" and minimal flags
  let ?P = "P\<lparr>pc_list := main_components (pc_fw P) minimal flags\<rparr>"
  have "pc_list ?P = main_components (pc_fw ?P) minimal flags" by simp
  from main_wiring [OF this]
  show "\<exists>a r p. let P' = ?P
     in ActionHandler_service flags P' = Inr a \<and> RecommendHandler_service flags P' = Inr r \<and>
        ProductHandler_service flags P' = Inr p"
    by (simp add: Let_def)
qed

theorem backing_components_found_witness:
  "UserActionConsumer_deps True (worker_components (\<lambda>_. ''x'') [] True) [''postgres_name'' \<mapsto> ''rhythm-pg''] = Inr () \<and>
   RabbitMqEventPublisher_deps (main_components (\<lambda>_. ''x'') []
     \<lparr>with_postgres = False, with_redis = False, with_rabbitmq = True\<rparr>) [''rabbit_name'' \<mapsto> ''rhythm-rabbit''] = Inr ()"
  using backing_components_found [of "[''rabbit_name'' \<mapsto> ''rhythm-rabbit'']" "[''postgres_name'' \<mapsto> ''rhythm-pg'']"
      "[]" "\<lambda>_. ''x''" "\<lparr>with_postgres = False, with_redis = False, with_rabbitmq = True\<rparr>" True]
  by simp

end
