(* ===== verification/In_Memory.thy ===== *)
theory In_Memory
  imports Ports Ttl_Policy
begin

text \<open>
  The in-process back end of \<^verbatim>\<open>src/infra/in_memory_stubs.hpp\<close> and
  \<^verbatim>\<open>in_memory_stubs.cpp\<close>: \<^verbatim>\<open>InMemoryRhythmData\<close> (feed, side caches and
  idempotency tokens behind one mutex, so each operation is one step) and the stub
  catalogue, ranking, behaviour store and event queue. An operation that reads the steady
  clock takes the reading as its first argument.
\<close>

subsection \<open>State\<close>

record feed_cell =
  fc_ids :: "int64 list"
  fc_expires_at :: time

record timed_ids =
  ti_ids :: "int64 list"
  ti_expires_at :: time

record rhythm_data =
  feed :: "string \<rightharpoonup> feed_cell"
  gpt :: "string \<rightharpoonup> timed_ids"
  similar :: "int64 \<rightharpoonup> timed_ids"
  popular :: timed_ids
  popular_inited :: bool
  idempotency :: "string \<rightharpoonup> time"

definition rhythm_data_init :: rhythm_data where
  "rhythm_data_init = \<lparr>feed = Map.empty, gpt = Map.empty, similar = Map.empty,
     popular = \<lparr>ti_ids = [], ti_expires_at = 0\<rparr>, popular_inited = False,
     idempotency = Map.empty\<rparr>"

definition IsExpired :: "time \<Rightarrow> time \<Rightarrow> bool" where
  "IsExpired now expires_at \<longleftrightarrow> expires_at \<le> now"

subsection \<open>Feed\<close>

definition mem_TryGetFeed :: "time \<Rightarrow> string \<Rightarrow> rhythm_data \<Rightarrow> feed_entry option \<times> rhythm_data" where
  "mem_TryGetFeed now user_id d =
     (case feed d user_id of
        None \<Rightarrow> (None, d)
      | Some cell \<Rightarrow>
          if fc_expires_at cell \<le> now then (None, d\<lparr>feed := (feed d)(user_id := None)\<rparr>)
          else (Some \<lparr>product_ids = fc_ids cell,
                      ttl_remaining = (fc_expires_at cell - now) div ns_per_sec\<rparr>, d))"

definition mem_PutFeed :: "time \<Rightarrow> string \<Rightarrow> int64 list \<Rightarrow> secs \<Rightarrow> rhythm_data \<Rightarrow> rhythm_data" where
  "mem_PutFeed now user_id ids ttl d =
     d\<lparr>feed := (feed d)(user_id \<mapsto> \<lparr>fc_ids = ids, fc_expires_at = now + ns_of_secs ttl\<rparr>)\<rparr>"

definition mem_TouchFeed :: "time \<Rightarrow> string \<Rightarrow> secs \<Rightarrow> rhythm_data \<Rightarrow> rhythm_data" where
  "mem_TouchFeed now user_id extend_by d =
     (if extend_by \<le> 0 then d
      else case feed d user_id of
        None \<Rightarrow> d
      | Some cell \<Rightarrow>
          if fc_expires_at cell \<le> now then d\<lparr>feed := (feed d)(user_id := None)\<rparr>
          else d\<lparr>feed := (feed d)(user_id \<mapsto>
                 cell\<lparr>fc_expires_at := fc_expires_at cell + ns_of_secs extend_by\<rparr>)\<rparr>)"

definition mem_DropFeed :: "string \<Rightarrow> rhythm_data \<Rightarrow> rhythm_data" where
  "mem_DropFeed user_id d = d\<lparr>feed := (feed d)(user_id := None)\<rparr>"

subsection \<open>Side caches\<close>

definition mem_TryGetGptRanked :: "time \<Rightarrow> string \<Rightarrow> rhythm_data \<Rightarrow> int64 list option \<times> rhythm_data" where
  "mem_TryGetGptRanked now user_id d =
     (case gpt d user_id of
        None \<Rightarrow> (None, d)
      | Some c \<Rightarrow> if IsExpired now (ti_expires_at c) then (None, d\<lparr>gpt := (gpt d)(user_id := None)\<rparr>)
                 else (Some (ti_ids c), d))"

definition mem_PutGptRanked :: "time \<Rightarrow> string \<Rightarrow> int64 list \<Rightarrow> secs \<Rightarrow> rhythm_data \<Rightarrow> rhythm_data" where
  "mem_PutGptRanked now user_id ids ttl d =
     d\<lparr>gpt := (gpt d)(user_id \<mapsto> \<lparr>ti_ids = ids, ti_expires_at = now + ns_of_secs ttl\<rparr>)\<rparr>"

definition mem_TryGetSimilar :: "time \<Rightarrow> int64 \<Rightarrow> rhythm_data \<Rightarrow> int64 list option \<times> rhythm_data" where
  "mem_TryGetSimilar now anchor d =
     (case similar d anchor of
        None \<Rightarrow> (None, d)
      | Some c \<Rightarrow> if IsExpired now (ti_expires_at c) then (None, d\<lparr>similar := (similar d)(anchor := None)\<rparr>)
                 else (Some (ti_ids c), d))"

definition mem_PutSimilar :: "time \<Rightarrow> int64 \<Rightarrow> int64 list \<Rightarrow> secs \<Rightarrow> rhythm_data \<Rightarrow> rhythm_data" where
  "mem_PutSimilar now anchor ids ttl d =
     d\<lparr>similar := (similar d)(anchor \<mapsto> \<lparr>ti_ids = ids, ti_expires_at = now + ns_of_secs ttl\<rparr>)\<rparr>"

definition mem_TryGetPopularGlobal :: "time \<Rightarrow> rhythm_data \<Rightarrow> int64 list option \<times> rhythm_data" where
  "mem_TryGetPopularGlobal now d =
     (if \<not> popular_inited d then (None, d)
      else if IsExpired now (ti_expires_at (popular d)) then (None, d\<lparr>popular_inited := False\<rparr>)
      else (Some (ti_ids (popular d)), d))"

definition mem_PutPopularGlobal :: "time \<Rightarrow> int64 list \<Rightarrow> secs \<Rightarrow> rhythm_data \<Rightarrow> rhythm_data" where
  "mem_PutPopularGlobal now ids ttl d =
     d\<lparr>popular := \<lparr>ti_ids = ids, ti_expires_at = now + ns_of_secs ttl\<rparr>, popular_inited := True\<rparr>"

definition mem_InvalidateUserDerived :: "string \<Rightarrow> rhythm_data \<Rightarrow> rhythm_data" where
  "mem_InvalidateUserDerived user_id d = d\<lparr>gpt := (gpt d)(user_id := None)\<rparr>"

subsection \<open>Idempotency\<close>

definition mem_TryReserve :: "time \<Rightarrow> string \<Rightarrow> secs \<Rightarrow> rhythm_data \<Rightarrow> bool \<times> rhythm_data" where
  "mem_TryReserve now token ttl d =
     (if token = [] then (False, d)
      else let until = now + ns_of_secs ttl
           in case idempotency d token of
                Some u \<Rightarrow> if u > now then (False, d)
                          else (True, d\<lparr>idempotency := (idempotency d)(token \<mapsto> until)\<rparr>)
              | None \<Rightarrow> (True, d\<lparr>idempotency := (idempotency d)(token \<mapsto> until)\<rparr>))"

lemmas mem_feed_defs = mem_TryGetFeed_def mem_PutFeed_def mem_TouchFeed_def mem_DropFeed_def
lemmas mem_side_defs = IsExpired_def mem_TryGetGptRanked_def mem_PutGptRanked_def
  mem_TryGetSimilar_def mem_PutSimilar_def mem_TryGetPopularGlobal_def
  mem_PutPopularGlobal_def mem_InvalidateUserDerived_def
lemmas mem_defs = mem_feed_defs mem_side_defs mem_TryReserve_def

declare mem_defs [op_defs]

subsection \<open>The contracts, provided by the in-memory operations\<close>

definition feed_entries :: "rhythm_data \<Rightarrow> string \<Rightarrow> entry" where
  "feed_entries d u = map_option (\<lambda>c. (fc_ids c, fc_expires_at c)) (feed d u)"

definition timed_entry :: "timed_ids option \<Rightarrow> entry" where
  "timed_entry c = map_option (\<lambda>c. (ti_ids c, ti_expires_at c)) c"

definition popular_entry :: "rhythm_data \<Rightarrow> unit \<Rightarrow> entry" where
  "popular_entry d u = (if popular_inited d then timed_entry (Some (popular d)) else None)"

text \<open>The ids a get answers, without the remaining time.\<close>

definition mem_feed_get :: "time \<Rightarrow> string \<Rightarrow> rhythm_data \<Rightarrow> int64 list option \<times> rhythm_data" where
  "mem_feed_get now u d = map_prod (map_option product_ids) id (mem_TryGetFeed now u d)"

lemmas entry_defs = feed_entries_def timed_entry_def popular_entry_def mem_feed_get_def

lemma same_from_Some_expired [simp]:
  "d \<le> now \<Longrightarrow> same_from now None (Some (ids, d))"
  by (rule same_from_sym) simp

interpretation mem_feed: exact_feed_cache mem_feed_get mem_PutFeed feed_entries mem_TouchFeed
  "\<lambda>now. mem_DropFeed"
  by unfold_locales
    (auto simp: mem_feed_defs entry_defs extend_entry_def split: option.splits if_splits)

interpretation mem_gpt: timed_cache mem_TryGetGptRanked mem_PutGptRanked
  "\<lambda>d u. timed_entry (gpt d u)"
  by unfold_locales (auto simp: mem_side_defs entry_defs split: option.splits)

interpretation mem_similar: timed_cache mem_TryGetSimilar mem_PutSimilar
  "\<lambda>d a. timed_entry (similar d a)"
  by unfold_locales (auto simp: mem_side_defs entry_defs split: option.splits)

interpretation mem_popular: timed_cache "\<lambda>now (u::unit). mem_TryGetPopularGlobal now"
  "\<lambda>now (u::unit). mem_PutPopularGlobal now" popular_entry
  by unfold_locales (auto simp: mem_side_defs entry_defs split: if_splits)

interpretation mem_idem: idempotency_store mem_TryReserve idempotency
  by unfold_locales (auto simp: mem_TryReserve_def Let_def split: option.splits if_splits)

subsection \<open>Properties of the in-memory back end\<close>

text \<open>
  C26. The in-memory feed cache refines a map from users to ids with a deadline: whatever
  sequence of gets, puts, touches and drops is run along a clock that does not run
  backwards, the gets answer what the abstract map answers. Erasing expired cells on the way
  is not observable.
\<close>

theorem mem_feed_refines_spec:
  assumes "timeline t xs"
  shows "cache_run (feed_step mem_feed_get mem_PutFeed mem_TouchFeed (\<lambda>now. mem_DropFeed)) xs d =
    cache_run spec_step xs (feed_entries d)"
  using assms by (intro mem_feed.run_refines_spec mem_feed.simI) auto

theorem mem_feed_refines_spec_witness:
  "cache_run (feed_step mem_feed_get mem_PutFeed mem_TouchFeed (\<lambda>now. mem_DropFeed))
     [(1, Put ''u'' [7] 2), (2, Touch ''u'' 1), (3000000000, Get ''u''), (3000000001, Get ''u'')]
     rhythm_data_init = [None, None, Some [7], None]"
  using mem_feed_refines_spec [of 0 "[(1, Put ''u'' [7] 2), (2, Touch ''u'' 1), (3000000000, Get ''u''),
    (3000000001, Get ''u'')]" rhythm_data_init]
  by (simp add: extend_entry_def ns_of_secs_def ns_per_sec_def)

text \<open>
  An idempotency token is granted at most once per time-to-live: of any two grants in a
  sequence of \<^verbatim>\<open>TryReserve\<close> calls the later one reads a clock at least the
  time-to-live ahead of the earlier, in whatever order the requests took the lock and
  whatever they had read before.
\<close>

lemma mem_TryReserve_grants_spaced:
  assumes "0 \<le> ttl" and "\<forall>x \<in> set xs. snd x \<noteq> []" and "i < j" and "j < length xs"
    and "snd (xs ! i) = snd (xs ! j)"
    and "grants mem_TryReserve ttl xs d ! i" and "grants mem_TryReserve ttl xs d ! j"
  shows "fst (xs ! i) + ns_of_secs ttl \<le> fst (xs ! j)"
  using mem_idem.grants_spaced [OF assms(3,4,2,5-7,1)] .


lemma touches_entry:
  assumes "feed_entries d u = Some (ids, dl)" and "\<forall>now \<in> set nows. now < dl" and "0 < ext"
  shows "feed_entries (foldl (\<lambda>d now. mem_TouchFeed now u ext d) d nows) u =
    Some (ids, dl + int (length nows) * ns_of_secs ext)"
  using assms
proof (induction nows arbitrary: d dl)
  case Nil
  then show ?case by simp
next
  case (Cons now nows)
  have step: "feed_entries (mem_TouchFeed now u ext d) u = Some (ids, dl + ns_of_secs ext)"
    using Cons.prems by (auto simp: entry_defs mem_TouchFeed_def)
  have "n < dl + ns_of_secs ext" if "n \<in> set nows" for n
    using Cons.prems(2) that ns_of_secs_pos [of ext] Cons.prems(3) by (fastforce simp del: ns_of_secs_pos)
  then have "\<forall>n \<in> set nows. n < dl + ns_of_secs ext" by blast
  from Cons.IH [OF step this Cons.prems(3)] show ?case
    by (simp add: algebra_simps)
qed

text \<open>
  The time-to-live of a feed has no ceiling: every touch of a live feed that reads the
  clock before the original deadline moves the deadline by the full extension, so after
  \<open>n\<close> touches the feed is still served \<open>n\<close> extensions past that deadline.
\<close>

lemma mem_touch_accumulates:
  assumes "0 < ext" and "\<forall>t \<in> set nows. t < now + ns_of_secs ttl"
    and "t < now + ns_of_secs ttl + int (length nows) * ns_of_secs ext"
  shows "fst (mem_feed_get t u (foldl (\<lambda>d t. mem_TouchFeed t u ext d) (mem_PutFeed now u ids ttl d) nows)) =
    Some ids"
proof -
  have "feed_entries (mem_PutFeed now u ids ttl d) u = Some (ids, now + ns_of_secs ttl)"
    by (simp add: entry_defs mem_PutFeed_def)
  from touches_entry [OF this assms(2,1)] assms(3) show ?thesis
    by (simp add: mem_feed.get_value)
qed


text \<open>
  The layers of the shared object do not interfere: dropping a user's derived data takes
  exactly that user's ranking and leaves every feed, every list of similar products, the
  popular list and every idempotency token as they were.
\<close>

lemma mem_InvalidateUserDerived_frame:
  "fst (mem_TryGetGptRanked now v (mem_InvalidateUserDerived u d)) =
     (if v = u then None else fst (mem_TryGetGptRanked now v d)) \<and>
   fst (mem_TryGetFeed now v (mem_InvalidateUserDerived u d)) = fst (mem_TryGetFeed now v d) \<and>
   fst (mem_TryGetSimilar now a (mem_InvalidateUserDerived u d)) = fst (mem_TryGetSimilar now a d) \<and>
   fst (mem_TryGetPopularGlobal now (mem_InvalidateUserDerived u d)) =
     fst (mem_TryGetPopularGlobal now d) \<and>
   fst (mem_TryReserve now tok ttl (mem_InvalidateUserDerived u d)) =
     fst (mem_TryReserve now tok ttl d)"
  by (auto simp: mem_defs Let_def split: option.splits)

subsection \<open>Stubs\<close>

definition StubProductCatalog :: "product_row list \<Rightarrow> (int64 \<rightharpoonup> product_row)" where
  "StubProductCatalog rows = foldl (\<lambda>by_id r. by_id(row_id r \<mapsto> r)) Map.empty rows"

definition stub_GetById :: "(int64 \<rightharpoonup> product_row) \<Rightarrow> int64 \<Rightarrow> product_row option" where
  "stub_GetById by_id i = by_id i"

definition stub_RankProductIds :: "string \<Rightarrow> nat \<Rightarrow> int64 list" where
  "stub_RankProductIds user_id limit =
     (let cap = (if limit = 0 then 10 else limit) in map (\<lambda>i. 9000 + of_nat i) [0..<cap])"

definition stub_RecentProductIds :: "string \<Rightarrow> nat \<Rightarrow> int64 list" where
  "stub_RecentProductIds user_id limit = cap_vec limit [101, 202, 303]"

definition stub_PopularProductIds :: "nat \<Rightarrow> int64 list" where
  "stub_PopularProductIds limit = cap_vec limit [10, 20, 30, 40, 50]"

definition stub_CatalogNeighborProductIds :: "int64 \<Rightarrow> nat \<Rightarrow> int64 list" where
  "stub_CatalogNeighborProductIds anchor limit = stub_PopularProductIds limit"

text \<open>\<open>LoggingEventQueue\<close> writes what it is asked to publish to the log.\<close>

type_synonym event_log = "(string \<times> string) list"

definition log_PublishJson :: "string \<Rightarrow> string \<Rightarrow> event_log \<Rightarrow> event_log" where
  "log_PublishJson routing_key json_payload log = log @ [(routing_key, json_payload)]"

end
