(* ===== verification/Visit_Ledger.thy ===== *)
theory Visit_Ledger
  imports Ports
begin

text \<open>
  The in-process journal of the last visits, \<^verbatim>\<open>src/infra/visit_ledger.hpp\<close> and
  \<^verbatim>\<open>visit_ledger.cpp\<close>. \<open>MarkSeenUtc\<close> takes the reading of the system clock it
  makes.
\<close>

type_synonym visit_ledger = "string \<rightharpoonup> time"

definition ledger_LastSeenUtc :: "string \<Rightarrow> visit_ledger \<Rightarrow> time option" where
  "ledger_LastSeenUtc user_id l = (case l user_id of None \<Rightarrow> None | Some t \<Rightarrow> Some t)"

definition ledger_MarkSeenUtc :: "time \<Rightarrow> string \<Rightarrow> visit_ledger \<Rightarrow> visit_ledger" where
  "ledger_MarkSeenUtc now user_id l = l(user_id \<mapsto> now)"

lemmas ledger_defs = ledger_LastSeenUtc_def ledger_MarkSeenUtc_def

declare ledger_defs [op_defs]

lemma ledger_LastSeenUtc_eq [simp]: "ledger_LastSeenUtc u l = l u"
  by (simp add: ledger_LastSeenUtc_def split: option.splits)

text \<open>The journal keeps the instant exactly and for ever.\<close>

interpretation ledger: visit_store "\<lambda>srv. ledger_LastSeenUtc" "\<lambda>srv. ledger_MarkSeenUtc" 1 None
  by unfold_locales (auto simp: ledger_MarkSeenUtc_def)

end
