(* ===== verification/Beans.thy ===== *)
theory Beans
  imports In_Memory Visit_Ledger Action_Service Recommendation_Service
begin

text \<open>
  \<^verbatim>\<open>src/app/beans.hpp\<close>: the one set of in-process objects a binary without the
  \<^verbatim>\<open>RHYTHM_WITH_*\<close> flags runs on, seen through the ports, and the contracts of
  the services discharged for it.
\<close>

subsection \<open>The world and the ports\<close>

record beans_world = clocks +
  bw_data :: rhythm_data
  bw_visits :: visit_ledger
  bw_log :: event_log

text \<open>
  A call of the shared object takes one reading of the steady clock, whether or not the
  branch it takes looks at it.
\<close>

definition mem_call :: "(time \<Rightarrow> rhythm_data \<Rightarrow> 'a \<times> rhythm_data) \<Rightarrow> ('a, 'x beans_world_scheme) prog" where
  "mem_call f w =
     (let (r, d) = f (peek (steady_clk w)) (bw_data w)
      in (Inr r, w\<lparr>steady_clk := tick (steady_clk w), bw_data := d\<rparr>))"

definition mem_do :: "(time \<Rightarrow> rhythm_data \<Rightarrow> rhythm_data) \<Rightarrow> (unit, 'x beans_world_scheme) prog" where
  "mem_do f = mem_call (\<lambda>now d. ((), f now d))"

definition mem_cache_port :: "'x beans_world_scheme cache_port" where
  "mem_cache_port = \<lparr>TryGetFeed = (\<lambda>u. mem_call (\<lambda>now. mem_TryGetFeed now u)),
     PutFeed = (\<lambda>u ids ttl. mem_do (\<lambda>now. mem_PutFeed now u ids ttl)),
     TouchFeed = (\<lambda>u ext. mem_do (\<lambda>now. mem_TouchFeed now u ext)),
     DropFeed = (\<lambda>u. mem_do (\<lambda>now. mem_DropFeed u))\<rparr>"

definition mem_side_port :: "'x beans_world_scheme side_port" where
  "mem_side_port =
     \<lparr>TryGetGptRanked = (\<lambda>u. mem_call (\<lambda>now. mem_TryGetGptRanked now u)),
      PutGptRanked = (\<lambda>u ids ttl. mem_do (\<lambda>now. mem_PutGptRanked now u ids ttl)),
      TryGetSimilar = (\<lambda>a. mem_call (\<lambda>now. mem_TryGetSimilar now a)),
      PutSimilar = (\<lambda>a ids ttl. mem_do (\<lambda>now. mem_PutSimilar now a ids ttl)),
      TryGetPopularGlobal = mem_call mem_TryGetPopularGlobal,
      PutPopularGlobal = (\<lambda>ids ttl. mem_do (\<lambda>now. mem_PutPopularGlobal now ids ttl)),
      InvalidateUserDerived = (\<lambda>u. mem_do (\<lambda>now. mem_InvalidateUserDerived u))\<rparr>"

definition mem_idempotency_port :: "'x beans_world_scheme idempotency_port" where
  "mem_idempotency_port = \<lparr>TryReserve = (\<lambda>tok ttl. mem_call (\<lambda>now. mem_TryReserve now tok ttl))\<rparr>"

definition ledger_port :: "'x beans_world_scheme visit_port" where
  "ledger_port =
     \<lparr>LastSeenUtc = (\<lambda>u w. (Inr (ledger_LastSeenUtc u (bw_visits w)), w)),
      MarkSeenUtc = (\<lambda>u. bindE sys_now (\<lambda>now w. (Inr (), w\<lparr>bw_visits := ledger_MarkSeenUtc now u (bw_visits w)\<rparr>)))\<rparr>"

definition log_queue_port :: "'x beans_world_scheme queue_port" where
  "log_queue_port =
     \<lparr>PublishJson = (\<lambda>rk body w. (Inr (), w\<lparr>bw_log := log_PublishJson rk body (bw_log w)\<rparr>))\<rparr>"

definition stub_gpt_port :: "'w gpt_port" where
  "stub_gpt_port = \<lparr>RankProductIds = (\<lambda>u n. ret (stub_RankProductIds u n))\<rparr>"

definition stub_behavior_port :: "'w behavior_port" where
  "stub_behavior_port =
     \<lparr>RecentProductIds = (\<lambda>u n. ret (stub_RecentProductIds u n)),
      PopularProductIds = (\<lambda>n. ret (stub_PopularProductIds n)),
      CatalogNeighborProductIds = (\<lambda>a n. ret (stub_CatalogNeighborProductIds a n))\<rparr>"

definition stub_catalog_port :: "product_row list \<Rightarrow> 'w catalog_port" where
  "stub_catalog_port rows = \<lparr>GetById = (\<lambda>i. ret (stub_GetById (StubProductCatalog rows) i))\<rparr>"

definition demo_rows :: "product_row list" where
  "demo_rows = [\<lparr>row_id = 1, row_sku = ''SKU-1'', row_title = ''Demo kettle''\<rparr>,
     \<lparr>row_id = 2, row_sku = ''SKU-2'', row_title = ''Demo phone''\<rparr>]"

lemmas beans_ports = mem_call_def mem_do_def mem_cache_port_def mem_side_port_def
  mem_idempotency_port_def ledger_port_def log_queue_port_def stub_gpt_port_def
  stub_behavior_port_def stub_catalog_port_def

definition beans_action :: "'x beans_world_scheme action_service" where
  "beans_action = \<lparr>as_queue = log_queue_port, as_idempotency = mem_idempotency_port\<rparr>"

definition beans_recommend :: "'x beans_world_scheme recommendation_service" where
  "beans_recommend = \<lparr>rs_cache = mem_cache_port, rs_side_cache = mem_side_port,
     rs_gpt = stub_gpt_port, rs_behavior = stub_behavior_port, rs_visits = ledger_port\<rparr>"

definition beans_init :: "clock \<Rightarrow> clock \<Rightarrow> beans_world" where
  "beans_init sys stdy = \<lparr>sys_clk = sys, steady_clk = stdy, bw_data = rhythm_data_init,
     bw_visits = Map.empty, bw_log = []\<rparr>"

subsection \<open>The contracts of the services\<close>

text \<open>The steady clock's last reading, the one the latest call of the shared object took.\<close>

definition last_reading :: "'x beans_world_scheme \<Rightarrow> time" where
  "last_reading w = readings (steady_clk w) (pos (steady_clk w) - 1)"

definition mem_held_at :: "'x beans_world_scheme \<Rightarrow> time \<Rightarrow> string \<Rightarrow> bool" where
  "mem_held_at w t tok \<longleftrightarrow> held t (idempotency (bw_data w) tok)"

definition mem_cached :: "'x beans_world_scheme \<Rightarrow> string \<rightharpoonup> int64 list" where
  "mem_cached w = (\<lambda>u. map_option fc_ids (feed (bw_data w) u))"

interpretation beans_action: action_ports beans_action mem_held_at last_reading
  by unfold_locales
    (auto simp: beans_action_def beans_ports mem_held_at_def last_reading_def log_PublishJson_def
      mem_TryReserve_def tick_def peek_def Let_def held_def fun_eq_iff split: option.splits if_splits)

lemma keeps_mem_call:
  assumes "\<And>now d. (\<lambda>u. map_option fc_ids (feed (snd (f now d)) u)) \<subseteq>\<^sub>m (\<lambda>u. map_option fc_ids (feed d u))"
  shows "keeps mem_cached (mem_call f)"
  using assms by (auto simp: keeps_def mem_call_def mem_cached_def split: prod.splits)
    (metis snd_conv)

lemma keeps_mem_do:
  assumes "\<And>now d. (\<lambda>u. map_option fc_ids (feed (f now d) u)) \<subseteq>\<^sub>m (\<lambda>u. map_option fc_ids (feed d u))"
  shows "keeps mem_cached (mem_do f)"
  unfolding mem_do_def using assms by (intro keeps_mem_call) simp

interpretation beans_recommend: recommend_ports beans_recommend mem_cached
proof
  show "keeps mem_cached (LastSeenUtc (rs_visits beans_recommend) u)"
    "keeps mem_cached (MarkSeenUtc (rs_visits beans_recommend) u)" for u
    by (auto simp: keeps_def beans_recommend_def ledger_port_def mem_cached_def)
  fix u :: string and a :: int64 and ids :: "int64 list" and n :: nat and ext :: secs
  show "keeps mem_cached (TryGetPopularGlobal (rs_side_cache beans_recommend))"
    "keeps mem_cached (TryGetGptRanked (rs_side_cache beans_recommend) u)"
    "keeps mem_cached (TryGetSimilar (rs_side_cache beans_recommend) a)"
    "keeps mem_cached (TryGetFeed (rs_cache beans_recommend) u)"
    unfolding beans_recommend_def mem_side_port_def mem_cache_port_def
    by (auto simp: mem_defs map_le_def split: option.splits intro!: keeps_mem_call)
  show "keeps mem_cached (PutPopularGlobal (rs_side_cache beans_recommend) ids kPopularProductsTtl)"
    "keeps mem_cached (PutGptRanked (rs_side_cache beans_recommend) u ids kGptRankingTtl)"
    "keeps mem_cached (PutSimilar (rs_side_cache beans_recommend) a ids kSimilarProductsTtl)"
    "keeps mem_cached (DropFeed (rs_cache beans_recommend) u)"
    "keeps mem_cached (TouchFeed (rs_cache beans_recommend) u ext)"
    unfolding beans_recommend_def mem_side_port_def mem_cache_port_def
    by (auto simp: mem_defs map_le_def split: option.splits intro!: keeps_mem_do)
  show "keeps mem_cached (RecentProductIds (rs_behavior beans_recommend) u n)"
    "keeps mem_cached (PopularProductIds (rs_behavior beans_recommend) n)"
    "keeps mem_cached (CatalogNeighborProductIds (rs_behavior beans_recommend) a n)"
    "keeps mem_cached (RankProductIds (rs_gpt beans_recommend) u n)"
    by (simp_all add: beans_recommend_def stub_behavior_port_def stub_gpt_port_def)
qed (auto simp: beans_recommend_def mem_cache_port_def mem_call_def mem_do_def mem_cached_def
    mem_feed_defs map_le_def split: option.splits if_splits)

subsection \<open>A whole request\<close>

text \<open>The port calls of a request return, and what they return.\<close>

definition returns :: "('a, 'w) prog \<Rightarrow> bool" where
  "returns m \<longleftrightarrow> (\<forall>w. \<exists>x w'. m w = (Inr x, w'))"

lemma returns_bindE [intro]: "returns m \<Longrightarrow> (\<And>x. returns (f x)) \<Longrightarrow> returns (bindE m f)"
  unfolding returns_def by (metis bindE_Inr)

lemma returns_basic [simp, intro]:
  "returns (ret x)" "returns (mem_call f)" "returns (mem_do g)"
  by (auto simp: returns_def mem_call_def mem_do_def split: prod.splits)

lemma returns_cases [intro]:
  "returns m \<Longrightarrow> returns n \<Longrightarrow> returns (if b then m else n)"
  "returns m \<Longrightarrow> (\<And>x. returns (f x)) \<Longrightarrow> returns (case v of None \<Rightarrow> m | Some x \<Rightarrow> f x)"
  by (auto split: option.split)

lemma returns_ttl_calls: "returns (ShouldInvalidateFeed_call v)" "returns (ClassifyVisit_call v)"
  unfolding returns_def using ShouldInvalidateFeed_call_run [of v] ClassifyVisit_call_run [of v]
  by blast+

lemma beans_recommend_ports [simp]:
  "rs_cache beans_recommend = mem_cache_port" "rs_side_cache beans_recommend = mem_side_port"
  "rs_gpt beans_recommend = stub_gpt_port" "rs_behavior beans_recommend = stub_behavior_port"
  "rs_visits beans_recommend = ledger_port"
  by (simp_all add: beans_recommend_def)

lemma returns_ledger: "returns (LastSeenUtc ledger_port u)" "returns (MarkSeenUtc ledger_port u)"
  by (simp_all add: returns_def ledger_port_def)

lemma returns_GetRecommendations: "returns (GetRecommendations iter beans_recommend u)"
  unfolding GetRecommendations_def rebuild_feed_def FetchSources_def fetch_popular_def
    fetch_gpt_def fetch_similar_def Let_def beans_recommend_ports
  by (intro returns_bindE returns_cases returns_ledger returns_ttl_calls)
    (simp_all add: mem_cache_port_def mem_side_port_def stub_gpt_port_def stub_behavior_port_def)

text \<open>What a request leaves behind of its own user: the feed it answered from, and its visit.\<close>

lemma clock_updates [simp]:
  "feed (bw_data (w\<lparr>sys_clk := c\<rparr>)) = feed (bw_data w)"
  "bw_visits (w\<lparr>sys_clk := c\<rparr>) = bw_visits w"
  "bw_visits (w\<lparr>steady_clk := c\<rparr>) = bw_visits w"
  by simp_all

definition visits_kept :: "('a, 'x beans_world_scheme) prog \<Rightarrow> bool" where
  "visits_kept m \<longleftrightarrow> (\<forall>w r w'. m w = (r, w') \<longrightarrow> bw_visits w' = bw_visits w)"

lemma visits_keptD: "visits_kept m \<Longrightarrow> m w = (r, w') \<Longrightarrow> bw_visits w' = bw_visits w"
  by (simp add: visits_kept_def)

lemma visits_kept_bindE [intro]:
  "visits_kept m \<Longrightarrow> (\<And>x. visits_kept (f x)) \<Longrightarrow> visits_kept (bindE m f)"
  by (auto simp: visits_kept_def bindE_def split: prod.splits sum.splits)

lemma visits_kept_basic [simp, intro]:
  "visits_kept (ret x)" "visits_kept (mem_call f)" "visits_kept (mem_do g)"
  by (auto simp: visits_kept_def mem_call_def mem_do_def split: prod.splits)

lemma visits_kept_cases [intro]:
  "visits_kept m \<Longrightarrow> visits_kept n \<Longrightarrow> visits_kept (if b then m else n)"
  "visits_kept m \<Longrightarrow> (\<And>x. visits_kept (f x)) \<Longrightarrow> visits_kept (case v of None \<Rightarrow> m | Some x \<Rightarrow> f x)"
  by (auto split: option.split)

lemma visits_kept_rebuild: "visits_kept (rebuild_feed iter beans_recommend u)"
  unfolding rebuild_feed_def FetchSources_def fetch_popular_def
    fetch_gpt_def fetch_similar_def Let_def beans_recommend_ports
  by (intro visits_kept_bindE visits_kept_cases)
    (simp_all add: mem_cache_port_def mem_side_port_def stub_gpt_port_def stub_behavior_port_def)

text \<open>The two halves of a request: after \<open>MarkSeenUtc\<close>, a hit or a rebuild.\<close>

lemma GetRecommendations_parts:
  assumes "GetRecommendations iter beans_recommend u w = (Inr ids, w')"
  obtains c r w2 w3 where "bw_visits w2 = (bw_visits w)(u \<mapsto> peek c)"
    and "mem_call (\<lambda>now. mem_TryGetFeed now u) w2 = (Inr r, w3)"
    and "\<not> ShouldInvalidateFeed (peek (sys_clk w)) (bw_visits w u) \<Longrightarrow>
      bw_data w2 = bw_data w \<and> steady_clk w2 = steady_clk w"
    and "(case r of
       Some entry \<Rightarrow>
         bindE (ClassifyVisit_call (bw_visits w u)) (\<lambda>recency.
         bindE (TouchFeed mem_cache_port u (ExtendFeedTtlOnHit recency)) (\<lambda>_.
         ret (TakeTop (product_ids entry) kFeedListSize)))
     | None \<Rightarrow> rebuild_feed iter beans_recommend u) w3 = (Inr ids, w')"
proof -
  let ?b = "ShouldInvalidateFeed (peek (sys_clk w)) (bw_visits w u)"
  obtain c where c: "ShouldInvalidateFeed_call (bw_visits w u) w = (Inr ?b, w\<lparr>sys_clk := c\<rparr>)"
    using ShouldInvalidateFeed_call_run [of "bw_visits w u" w] by blast
  obtain v where v: "(if ?b then DropFeed mem_cache_port u else ret ()) (w\<lparr>sys_clk := c\<rparr>) = (Inr (), v)"
    and vs: "bw_visits v = bw_visits w" and "sys_clk v = c"
    and v': "\<not> ?b \<Longrightarrow> bw_data v = bw_data w \<and> steady_clk v = steady_clk w"
    by (cases ?b) (auto simp: mem_cache_port_def mem_do_def mem_call_def)
  let ?w2 = "v\<lparr>sys_clk := tick c, bw_visits := (bw_visits w)(u \<mapsto> peek c)\<rparr>"
  have m: "MarkSeenUtc ledger_port u v = (Inr (), ?w2)"
    using vs \<open>sys_clk v = c\<close> by (simp add: ledger_port_def bindE_def ledger_MarkSeenUtc_def)
  obtain r w3 where g: "mem_call (\<lambda>now. mem_TryGetFeed now u) ?w2 = (Inr r, w3)"
    using returns_basic(2) [of "\<lambda>now. mem_TryGetFeed now u"] unfolding returns_def by blast
  have l: "LastSeenUtc ledger_port u w = (Inr (bw_visits w u), w)"
    and tg: "TryGetFeed mem_cache_port u ?w2 = (Inr r, w3)"
    using g by (simp_all add: ledger_port_def mem_cache_port_def)
  show thesis
  proof (rule that [OF _ g])
    show "(case r of
       Some entry \<Rightarrow>
         bindE (ClassifyVisit_call (bw_visits w u)) (\<lambda>recency.
         bindE (TouchFeed mem_cache_port u (ExtendFeedTtlOnHit recency)) (\<lambda>_.
         ret (TakeTop (product_ids entry) kFeedListSize)))
     | None \<Rightarrow> rebuild_feed iter beans_recommend u) w3 = (Inr ids, w')"
      using assms
      unfolding GetRecommendations_def beans_recommend_ports
      by (simp only: bindE_Inr l c v m tg)
  qed (use v' in simp_all)
qed

text \<open>The feed a request leaves in the cache, if any, starts with its answer.\<close>

lemma rebuild_leaves_feed:
  assumes "rebuild_feed iter beans_recommend u w = (Inr ids, w')"
  shows "\<exists>c. feed (bw_data w') u = Some c \<and> ids = take kFeedListSize (fc_ids c)"
  using assms
  by (auto simp: rebuild_feed_def Let_def mem_cache_port_def mem_do_def mem_call_def mem_PutFeed_def
      elim!: bindE_InrE)

lemma hit_leaves_feed:
  assumes "feed (bw_data w) u = Some c"
    and "bindE (ClassifyVisit_call v) (\<lambda>recency.
         bindE (TouchFeed mem_cache_port u (ExtendFeedTtlOnHit recency)) (\<lambda>_.
         ret (TakeTop l kFeedListSize))) w = (Inr ids, w')"
  shows "bw_visits w' = bw_visits w \<and> ids = take kFeedListSize l \<and>
    (\<forall>c'. feed (bw_data w') u = Some c' \<longrightarrow> fc_ids c' = fc_ids c)"
proof -
  obtain r k where "ClassifyVisit_call v w = (Inr r, w\<lparr>sys_clk := k\<rparr>)"
    using ClassifyVisit_call_run by blast
  with assms show ?thesis
    by (auto simp: bindE_def mem_cache_port_def mem_do_def mem_call_def mem_TouchFeed_def split: if_splits)
qed

lemma request_leaves:
  assumes "GetRecommendations iter beans_recommend u w = (Inr ids, w')"
  shows "\<exists>m. bw_visits w' u = Some m"
    and "feed (bw_data w') u = Some c \<Longrightarrow> ids = take kFeedListSize (fc_ids c)"
proof -
  obtain k r w2 w3 where m: "bw_visits w2 = (bw_visits w)(u \<mapsto> peek k)"
    and g: "mem_call (\<lambda>now. mem_TryGetFeed now u) w2 = (Inr r, w3)"
    and rest: "(case r of
       Some entry \<Rightarrow>
         bindE (ClassifyVisit_call (bw_visits w u)) (\<lambda>recency.
         bindE (TouchFeed mem_cache_port u (ExtendFeedTtlOnHit recency)) (\<lambda>_.
         ret (TakeTop (product_ids entry) kFeedListSize)))
     | None \<Rightarrow> rebuild_feed iter beans_recommend u) w3 = (Inr ids, w')"
    using GetRecommendations_parts [OF assms] by metis
  have v3: "bw_visits w3 = bw_visits w2" by (rule visits_keptD [OF visits_kept_basic(2) g])
  have "bw_visits w' = bw_visits w3 \<and>
    (\<forall>c. feed (bw_data w') u = Some c \<longrightarrow> ids = take kFeedListSize (fc_ids c))"
  proof (cases r)
    case None
    with rest have b: "rebuild_feed iter beans_recommend u w3 = (Inr ids, w')" by simp
    then show ?thesis
      using rebuild_leaves_feed [OF b] visits_keptD [OF visits_kept_rebuild b] by auto
  next
    case (Some e)
    then obtain c where c: "feed (bw_data w3) u = Some c" and e: "product_ids e = fc_ids c"
      using g by (auto simp: mem_call_def mem_TryGetFeed_def split: prod.splits option.splits if_splits)
    from rest Some have "bindE (ClassifyVisit_call (bw_visits w u)) (\<lambda>recency.
         bindE (TouchFeed mem_cache_port u (ExtendFeedTtlOnHit recency)) (\<lambda>_.
         ret (TakeTop (product_ids e) kFeedListSize))) w3 = (Inr ids, w')" by simp
    from hit_leaves_feed [OF c this] e show ?thesis by metis
  qed
  with m v3 show "\<exists>m. bw_visits w' u = Some m"
    and "feed (bw_data w') u = Some c \<Longrightarrow> ids = take kFeedListSize (fc_ids c)" by auto
qed

text \<open>A request that finds a live feed and a recent visit answers from the feed.\<close>

lemma request_hit:
  assumes "GetRecommendations iter beans_recommend u w = (Inr ids, w')"
    and "feed (bw_data w) u = Some c" and "peek (steady_clk w) < fc_expires_at c"
    and "\<not> ShouldInvalidateFeed (peek (sys_clk w)) (bw_visits w u)"
  shows "ids = take kFeedListSize (fc_ids c)"
proof -
  obtain r w2 w3 where g: "mem_call (\<lambda>now. mem_TryGetFeed now u) w2 = (Inr r, w3)"
    and w2: "bw_data w2 = bw_data w" "steady_clk w2 = steady_clk w"
    and rest: "(case r of
       Some entry \<Rightarrow>
         bindE (ClassifyVisit_call (bw_visits w u)) (\<lambda>recency.
         bindE (TouchFeed mem_cache_port u (ExtendFeedTtlOnHit recency)) (\<lambda>_.
         ret (TakeTop (product_ids entry) kFeedListSize)))
     | None \<Rightarrow> rebuild_feed iter beans_recommend u) w3 = (Inr ids, w')"
    using GetRecommendations_parts [OF assms(1)] assms(4) by metis
  obtain e where r: "r = Some e" and e: "product_ids e = fc_ids c" and w3: "feed (bw_data w3) u = Some c"
    using g w2 assms(2,3) by (auto simp: mem_call_def mem_TryGetFeed_def)
  from rest r have "bindE (ClassifyVisit_call (bw_visits w u)) (\<lambda>recency.
       bindE (TouchFeed mem_cache_port u (ExtendFeedTtlOnHit recency)) (\<lambda>_.
       ret (TakeTop (product_ids e) kFeedListSize))) w3 = (Inr ids, w')" by simp
  from hit_leaves_feed [OF w3 this] e show ?thesis by simp
qed

subsection \<open>Properties\<close>

text \<open>
  On the in-process back end one idempotency key is accepted at most once in 48 hours:
  in every sequence of POST requests, whatever else they carry and whatever the steady clock
  reads, two accepted requests with the same key are at least the hold time apart.
\<close>

lemma beans_accepted_spaced:
  assumes "i < j" and "j < length ps" and "ap_idempotency_key (ps ! i) = ap_idempotency_key (ps ! j)"
    and "handle_all J beans_action ps w ! i = (Inr Accepted, wi)"
    and "handle_all J beans_action ps w ! j = (Inr Accepted, wj)"
  shows "last_reading wi + ns_of_secs kIdempotencyHold \<le> last_reading wj"
  using assms by (rule beans_action.accepted_spaced)

definition view_payload :: "string \<Rightarrow> action_payload" where
  "view_payload key = \<lparr>ap_user_id = ''u'', ap_action_type = ''view'', ap_product_id = ''1'',
     ap_idempotency_key = key\<rparr>"

lemma valid_view_payload [simp]: "valid_payload (view_payload key) \<longleftrightarrow> key \<noteq> []"
  "ap_idempotency_key (view_payload key) = key"
  by (auto simp: valid_payload_def view_payload_def IsAllowedActionType_def)

text \<open>
  C18. A request leaves exactly one trace in the queue, and only when it is answered as
  accepted: then the one message appended is the printed payload under
  \<^verbatim>\<open>user.action\<close>; a refused or duplicate request appends nothing. The
  in-process back end throws on no valid payload.
\<close>

theorem beans_action_publishes_accepted:
  "bw_log (snd (HandleAction J beans_action p w)) =
     bw_log w @ (if fst (HandleAction J beans_action p w) = Inr Accepted
                 then [(''user.action'', ToString J (action_doc p))] else []) \<and>
   ((\<exists>r. fst (HandleAction J beans_action p w) = Inr r) \<longleftrightarrow> valid_payload p)"
proof (cases "valid_payload p")
  case True
  then show ?thesis
    by (auto simp: HandleAction_valid bindE_def beans_action_def beans_ports log_PublishJson_def
        split: prod.splits)
qed (simp add: HandleAction_invalid)

text \<open>
  On the in-process back end every GET is answered with some list, whatever the caches hold
  and the clocks read: no path of the request throws.
\<close>

lemma beans_recommend_returns:
  "\<exists>ids w'. GetRecommendations iter beans_recommend u w = (Inr ids, w')"
  by (rule returns_GetRecommendations [unfolded returns_def, THEN spec])

text \<open>
  From a state where the cached feeds hold at most a hundred ids, each once, a GET
  answers at most fifty ids, each once, and leaves such a state, in whatever order the hash
  map of the merge is walked.
\<close>

lemma beans_recommend_good:
  assumes "\<And>xs. mset (iter xs) = mset xs"
    and "\<And>v c. feed (bw_data w) v = Some c \<Longrightarrow> good_feed (fc_ids c)"
    and "GetRecommendations iter beans_recommend u w = (Inr ids, w')"
  shows "distinct ids \<and> length ids \<le> 50 \<and> (\<forall>v c. feed (bw_data w') v = Some c \<longrightarrow> good_feed (fc_ids c))"
proof -
  have good: "beans_recommend.feeds_good v \<longleftrightarrow> (\<forall>u c. feed (bw_data v) u = Some c \<longrightarrow> good_feed (fc_ids c))"
    for v :: "'a beans_world_scheme"
    by (auto simp: beans_recommend.feeds_good_def mem_cached_def)
  have "beans_recommend.feeds_good w" using assms(2) by (simp add: good)
  from ensuresD [OF beans_recommend.GetRecommendations_good [OF assms(1)] this assms(3)]
  show ?thesis using GetRecommendations_length [OF assms(3)] by (simp add: good ttl_consts)
qed

text \<open>
  C19. A repeated GET is answered from the cache: if the feed the first request left is still
  alive when the second one starts and less than a day has passed since the visit it
  recorded, the second answer is the first one.
\<close>

theorem beans_second_request_same:
  assumes "GetRecommendations iter beans_recommend u w = (Inr ids, w1)"
    and "GetRecommendations iter2 beans_recommend u w1 = (Inr ids2, w2)"
    and "feed (bw_data w1) u = Some c" and "peek (steady_clk w1) < fc_expires_at c"
    and "bw_visits w1 u = Some m" and "peek (sys_clk w1) < m + ns_of_secs kStaleAfterNoVisit"
  shows "ids2 = ids"
  using request_hit [OF assms(2,3,4)] request_leaves(2) [OF assms(1,3)] assms(5,6)
  by (simp add: ns_per_day_stale)

text \<open>The first request of a new user on frozen clocks, with the merge left symbolic.\<close>

definition still_clock :: clock where
  "still_clock = \<lparr>readings = (\<lambda>_. 0), pos = 0\<rparr>"

lemma first_request:
  "\<exists>ids c w1. GetRecommendations iter beans_recommend u (beans_init still_clock still_clock) = (Inr ids, w1) \<and>
     feed (bw_data w1) u = Some c \<and> fc_expires_at c = ns_of_secs kFeedKeyTtl \<and> bw_visits w1 u = Some 0 \<and>
     peek (steady_clk w1) = 0 \<and> peek (sys_clk w1) = 0"
  by (simp add: GetRecommendations_def ShouldInvalidateFeed_call_def rebuild_feed_def FetchSources_def
      fetch_popular_def fetch_gpt_def fetch_similar_def bindE_def beans_ports mem_defs ledger_MarkSeenUtc_def
      beans_init_def rhythm_data_init_def still_clock_def Let_def similar_anchor_def peek_def tick_def
      stub_RecentProductIds_def stub_PopularProductIds_def stub_CatalogNeighborProductIds_def
      cap_vec_def split: prod.splits)

theorem beans_second_request_same_witness:
  "\<exists>ids w1 w2. GetRecommendations rev beans_recommend ''u'' (beans_init still_clock still_clock) = (Inr ids, w1) \<and>
     GetRecommendations rev beans_recommend ''u'' w1 = (Inr ids, w2)"
proof -
  obtain ids c w1 where r: "GetRecommendations rev beans_recommend ''u'' (beans_init still_clock still_clock) = (Inr ids, w1)"
    and "feed (bw_data w1) ''u'' = Some c" "fc_expires_at c = ns_of_secs kFeedKeyTtl"
    and "bw_visits w1 ''u'' = Some 0" "peek (steady_clk w1) = 0" "peek (sys_clk w1) = 0"
    using first_request [of rev "''u''"] by blast
  moreover obtain ids2 w2 where r2: "GetRecommendations rev beans_recommend ''u'' w1 = (Inr ids2, w2)"
    using returns_GetRecommendations by (metis returns_def)
  ultimately have "ids2 = ids"
    using beans_second_request_same [OF r r2] by (simp add: ns_of_secs_pos)
  with r r2 show ?thesis by blast
qed

end
