(* ===== verification/Stack.thy ===== *)
theory Stack
  imports App_Wiring Beans
begin

text \<open>
  The services on Redis, Postgres and Rabbit: under the laws of the three servers the ports
  of \<open>Redis_Data\<close>, \<open>Pg_Data\<close> and \<open>Rabbit_Publisher\<close> provide what the
  services rely on, and the contracts are interpreted on the reference servers.
\<close>

subsection \<open>What Redis provides to the action service\<close>

definition token_held :: "('w \<Rightarrow> string \<Rightarrow> cell) \<Rightarrow> 'w \<Rightarrow> time \<Rightarrow> string \<Rightarrow> bool" where
  "token_held store w t tok \<longleftrightarrow> visible t (store w (IdempotencyKey tok)) \<noteq> None"

definition publish_apart :: "('w \<Rightarrow> 'b) \<Rightarrow> 'w queue_port \<Rightarrow> bool" where
  "publish_apart f Q \<longleftrightarrow> (\<forall>rk body w r w'. PublishJson Q rk body w = (r, w') \<longrightarrow> f w' = f w)"

lemma visible_Some_iff: "visible t (Some (v, Some d)) \<noteq> None \<longleftrightarrow> t < d"
  by simp

lemma visible_None_later: "visible t x = None \<Longrightarrow> t \<le> t' \<Longrightarrow> visible t' x = None"
  by (auto simp: visible_def split: option.splits if_splits)

context redis_server
begin

lemma reserve_law:
  assumes "rr_client R = c" and "redis_TryReserve R tok kIdempotencyHold w = (r, w')"
  shows "(\<forall>b. r = Inr b \<longrightarrow> (b \<longleftrightarrow> \<not> token_held store w (srv w') tok)) \<and>
    (store w' = (if token_held store w (srv w') tok then store w
       else (store w)(IdempotencyKey tok \<mapsto> (''1'', Some (srv w' + ns_of_secs kIdempotencyHold)))) \<or>
     store w' = store w \<and> (\<exists>e. r = Inl e))"
  using setnx_law [of "kIdempotencyHold * 1000" "IdempotencyKey tok" "''1''" w r w'] assms
  by (auto simp: redis_TryReserve_def token_held_def ns_per_ms_secs Let_def)

text \<open>A reservation that throws frees nothing: if it took effect, the token was free before.\<close>

lemma reserve_throws_held:
  assumes "rr_client R = c" and "redis_TryReserve R tok kIdempotencyHold w = (Inl e, w')"
    and "token_held store w t tok'"
  shows "token_held store w' t tok'"
proof (cases "token_held store w (srv w') tok \<or> store w' = store w \<or> tok' \<noteq> tok")
  case True
  with reserve_law [OF assms(1,2)] assms(3) show ?thesis by (auto simp: token_held_def)
next
  case False
  then have free: "visible (srv w') (store w (IdempotencyKey tok)) = None" and same: "tok' = tok"
    and new: "store w' (IdempotencyKey tok) = Some (''1'', Some (srv w' + ns_of_secs kIdempotencyHold))"
    using reserve_law [OF assms(1,2)] by (auto simp: token_held_def)
  have "t < srv w'"
    using assms(3) same visible_None_later [OF free] by (meson token_held_def not_le)
  moreover have "0 < ns_of_secs kIdempotencyHold" by simp
  ultimately have "t < srv w' + ns_of_secs kIdempotencyHold" by linarith
  then show ?thesis using new same by (simp add: token_held_def)
qed

lemma redis_action_ports:
  assumes "rr_client R = c" and "publish_apart store Q" and "publish_apart srv Q"
  shows "action_ports \<lparr>as_queue = Q, as_idempotency = redis_idempotency_port R\<rparr> (token_held store) srv"
proof
  fix tok :: string and w w' :: 'w and b :: bool and e :: exn and t :: time and tok' :: string
  show "(b \<longleftrightarrow> \<not> token_held store w (srv w') tok) \<and>
      (\<forall>t tok'. token_held store w' t tok' \<longleftrightarrow>
        (if b \<and> tok' = tok then t < srv w' + ns_of_secs kIdempotencyHold else token_held store w t tok'))"
    if "TryReserve (as_idempotency \<lparr>as_queue = Q, as_idempotency = redis_idempotency_port R\<rparr>) tok
      kIdempotencyHold w = (Inr b, w')"
    using reserve_law [OF assms(1), of tok w "Inr b" w'] that
    by (auto simp: redis_idempotency_port_def token_held_def)
  show "token_held store w' t tok'"
    if "TryReserve (as_idempotency \<lparr>as_queue = Q, as_idempotency = redis_idempotency_port R\<rparr>) tok
      kIdempotencyHold w = (Inl e, w')" and "token_held store w t tok'"
    using reserve_throws_held [OF assms(1), of tok w e w'] that by (simp add: redis_idempotency_port_def)
qed (use assms(2,3) in \<open>auto simp: publish_apart_def token_held_def fun_eq_iff\<close>)

end

text \<open>Redis tokens and Rabbit events on the reference servers.\<close>

definition redis0 :: "'x system_world_scheme redis_rhythm_data" where
  "redis0 = \<lparr>rr_client = ref_redis, rr_visit_last_ttl = default_visit_ledger_ttl, rr_json = ref_json\<rparr>"

definition stack_action :: "'x system_world_scheme action_service" where
  "stack_action = \<lparr>as_queue = rabbit_queue_port (publisher0 kTopic ''user.action''),
     as_idempotency = redis_idempotency_port redis0\<rparr>"

lemma broker_call_apart: "broker_call f w = (r, w') \<Longrightarrow> kv w' = kv w \<and> srv_time w' = srv_time w"
  by (auto simp: broker_call_def Let_def srv_time_def split: sum.splits fault.splits)

lemma publisher0_apart:
  "publish_apart kv (rabbit_queue_port (publisher0 ty k))"
  "publish_apart srv_time (rabbit_queue_port (publisher0 ty k))"
  by (auto simp: publish_apart_def rabbit_queue_port_def rabbit_PublishJson_def ref_rabbit_def
      dest: broker_call_apart)

interpretation stack_action: action_ports stack_action "token_held kv" srv_time
  unfolding stack_action_def
  by (rule ref_redis.redis_action_ports [OF _ publisher0_apart]) (simp add: redis0_def)

subsection \<open>What Redis and Postgres provide to the recommendation service\<close>

text \<open>The feed the cell of a user holds, dead or alive, as the library reads it.\<close>

definition feeds_of :: "json_lib \<Rightarrow> (string \<Rightarrow> cell) \<Rightarrow> string \<rightharpoonup> int64 list" where
  "feeds_of J m u = (case m (FeedKey u) of None \<Rightarrow> None | Some (raw, d) \<Rightarrow> JsonToIds J raw)"

definition redis_cached :: "('w \<Rightarrow> string \<Rightarrow> cell) \<Rightarrow> json_lib \<Rightarrow> 'w \<Rightarrow> string \<rightharpoonup> int64 list" where
  "redis_cached store J w = feeds_of J (store w)"

lemma feeds_of_del: "feeds_of J (m(k := None)) \<subseteq>\<^sub>m feeds_of J m"
  by (auto simp: feeds_of_def map_le_def)

lemma feeds_of_other: "(\<And>u. k \<noteq> FeedKey u) \<Longrightarrow> feeds_of J (m(k := x)) = feeds_of J m"
  by (auto simp: feeds_of_def fun_eq_iff)

lemma feeds_of_deadline: "m k = Some (v, d) \<Longrightarrow> feeds_of J (m(k \<mapsto> (v, d'))) = feeds_of J m"
  by (auto simp: feeds_of_def fun_eq_iff)

lemma feeds_of_put: "feeds_of J (m(FeedKey u \<mapsto> (raw, d))) = (feeds_of J m)(u := JsonToIds J raw)"
  by (auto simp: feeds_of_def fun_eq_iff)

lemma keeps_redis_cachedI:
  "(\<And>w r w'. m w = (r, w') \<Longrightarrow> feeds_of J (store w') \<subseteq>\<^sub>m feeds_of J (store w)) \<Longrightarrow>
    keeps (redis_cached store J) m"
  by (simp add: keeps_def redis_cached_def)

lemma visible_cell: "visible t x = Some v \<Longrightarrow> \<exists>d. x = Some (v, d)"
  by (auto simp: visible_def split: option.splits if_splits)

context redis_server
begin

lemma keeps_get: "keeps (redis_cached store J) (r_Get c k)"
  by (rule keeps_redis_cachedI) (metis get_law map_le_refl)

lemma keeps_ttl: "keeps (redis_cached store J) (r_Ttl c k)"
  by (rule keeps_redis_cachedI) (metis ttl_law map_le_refl)

lemma keeps_del: "keeps (redis_cached store J) (r_Del c k)"
  by (rule keeps_redis_cachedI) (metis del_law feeds_of_del map_le_refl)

lemma keeps_setex:
  assumes "0 < ttl" and "\<And>u. k \<noteq> FeedKey u"
  shows "keeps (redis_cached store J) (r_Setex c k ttl v)"
  by (rule keeps_redis_cachedI) (metis setex_law [OF assms(1)] feeds_of_other [OF assms(2)] map_le_refl)

lemma keeps_expire:
  assumes "0 < ttl"
  shows "keeps (redis_cached store J) (r_Expire c k ttl)"
proof (rule keeps_redis_cachedI)
  fix w r w' assume e: "r_Expire c k ttl w = (r, w')"
  have "feeds_of J (store w') = feeds_of J (store w)"
  proof (cases "visible (srv w') (store w k)")
    case None
    with expire_law [OF assms e] show ?thesis by auto
  next
    case (Some v)
    with visible_cell obtain d where "store w k = Some (v, d)" by blast
    from feeds_of_deadline [where m = "store w", OF this] expire_law [OF assms e] Some show ?thesis
      by auto
  qed
  then show "feeds_of J (store w') \<subseteq>\<^sub>m feeds_of J (store w)" by simp
qed

lemma keeps_get_ids:
  assumes "rr_client R = c"
  shows "keeps (redis_cached store J) (redis_get_ids R k)"
  unfolding redis_get_ids_def assms
  by (intro keeps_bindE keeps_option keeps_get keeps_del keeps_ret)

lemma keeps_TryGetFeed:
  assumes "rr_client R = c"
  shows "keeps (redis_cached store J) (redis_TryGetFeed R u)"
  unfolding redis_TryGetFeed_def assms Let_def
  by (intro keeps_bindE keeps_option keeps_get keeps_del keeps_ttl keeps_ret)
    (simp split: ttl_reply.split)

lemma keeps_LastSeen:
  assumes "rr_client R = c"
  shows "keeps (redis_cached store J) (redis_LastSeenUtc R u)"
  unfolding redis_LastSeenUtc_def assms Let_def
  by (intro keeps_bindE keeps_option keeps_if keeps_try_catch keeps_get keeps_del keeps_ret)

lemma keeps_TouchFeed:
  assumes "rr_client R = c" and "0 \<le> ext"
  shows "keeps (redis_cached store J) (redis_TouchFeed R u ext)"
proof (cases "ext = 0")
  case True
  then show ?thesis by (simp add: redis_TouchFeed_def)
next
  case False
  show ?thesis
  proof (unfold keeps_def, intro allI impI)
    fix w r w' assume run: "redis_TouchFeed R u ext w = (r, w')"
    obtain t w1 where t: "r_Ttl c (FeedKey u) w = (t, w1)" by fastforce
    have "redis_cached store J w' \<subseteq>\<^sub>m redis_cached store J w1"
    proof (cases "\<exists>s. t = Inr (TtlExpire s)")
      case True
      then obtain s where s: "t = Inr (TtlExpire s)" by blast
      with ttl_law [OF t] have "0 \<le> s" by auto
      with False assms(2) have "0 < s + ext" by simp
      from keepsD [OF keeps_expire [OF this]] run t s False assms show ?thesis
        by (simp add: redis_TouchFeed_def Let_def)
    next
      case no: False
      with run t False assms have "w' = w1"
        by (cases t) (auto simp: redis_TouchFeed_def Let_def bindE_def split: ttl_reply.splits)
      then show ?thesis by simp
    qed
    then show "redis_cached store J w' \<subseteq>\<^sub>m redis_cached store J w"
      using map_le_trans keepsD [OF keeps_ttl t] by blast
  qed
qed

text \<open>A feed that a get answers is the feed of the cell.\<close>

lemma TryGetFeed_cached:
  assumes "rr_client R = c" and "redis_TryGetFeed R u w = (Inr (Some e), w')"
  shows "redis_cached store (rr_json R) w u = Some (product_ids e)"
proof -
  from assms obtain v w1 where v: "r_Get c (FeedKey u) w = (Inr v, w1)"
    by (auto simp: redis_TryGetFeed_def Let_def elim!: bindE_InrE)
  with assms obtain raw where raw: "v = Some raw"
    by (cases v) (auto simp: redis_TryGetFeed_def Let_def)
  from v assms raw obtain ids where ids: "JsonToIds (rr_json R) raw = Some ids"
    by (cases "JsonToIds (rr_json R) raw") (auto simp: redis_TryGetFeed_def Let_def elim!: bindE_InrE)
  from v assms raw ids have "product_ids e = ids"
    by (auto simp: redis_TryGetFeed_def Let_def elim!: bindE_InrE split: ttl_reply.splits)
  moreover have "\<exists>d. store w (FeedKey u) = Some (raw, d)"
    using get_law [OF v] raw visible_cell by metis
  ultimately show ?thesis using ids by (auto simp: redis_cached_def feeds_of_def)
qed

lemma PutFeed_cached:
  assumes "rr_client R = c" and "codec_ok (rr_json R) (ids_json ids)" and "0 < ttl"
    and "redis_PutFeed R u ids ttl w = (r, w')"
  shows "redis_cached store (rr_json R) w' \<subseteq>\<^sub>m (redis_cached store (rr_json R) w)(u \<mapsto> ids) \<or>
    redis_cached store (rr_json R) w' \<subseteq>\<^sub>m redis_cached store (rr_json R) w"
proof -
  have "r_Setex c (FeedKey u) ttl (IdsToJson (rr_json R) ids) w = (r, w')"
    using assms(1,4) by (simp add: redis_PutFeed_def Let_def)
  from setex_law [OF assms(3) this]
  have "store w' = (store w)(FeedKey u \<mapsto> (IdsToJson (rr_json R) ids, Some (srv w' + ns_of_secs ttl))) \<or>
    store w' = store w" by blast
  then have "redis_cached store (rr_json R) w' = (redis_cached store (rr_json R) w)(u \<mapsto> ids) \<or>
    redis_cached store (rr_json R) w' = redis_cached store (rr_json R) w"
    by (auto simp: redis_cached_def feeds_of_put JsonToIds_IdsToJson [OF assms(2)])
  then show ?thesis by auto
qed

end

text \<open>The behaviour store and the ranking do not touch Redis.\<close>

definition call_apart :: "('w \<Rightarrow> 'b) \<Rightarrow> ('a, 'w) prog \<Rightarrow> bool" where
  "call_apart f m \<longleftrightarrow> (\<forall>w r w'. m w = (r, w') \<longrightarrow> f w' = f w)"

definition sources_apart :: "('w \<Rightarrow> 'b) \<Rightarrow> 'w behavior_port \<Rightarrow> 'w gpt_port \<Rightarrow> bool" where
  "sources_apart f B G \<longleftrightarrow> (\<forall>u n. call_apart f (RecentProductIds B u n)) \<and>
     (\<forall>n. call_apart f (PopularProductIds B n)) \<and>
     (\<forall>a n. call_apart f (CatalogNeighborProductIds B a n)) \<and> (\<forall>u n. call_apart f (RankProductIds G u n))"

lemma call_apart_bindE [intro]:
  "call_apart f m \<Longrightarrow> (\<And>x. call_apart f (g x)) \<Longrightarrow> call_apart f (bindE m g)"
  by (auto simp: call_apart_def bindE_def split: sum.splits prod.splits)

lemma call_apart_basic [simp, intro]: "call_apart f (ret x)" "call_apart f (pure_prog r)"
  by (simp_all add: call_apart_def)

lemma keeps_call_apart: "call_apart store m \<Longrightarrow> keeps (redis_cached store J) m"
  by (rule keeps_redis_cachedI) (simp add: call_apart_def)

definition redis_recommend ::
  "'x clocks_scheme redis_rhythm_data \<Rightarrow> 'x clocks_scheme behavior_port \<Rightarrow> 'x clocks_scheme gpt_port \<Rightarrow>
   'x clocks_scheme recommendation_service" where
  "redis_recommend R B G = \<lparr>rs_cache = redis_cache_port R, rs_side_cache = redis_side_port R,
     rs_gpt = G, rs_behavior = B, rs_visits = redis_visit_port R\<rparr>"

lemma redis_recommend_simps [simp]:
  "rs_cache (redis_recommend R B G) = redis_cache_port R"
  "rs_side_cache (redis_recommend R B G) = redis_side_port R"
  "rs_gpt (redis_recommend R B G) = G" "rs_behavior (redis_recommend R B G) = B"
  "rs_visits (redis_recommend R B G) = redis_visit_port R"
  by (simp_all add: redis_recommend_def)

lemma redis_recommend_ports:
  fixes R :: "'x clocks_scheme redis_rhythm_data"
  assumes "redis_server (rr_client R) store srv" and "0 < rr_visit_last_ttl R"
    and codec: "\<And>ids. codec_ok (rr_json R) (ids_json ids)"
    and clk: "\<And>w k. store (w\<lparr>sys_clk := k\<rparr>) = store w" and "sources_apart store B G"
  shows "recommend_ports (redis_recommend R B G) (redis_cached store (rr_json R))"
proof -
  let ?S = "redis_recommend R B G" and ?C = "redis_cached store (rr_json R)"
  note get_ids = redis_server.keeps_get_ids [OF assms(1) refl]
    and setex = redis_server.keeps_setex [OF assms(1)]
    and del = redis_server.keeps_del [OF assms(1)]
  have now: "keeps ?C (sys_now :: (time, 'x clocks_scheme) prog)"
    by (rule keeps_redis_cachedI) (auto simp: clk)
  show ?thesis
  proof
    fix u :: string and a :: int64 and ids :: "int64 list" and n :: nat and ext :: secs
      and w w' :: "'x clocks_scheme" and k :: clock and e rp
    show "?C (w\<lparr>sys_clk := k\<rparr>) = ?C w" by (simp add: redis_cached_def clk)
    show "keeps ?C (LastSeenUtc (rs_visits ?S) u)"
      by (simp add: redis_visit_port_def redis_server.keeps_LastSeen [OF assms(1)])
    show "keeps ?C (MarkSeenUtc (rs_visits ?S) u)"
      unfolding redis_recommend_simps redis_visit_port_def visit_port.simps redis_MarkSeenUtc_def Let_def
      by (intro keeps_bindE now setex assms(2)) simp
    show "keeps ?C (TryGetPopularGlobal (rs_side_cache ?S))" "keeps ?C (TryGetGptRanked (rs_side_cache ?S) u)"
      "keeps ?C (TryGetSimilar (rs_side_cache ?S) a)"
      by (simp_all add: redis_side_port_def redis_TryGetPopularGlobal_def redis_TryGetGptRanked_def
          redis_TryGetSimilar_def get_ids)
    show "keeps ?C (PutPopularGlobal (rs_side_cache ?S) ids kPopularProductsTtl)"
      "keeps ?C (PutGptRanked (rs_side_cache ?S) u ids kGptRankingTtl)"
      "keeps ?C (PutSimilar (rs_side_cache ?S) a ids kSimilarProductsTtl)"
      by (simp_all add: redis_side_port_def redis_PutPopularGlobal_def redis_PutGptRanked_def
          redis_PutSimilar_def setex)
    show "keeps ?C (RecentProductIds (rs_behavior ?S) u n)" "keeps ?C (PopularProductIds (rs_behavior ?S) n)"
      "keeps ?C (CatalogNeighborProductIds (rs_behavior ?S) a n)" "keeps ?C (RankProductIds (rs_gpt ?S) u n)"
      using assms(5) by (simp_all add: sources_apart_def keeps_call_apart)
    show "keeps ?C (TryGetFeed (rs_cache ?S) u)"
      by (simp add: redis_cache_port_def redis_server.keeps_TryGetFeed [OF assms(1)])
    show "keeps ?C (DropFeed (rs_cache ?S) u)"
      by (simp add: redis_cache_port_def redis_DropFeed_def del)
    show "keeps ?C (TouchFeed (rs_cache ?S) u ext)" if "0 \<le> ext"
      using redis_server.keeps_TouchFeed [OF assms(1) refl that] by (simp add: redis_cache_port_def)
    show "?C w u = Some (product_ids e)" if "TryGetFeed (rs_cache ?S) u w = (Inr (Some e), w')"
      using redis_server.TryGetFeed_cached [OF assms(1) refl] that by (simp add: redis_cache_port_def)
    show "?C w' u = None" if "DropFeed (rs_cache ?S) u w = (Inr (), w')"
      using redis_server.del_store [OF assms(1), of "FeedKey u" w w'] that
      by (simp add: redis_cache_port_def redis_DropFeed_def redis_cached_def feeds_of_def)
    show "?C w' \<subseteq>\<^sub>m (?C w)(u \<mapsto> ids) \<or> ?C w' \<subseteq>\<^sub>m ?C w"
      if "PutFeed (rs_cache ?S) u ids kFeedKeyTtl w = (rp, w')"
      using redis_server.PutFeed_cached [OF assms(1) refl codec, of kFeedKeyTtl u ids w rp w'] that
      by (simp add: redis_cache_port_def)
  qed
qed

subsection \<open>The recommendation service on the reference servers\<close>

definition stack_recommend :: "'x system_world_scheme recommendation_service" where
  "stack_recommend = redis_recommend redis0 (pg_behavior_port pg_data0) stub_gpt_port"

lemma call_apart_pids: "call_apart f (PidsFromPidColumn rows)"
proof (induction rows)
  case (Cons row rows)
  then show ?case unfolding PidsFromPidColumn.simps by (intro call_apart_bindE call_apart_basic)
qed (simp add: call_apart_def)

lemma pg_methods_apart:
  assumes "\<And>ts q. call_apart f (pg_select_slave (pg_cluster P) ts q)"
  shows "call_apart f (pg_RecentProductIds P u n)" "call_apart f (pg_PopularProductIds P n)"
    "call_apart f (pg_CatalogNeighborProductIds P a n)"
  using assms by (auto simp: pg_method_defs intro!: call_apart_bindE call_apart_pids)

lemma ref_select_apart: "call_apart kv (pg_select_slave ref_pg ts q)" "call_apart rb (pg_select_slave ref_pg ts q)"
    "call_apart pg_master (pg_select_slave ref_pg ts q)"
  by (auto simp: call_apart_def ref_pg_def ref_select_def Let_def split: fault.splits)

lemma pg_sources_apart:
  assumes "\<And>ts q. call_apart f (pg_select_slave ref_pg ts q)"
  shows "sources_apart f (pg_behavior_port pg_data0) stub_gpt_port"
  using pg_methods_apart [of f pg_data0] assms
  by (simp add: sources_apart_def pg_behavior_port_def stub_gpt_port_def pg_data0_def)

lemma redis0_simps [simp]:
  "rr_json redis0 = ref_json" "rr_client redis0 = ref_redis" "0 < rr_visit_last_ttl redis0"
  by (simp_all add: redis0_def default_visit_ledger_ttl_def)

interpretation stack_recommend: recommend_ports stack_recommend "redis_cached kv ref_json"
  using redis_recommend_ports [of redis0 kv srv_time "pg_behavior_port pg_data0" stub_gpt_port]
  by (simp add: stack_recommend_def ref_redis.redis_server_axioms pg_sources_apart ref_select_apart)

subsection \<open>Properties\<close>

text \<open>
  On Redis one idempotency key is accepted at most once in 48 hours of the server's
  clock, whatever the commands do: in every sequence of POST requests, also ones whose
  commands fail before or after they took effect, two accepted requests with the same key
  are at least the hold time apart.
\<close>

lemma redis_accepted_spaced:
  assumes "redis_server (rr_client R) store srv" and "publish_apart store Q" and "publish_apart srv Q"
  defines "S \<equiv> \<lparr>as_queue = Q, as_idempotency = redis_idempotency_port R\<rparr>"
  assumes "i < j" and "j < length ps" and "ap_idempotency_key (ps ! i) = ap_idempotency_key (ps ! j)"
    and "handle_all J S ps w ! i = (Inr Accepted, wi)" and "handle_all J S ps w ! j = (Inr Accepted, wj)"
  shows "srv wi + ns_of_secs kIdempotencyHold \<le> srv wj"
  using action_ports.accepted_spaced [OF redis_server.redis_action_ports [OF assms(1) refl assms(2,3)]] assms(4-)
  by metis

text \<open>A world of the reference servers, given by the Redis clock, its store, and the broker with its faults.\<close>

definition stack_at :: "(nat \<Rightarrow> time) \<Rightarrow> (nat \<Rightarrow> fault) \<Rightarrow> (string \<Rightarrow> cell) \<Rightarrow> nat \<Rightarrow> broker \<Rightarrow> nat \<Rightarrow> system_world" where
  "stack_at rdg fs m i b k = (system_at [] [] 0 b k)\<lparr>kv := m, commands := i,
     srv_clk := \<lparr>readings = rdg, pos = i\<rparr>, rb_faults := fs\<rparr>"

definition stack_time :: "(nat \<Rightarrow> time) \<Rightarrow> nat \<Rightarrow> time" where
  "stack_time rdg i = Max (rdg ` {..i})"

lemma srv_time_stack_at [simp]: "srv_time (stack_at rdg fs m i b k) = stack_time rdg i"
  by (simp add: srv_time_def stack_at_def stack_time_def)

lemma stack_at_simps [simp]: "rb (stack_at rdg fs m i b k) = b" "kv (stack_at rdg fs m i b k) = m"
  by (simp_all add: stack_at_def)

lemma stack_reserve:
  "redis_TryReserve redis0 tok ttl (stack_at rdg fs m i b k) =
    (if visible (stack_time rdg (Suc i)) (m (IdempotencyKey tok)) = None
     then (Inr True, stack_at rdg fs (m(IdempotencyKey tok \<mapsto>
       (''1'', Some (stack_time rdg (Suc i) + ns_of_secs ttl)))) (Suc i) b k)
     else (Inr False, stack_at rdg fs m (Suc i) b k))"
  by (simp add: redis_TryReserve_def redis0_def ref_redis_def command_def stack_at_def system_at_def Let_def
      redis_world.defs srv_time_def stack_time_def tick_def ns_per_ms_secs)

lemma stack_publish:
  "rabbit_PublishJson (publisher0 ty key) rk body (stack_at rdg fs m i (broker0 ty key ms) k) =
    (case fs k of
       No_fault \<Rightarrow> (Inr (), stack_at rdg fs m i (broker0 ty key (if ref_matches ty key rk then ms @ [body] else ms)) (Suc k))
     | Fail_before e \<Rightarrow> (Inl e, stack_at rdg fs m i (broker0 ty key ms) (Suc k))
     | Fail_after e \<Rightarrow> (Inl e, stack_at rdg fs m i (broker0 ty key (if ref_matches ty key rk then ms @ [body] else ms)) (Suc k)))"
proof -
  have "exchanges (broker0 ty key ms) events_exchange = Some ty" by (simp add: broker0_def)
  then show ?thesis
    by (simp add: rabbit_PublishJson_def ref_rabbit_def broker_call_def stack_at_def system_at_def Let_def
        redis_world.defs deliver_broker0 split: fault.split)
qed

lemmas stack_run = stack_reserve stack_publish stack_action_def redis_idempotency_port_def rabbit_queue_port_def

text \<open>The server's clock stands at 0 for the first command and then at the hold time.\<close>

definition hold_clock :: "nat \<Rightarrow> time" where
  "hold_clock n = (if n \<le> 1 then 0 else ns_of_secs kIdempotencyHold)"

lemma hold_clock_time: "stack_time hold_clock (Suc 0) = 0"
    "stack_time hold_clock (Suc (Suc 0)) = ns_of_secs kIdempotencyHold"
proof -
  have "0 \<le> ns_of_secs kIdempotencyHold" by (simp add: less_imp_le)
  then show "stack_time hold_clock (Suc 0) = 0"
    "stack_time hold_clock (Suc (Suc 0)) = ns_of_secs kIdempotencyHold"
    by (simp_all add: stack_time_def hold_clock_def atMost_Suc)
qed


text \<open>
  C29. A publication that fails is answered 400, as if the request had been malformed, and the
  key stays reserved: any later request with the same key whose reservation reads the clock
  before the hold time has passed is answered 202 as a duplicate, and its event is not
  published either.
\<close>

theorem failed_publication_loses_event:
  assumes "action_ports S held_at clk"
    and "request_payload J req = Some p" and "valid_payload p"
    and "TryReserve (as_idempotency S) (ap_idempotency_key p) kIdempotencyHold w = (Inr True, w1)"
    and "PublishJson (as_queue S) ''user.action'' (ToString J (action_doc p)) w1 = (Inl e, w2)"
    and "request_payload J retry = Some q" and "valid_payload q"
    and "ap_idempotency_key q = ap_idempotency_key p"
    and "HandleAction J S q w2 = (Inr r, w3)" and "clk w3 < clk w2 + ns_of_secs kIdempotencyHold"
  shows "ActionHandler_HandleRequestThrow J S req w = (Inr (reply kBadRequest (JsonError J (what e))), w2) \<and>
    ActionHandler_HandleRequestThrow J S retry w2 = (Inr (reply kAccepted (JsonActionAccepted J True)), w3)"
  using action_ports.lost_event [OF assms(1,4,5,3,7,8,9,10)] assms(2,6,9)
  by (simp add: ActionHandler_payload)


text \<open>A POST request whose body is the printed document of a payload.\<close>

definition post :: "action_payload \<Rightarrow> http_request" where
  "post p = \<lparr>hr_header = [''Idempotency-Key'' \<mapsto> ap_idempotency_key p], hr_arg = Map.empty,
     hr_body = ToString ref_json (action_doc p)\<rparr>"

lemma post_payload_of:
  assumes "ap_idempotency_key p = ''k''"
  shows "request_payload ref_json (post p) = Some p"
proof -
  have "FromString ref_json (ToString ref_json (action_doc p)) = Inr (action_doc p)"
    using ref_json_codec_ok by (simp add: codec_ok_def)
  moreover have "ToString ref_json (action_doc p) \<noteq> []"
    by (simp add: ref_json_def action_doc_def)
  moreover have "TrimCopy ''k'' = ''k''"
    by (rule TrimCopy_trimmed) (simp add: trimmed_def is_space_def)
  moreover have "json_payload ref_json (action_doc p) ''k'' = Inr p"
    using assms by (simp add: json_payload_def action_payload_of_def JsonFieldAsString_def action_doc_def at_key_def)
  ultimately show ?thesis
    using assms by (simp add: request_payload_def request_key_def post_def GetHeader_def)
qed

lemmas post_payload = post_payload_of [of "view_payload ''k''", OF valid_view_payload(2)]

theorem failed_publication_loses_event_witness:
  "let fs = (\<lambda>k. if k = 0 then Fail_before (Library_error ''rabbit'') else No_fault);
       w = stack_at (\<lambda>_. 0) fs Map.empty 0 (broker0 kTopic ''user.action'' []) 0;
       (r1, w1) = ActionHandler_HandleRequestThrow ref_json stack_action (post (view_payload ''k'')) w;
       (r2, w2) = ActionHandler_HandleRequestThrow ref_json stack_action (post (view_payload ''k'')) w1
   in r1 = Inr (reply kBadRequest (JsonError ref_json ''rabbit'')) \<and>
      r2 = Inr (reply kAccepted (JsonActionAccepted ref_json True)) \<and> queues (rb w2) user_queue = Some []"
proof -
  let ?fs = "\<lambda>k :: nat. if k = 0 then Fail_before (Library_error ''rabbit'') else No_fault"
  let ?b = "broker0 kTopic ''user.action'' []"
  let ?m = "[IdempotencyKey ''k'' \<mapsto> (''1'', Some (ns_of_secs kIdempotencyHold))]"
  let ?w = "stack_at (\<lambda>_. 0) ?fs Map.empty 0 ?b 0" and ?w2 = "stack_at (\<lambda>_. 0) ?fs ?m 1 ?b 1"
  let ?p = "view_payload ''k''"
  have t: "stack_time (\<lambda>_. 0) i = 0" for i by (simp add: stack_time_def image_constant_conv)
  have a: "TryReserve (as_idempotency stack_action) (ap_idempotency_key ?p) kIdempotencyHold ?w =
      (Inr True, stack_at (\<lambda>_. 0) ?fs ?m 1 ?b 0)"
    and b: "PublishJson (as_queue stack_action) ''user.action'' (ToString ref_json (action_doc ?p))
      (stack_at (\<lambda>_. 0) ?fs ?m 1 ?b 0) = (Inl (Library_error ''rabbit''), ?w2)"
    and c: "HandleAction ref_json stack_action ?p ?w2 = (Inr Duplicate, stack_at (\<lambda>_. 0) ?fs ?m 2 ?b 1)"
    by (simp_all add: stack_run t HandleAction_valid bindE_def numeral_2_eq_2)
  have valid: "valid_payload ?p" by simp
  from failed_publication_loses_event [OF stack_action.action_ports_axioms post_payload valid a b
      post_payload valid refl c]
  show ?thesis by (simp add: t queues_broker0 Let_def)
qed

text \<open>
  An accepted event is stored: a request answered as accepted over the topology the
  publisher declared has put its document at the end of the worker's queue, and once the
  worker's processing of that message returns, then or after any redelivery, the table holds
  a row with the user and the key of the request.
\<close>

lemma accepted_event_is_stored:
  assumes "rabbit_broker (rp_client P) broker matches" and "topology P (broker w)"
    and "as_queue S = rabbit_queue_port P" and "rp_bind_routing_key P = ''user.action''"
    and "\<And>tok ttl. call_apart broker (TryReserve (as_idempotency S) tok ttl)"
    and "HandleAction J S p w = (Inr Accepted, w1)"
    and "pg_server (uc_pg U) master replica db_now" and "apart master store U"
    and "codec_ok J (action_doc p)"
    and "Process J U (ToString J (action_doc p)) w2 = (Inr (), w3)"
  shows "\<exists>ms. queues (broker w) (rp_queue P) = Some ms \<and>
      queues (broker w1) (rp_queue P) = Some (ms @ [ToString J (action_doc p)]) \<and> has_row p (master w3)"
proof -
  obtain v where res: "TryReserve (as_idempotency S) (ap_idempotency_key p) kIdempotencyHold w = (Inr True, v)"
    and pub: "PublishJson (as_queue S) ''user.action'' (ToString J (action_doc p)) v = (Inr (), w1)"
    using assms(6) by (rule HandleAction_AcceptedE)
  have v: "broker v = broker w" using assms(5) res by (auto simp: call_apart_def)
  obtain ms where ms: "queues (broker w) (rp_queue P) = Some ms" using assms(2) by (auto simp: topology_def)
  have "rabbit_PublishJson P (rp_bind_routing_key P) (ToString J (action_doc p)) v = (Inr (), w1)"
    using pub assms(3,4) by (simp add: rabbit_queue_port_def)
  from rabbit_broker.published_to_queue [OF assms(1) refl _ this, of ms] assms(2) v ms
  have "queues (broker w1) (rp_queue P) = Some (ms @ [ToString J (action_doc p)])" by simp
  moreover have frame: "master w' = master w" if "uc_redis_cache U = Some cache"
    and "redis_InvalidateAfterUserAction cache u w = (r, w')" for cache u w r w'
    using apart_invalidate [OF assms(8) that] .
  have run: "store_action U p w2 = (Inr (), w3)"
    using assms(10) Process_fields [OF message_fields_action_doc [OF assms(9)]] by metis
  have "has_row p (master w3)"
    by (rule pg_server.store_action_master(2) [OF assms(7) refl frame run refl])
  ultimately show ?thesis using ms by blast
qed

text \<open>
  On Redis the feeds stay good: if every feed in the cache has at most a hundred ids, each
  once, then a request, also one that throws, leaves such a cache, and an answer has each id
  at most once.
\<close>

lemma redis_recommend_good:
  fixes R :: "'x clocks_scheme redis_rhythm_data"
  assumes "redis_server (rr_client R) store srv" and "0 < rr_visit_last_ttl R"
    and "\<And>ids. codec_ok (rr_json R) (ids_json ids)" and "\<And>w k. store (w\<lparr>sys_clk := k\<rparr>) = store w"
    and "sources_apart store B G" and "\<And>xs. mset (iter xs) = mset xs"
    and "\<And>v ids. redis_cached store (rr_json R) w v = Some ids \<Longrightarrow> good_feed ids"
    and "GetRecommendations iter (redis_recommend R B G) u w = (r, w')"
  shows "(\<forall>v ids. redis_cached store (rr_json R) w' v = Some ids \<longrightarrow> good_feed ids) \<and>
    (\<forall>ids. r = Inr ids \<longrightarrow> distinct ids)"
proof -
  note ports = redis_recommend_ports [OF assms(1-3) _ assms(5)]
  have good: "recommend_ports.feeds_good (redis_cached store (rr_json R)) v \<longleftrightarrow>
      (\<forall>u ids. redis_cached store (rr_json R) v u = Some ids \<longrightarrow> good_feed ids)" for v
    using recommend_ports.feeds_good_def [OF ports] assms(4) by blast
  from ensuresD [OF recommend_ports.GetRecommendations_good [OF ports assms(6)] _ assms(8)] assms(4,7)
  show ?thesis by (simp add: good)
qed

text \<open>
  C12. On Redis a visitor who was never seen, or not for a day, is not served from the cache:
  the request reaches a state without a feed of the user and answers what it builds there.
\<close>

theorem redis_stale_visitor_rebuilds:
  fixes R :: "'x clocks_scheme redis_rhythm_data"
  assumes "redis_server (rr_client R) store srv" and "0 < rr_visit_last_ttl R"
    and "\<And>ids. codec_ok (rr_json R) (ids_json ids)" and "\<And>w k. store (w\<lparr>sys_clk := k\<rparr>) = store w"
    and "sources_apart store B G" and "redis_LastSeenUtc R u w = (Inr prev, w1)"
    and "ShouldInvalidateFeed (peek (sys_clk w1)) prev"
    and "GetRecommendations iter (redis_recommend R B G) u w = (Inr ids, w')"
  shows "\<exists>w2. redis_cached store (rr_json R) w2 u = None \<and>
    rebuild_feed iter (redis_recommend R B G) u w2 = (Inr ids, w')"
  using recommend_ports.stale_visitor_rebuilds [OF redis_recommend_ports [OF assms(1-5)], of u w prev w1]
    assms(6-8) by (simp add: redis_visit_port_def)

lemma find_filter: "find P xs = (case filter P xs of [] \<Rightarrow> None | x # _ \<Rightarrow> Some x)"
  by (induction xs) simp_all

text \<open>
  What \<^verbatim>\<open>GET /product\<close> answers on Postgres: 400 for a missing id and for
  one that is no number of 64 bits, both without a query; else the document of the row with
  this id that the replica holds, or 404 if it holds none. The handler throws only when the
  query does.
\<close>

lemma product_served:
  assumes "pg_server (pg_cluster P) master replica db_now"
    and "ProductHandler_HandleRequestThrow J \<lparr>ps_catalog = pg_catalog_port P\<rparr> req w = (r, w')"
  shows "(\<forall>resp. r = Inr resp \<longrightarrow> resp =
      (if GetArg req ''id'' = [] then reply kBadRequest (JsonError J ''missing_query_id'')
       else case stoll (GetArg req ''id'') of
         Inl _ \<Rightarrow> reply kBadRequest (JsonError J ''invalid_id'')
       | Inr i \<Rightarrow>
           (case find (\<lambda>p. pr_id p = i) (products (replica w')) of
              None \<Rightarrow> reply kNotFound (JsonError J ''not_found'')
            | Some p \<Rightarrow> reply kOk (ToString J (product_doc
                \<lparr>row_id = i, row_sku = pr_sku p, row_title = pr_title p\<rparr>))))) \<and>
    (\<forall>e. r = Inl e \<longrightarrow> (\<exists>i. stoll (GetArg req ''id'') = Inr i \<and>
      pg_select_slave (pg_cluster P) [] (kSelectProduct i) w = (Inl e, w')))"
proof (cases "GetArg req ''id'' = [] \<or> (\<exists>e. stoll (GetArg req ''id'') = Inl e)")
  case True
  then show ?thesis using assms(2) by (auto simp: ProductHandler_HandleRequestThrow_def)
next
  case False
  then obtain i where arg: "GetArg req ''id'' \<noteq> []" "stoll (GetArg req ''id'') = Inr i"
    by (cases "stoll (GetArg req ''id'')") auto
  obtain q w1 where q: "pg_select_slave (pg_cluster P) [] (kSelectProduct i) w = (q, w1)" by fastforce
  note run = assms(2) [unfolded ProductHandler_HandleRequestThrow_def Let_def GetProductJson_def pg_catalog_port_def
      product_service.simps catalog_port.simps pg_GetById_def]
  show ?thesis
  proof (cases q)
    case (Inl e)
    with run arg q show ?thesis by (auto simp: bindE_def)
  next
    case (Inr rows)
    obtain plan where "kSelectProduct i plan (db_now w1) (replica w1) = Inr rows"
      using pg_server.select_rows [OF assms(1) q [unfolded Inr]] by blast
    then have rows: "rows = map (\<lambda>p. [(''id'', SqlBigint (pr_id p)), (''sku'', SqlText (pr_sku p)), (''title'', SqlText (pr_title p))])
        (filter (\<lambda>p. pr_id p = i) (products (replica w1)))" by (simp add: kSelectProduct_def)
    show ?thesis
    proof (cases "filter (\<lambda>p. pr_id p = i) (products (replica w1))")
      case Nil
      with run arg q Inr rows show ?thesis by (auto simp: bindE_def find_filter)
    next
      case (Cons p ps)
      then have "pr_id p = i" by (auto simp: filter_eq_Cons_iff)
      with Cons run arg q Inr rows show ?thesis by (auto simp: bindE_def find_filter As_bigint_def As_text_def)
    qed
  qed
qed

text \<open>
  C32. A poisoned popularity query stops every user whose feed has to be built: while the list
  of popular products is not cached and the replica holds a listed action with an
  overlong numeric product id, building a feed throws, whoever asks, and so does the handler.
\<close>

theorem poisoned_recommendations:
  assumes "pg_server (pg_cluster P) master replica db_now" and "rs_behavior S = pg_behavior_port P"
    and "RecentProductIds (rs_behavior S) u 120 w = (Inr history, w1)"
    and "TryGetPopularGlobal (rs_side_cache S) w1 = (Inr None, w2)"
    and "pg_PopularProductIds P 120 w2 = (r, w3)"
    and "a \<in> set (user_actions (replica w3))" and "in_window (db_now w3) kPopularWindowDays a"
    and "2 ^ 63 \<le> dec_val (ua_product_id a)"
  shows "\<exists>e. rebuild_feed iter S u w = (Inl e, w3)"
proof -
  from PopularProductIds_throws [OF assms(1) _ assms(5-8)] obtain e where "r = Inl e"
    by (auto simp: IsReasonableLimit_def)
  with assms(2-5) show ?thesis
    by (simp add: rebuild_feed_def FetchSources_def fetch_popular_def pg_behavior_port_def bindE_def)
qed

text \<open>
  A product id sent as a JSON number of \<open>2 ^ 63\<close> or more is published with a minus
  sign, and no row made from it is ever counted: neither the history nor the popularity
  window selects it, whatever the action and the time.
\<close>

lemma unsigned_product_id_never_counted:
  assumes "JsonFieldAsString J json ''product_id'' = Inr s"
    and "at_key json ''product_id'' = Some (JUInt64 x)" and "2 ^ 63 \<le> unat x"
    and "ua_product_id a = s"
  shows "hd s = CHR ''-'' \<and> \<not> in_window now days a"
proof -
  have "s = to_string_i64 x"
    using assms(1,2) by (auto simp: JsonFieldAsString_def split: sum.splits bool.splits)
  moreover have "sint x < 0"
  proof (rule ccontr)
    assume "\<not> sint x < 0"
    then have "uint x = sint x"
      using sint_i64_range(2) [of x] unfolding uint_sint by (intro take_bit_int_eq_self) simp_all
    with sint_i64_range(2) [of x] have "unat x < 2 ^ 63" unfolding unat_eq_nat_uint by simp
    with assms(3) show False by simp
  qed
  ultimately have "s = CHR ''-'' # dec_of_nat (nat (- sint x))"
    by (simp add: to_string_i64_def int_to_string_def)
  then show ?thesis using assms(4) by (simp add: in_window_def pg_digits_def is_digit_def)
qed

subsection \<open>Witnesses on the reference servers\<close>

lemma view_action_eq: "view_action = view_payload ''k''"
  by (simp add: view_action_def view_payload_def)


lemma stub_sources_apart: "sources_apart f stub_behavior_port stub_gpt_port"
  by (simp add: sources_apart_def stub_behavior_port_def stub_gpt_port_def)

lemma redis_data0_simps [simp]:
  "rr_json redis_data0 = ref_json" "rr_client redis_data0 = ref_redis" "0 < rr_visit_last_ttl redis_data0"
  by (simp_all add: redis_data0_def default_visit_ledger_ttl_def)

lemmas ref_redis_recommend = ref_redis.redis_server_axioms stub_sources_apart

lemma redis_first_request:
  "\<exists>ids w'. GetRecommendations rev (redis_recommend redis_data0 stub_behavior_port stub_gpt_port) ''u''
     (redis_at Map.empty 0 0) = (Inr ids, w')"
  by (simp add: GetRecommendations_def ShouldInvalidateFeed_call_def rebuild_feed_def FetchSources_def
      fetch_popular_def fetch_gpt_def fetch_similar_def bindE_def redis_cache_port_def redis_side_port_def
      redis_visit_port_def stub_behavior_port_def stub_gpt_port_def redis_run Let_def similar_anchor_def
      stub_RecentProductIds_def cap_vec_def redis_data0_def)


theorem redis_stale_visitor_rebuilds_witness:
  "\<exists>w2 ids w'. redis_cached kv ref_json w2 ''u'' = None \<and>
     rebuild_feed rev (redis_recommend redis_data0 stub_behavior_port stub_gpt_port) ''u'' w2 = (Inr ids, w')"
proof -
  obtain ids w' where run: "GetRecommendations rev (redis_recommend redis_data0 stub_behavior_port stub_gpt_port) ''u''
      (redis_at Map.empty 0 0) = (Inr ids, w')" using redis_first_request by blast
  have "redis_LastSeenUtc redis_data0 ''u'' (redis_at Map.empty 0 0) = (Inr None, redis_at Map.empty 1 0)"
    by (simp add: redis_LastSeenUtc_def ref_redis_def bindE_def Let_def)
  from redis_stale_visitor_rebuilds [OF _ _ _ _ _ this _ run, of kv srv_time] show ?thesis
    by (auto simp: ref_redis_recommend redis_at_def)
qed


text \<open>A side cache that holds nothing, over the tables of the example.\<close>

definition empty_side_port :: "'w side_port" where
  "empty_side_port = \<lparr>TryGetGptRanked = (\<lambda>u. ret None), PutGptRanked = (\<lambda>u ids ttl. ret ()),
     TryGetSimilar = (\<lambda>a. ret None), PutSimilar = (\<lambda>a ids ttl. ret ()), TryGetPopularGlobal = ret None,
     PutPopularGlobal = (\<lambda>ids ttl. ret ()), InvalidateUserDerived = (\<lambda>u. ret ())\<rparr>"

definition redis_pg0 :: "'x pg_world_scheme redis_rhythm_data" where
  "redis_pg0 = \<lparr>rr_client = ref_redis, rr_visit_last_ttl = default_visit_ledger_ttl, rr_json = ref_json\<rparr>"

theorem poisoned_recommendations_witness:
  "\<exists>e. fst (rebuild_feed rev
     ((redis_recommend redis_pg0 (pg_behavior_port pg_data0) stub_gpt_port)\<lparr>rs_side_cache := empty_side_port\<rparr>)
     ''u'' (pg_at [example_action ''x'' ''view'' ''99999999999999999999'' 0] [] 0)) = Inl e"
proof -
  let ?w = "pg_at [example_action ''x'' ''view'' ''99999999999999999999'' 0] []"
  let ?S = "(redis_recommend redis_pg0 (pg_behavior_port pg_data0) stub_gpt_port)\<lparr>rs_side_cache := empty_side_port\<rparr>"
  have h: "RecentProductIds (rs_behavior ?S) ''u'' 120 (?w 0) = (Inr [], ?w 1)"
    by (simp add: redis_recommend_def pg_behavior_port_def pg_RecentProductIds_def IsReasonableLimit_def pg_data0_def
        bindE_def kRecentProductIds_def cast_rows_eq example_action_def query_simps pid_rows_def)
  have p: "TryGetPopularGlobal (rs_side_cache ?S) (?w 1) = (Inr None, ?w 1)"
    by (simp add: empty_side_port_def)
  obtain r where q: "pg_PopularProductIds pg_data0 120 (?w 1) = (r, ?w (Suc 1))"
    by (simp add: pg_PopularProductIds_def IsReasonableLimit_def pg_data0_def bindE_def
        kPopularProductIds_def cast_rows_eq example_action_def window_simps)
  have "\<exists>e. rebuild_feed rev ?S ''u'' (?w 0) = (Inl e, ?w (Suc 1))"
    by (rule poisoned_recommendations [where a = "example_action ''x'' ''view'' ''99999999999999999999'' 0",
          OF pg_data0_server _ h p q])
      (simp_all add: redis_recommend_def example_action_def window_simps)
  then show ?thesis by auto
qed


end
