(* ===== verification/System.thy ===== *)
theory System
  imports Stack
begin

text \<open>
  The running system on the reference servers as a step relation: HTTP requests in any order
  and deliveries of the queue to the worker, with acknowledgements that may be lost. The
  faults of the servers, their clocks and the replica's lag are part of the initial world, so
  the relation ranges over all of them. The invariants hold in every reachable world.
\<close>

subsection \<open>Calls that leave a part of the world alone\<close>

lemma call_apart_try_catch:
  assumes "call_apart f m" and "\<And>e. call_apart f (h e)"
  shows "call_apart f (try_catch m h)"
  using assms unfolding call_apart_def try_catch_def by (fastforce split: prod.splits sum.splits)

lemma call_apart_cases [intro]:
  "call_apart f m \<Longrightarrow> call_apart f n \<Longrightarrow> call_apart f (if b then m else n)"
  "call_apart f m \<Longrightarrow> (\<And>x. call_apart f (g x)) \<Longrightarrow> call_apart f (case v of None \<Rightarrow> m | Some x \<Rightarrow> g x)"
  by (auto split: option.split)

lemma call_apartD: "call_apart f m \<Longrightarrow> m w = (r, w') \<Longrightarrow> f w' = f w"
  by (simp add: call_apart_def)

definition client_apart :: "('w \<Rightarrow> 'b) \<Rightarrow> 'w redis_client \<Rightarrow> bool" where
  "client_apart f c \<longleftrightarrow> (\<forall>k. call_apart f (r_Get c k)) \<and> (\<forall>k t v. call_apart f (r_Setex c k t v)) \<and>
     (\<forall>k. call_apart f (r_Del c k)) \<and> (\<forall>k. call_apart f (r_Ttl c k)) \<and>
     (\<forall>k t. call_apart f (r_Expire c k t)) \<and> (\<forall>k v ms. call_apart f (r_SetIfNotExist c k v ms))"

text \<open>A part of the world that no clock and no Redis command belongs to.\<close>

definition beside_redis :: "('x redis_world_scheme \<Rightarrow> 'b) \<Rightarrow> bool" where
  "beside_redis f \<longleftrightarrow> (\<forall>w c n. f (w\<lparr>srv_clk := c, commands := n\<rparr>) = f w) \<and>
     (\<forall>w m. f (w\<lparr>kv := m\<rparr>) = f w) \<and> (\<forall>w c. f (w\<lparr>sys_clk := c\<rparr>) = f w)"

lemma ref_redis_apart: "beside_redis f \<Longrightarrow> client_apart f ref_redis"
  by (auto simp: client_apart_def call_apart_def ref_redis_def command_def beside_redis_def Let_def
      split: prod.splits fault.splits)

lemma redis_methods_apart:
  assumes "client_apart f (rr_client R)"
  shows "call_apart f (redis_TryGetFeed R u)" "call_apart f (redis_PutFeed R u ids ttl)"
    "call_apart f (redis_TouchFeed R u ext)" "call_apart f (redis_DropFeed R u)"
    "call_apart f (redis_get_ids R k)" "call_apart f (redis_PutGptRanked R u ids ttl)"
    "call_apart f (redis_PutSimilar R a ids ttl)" "call_apart f (redis_PutPopularGlobal R ids ttl)"
    "call_apart f (redis_LastSeenUtc R u)" "call_apart f (redis_TryReserve R tok ttl)"
    "call_apart f (redis_InvalidateAfterUserAction R u)"
  using assms unfolding redis_defs Let_def client_apart_def
  by (auto intro!: call_apart_bindE call_apart_try_catch call_apart_cases simp del: try_catch_pure
      split: ttl_reply.split sum.split)

lemma redis_MarkSeenUtc_apart:
  assumes "client_apart f (rr_client R)" and "\<And>w c. f (w\<lparr>sys_clk := c\<rparr>) = f w"
  shows "call_apart f (redis_MarkSeenUtc R u)"
proof -
  have "call_apart f sys_now" using assms(2) by (simp add: call_apart_def)
  then show ?thesis
    using assms(1) unfolding redis_MarkSeenUtc_def Let_def client_apart_def by (auto intro!: call_apart_bindE)
qed

lemma ttl_calls_apart:
  assumes "\<And>w c. f (w\<lparr>sys_clk := c\<rparr>) = f w"
  shows "call_apart f (ShouldInvalidateFeed_call v)" "call_apart f (ClassifyVisit_call v)"
  unfolding call_apart_def
  using ShouldInvalidateFeed_call_run [of v] ClassifyVisit_call_run [of v] assms
  by (metis Pair_inject)+

lemma redis_recommend_apart:
  assumes "client_apart f (rr_client R)" and "\<And>w c. f (w\<lparr>sys_clk := c\<rparr>) = f w" and "sources_apart f B G"
  shows "call_apart f (GetRecommendations iter (redis_recommend R B G) u)"
proof -
  note m = redis_methods_apart [OF assms(1)] redis_MarkSeenUtc_apart [OF assms(1,2)] ttl_calls_apart [OF assms(2)]
  have src: "call_apart f (RecentProductIds B u n)" "call_apart f (PopularProductIds B n)"
    "call_apart f (CatalogNeighborProductIds B a n)" "call_apart f (RankProductIds G u n)" for u a n
    using assms(3) by (simp_all add: sources_apart_def)
  show ?thesis
    unfolding GetRecommendations_def rebuild_feed_def FetchSources_def fetch_popular_def fetch_gpt_def
      fetch_similar_def Let_def redis_recommend_simps redis_cache_port_def redis_side_port_def
      redis_visit_port_def cache_port.simps side_port.simps visit_port.simps redis_TryGetGptRanked_def
      redis_TryGetSimilar_def redis_TryGetPopularGlobal_def
    by (intro call_apart_bindE call_apart_cases m src call_apart_basic)
qed

subsection \<open>Steps\<close>

definition worker_queue :: "system_world \<Rightarrow> string list" where
  "worker_queue w = (case queues (rb w) user_queue of None \<Rightarrow> [] | Some ms \<Rightarrow> ms)"

text \<open>What an acknowledgement removes: the first message with the body, as far as bodies tell messages apart.\<close>

primrec remove_body :: "string \<Rightarrow> (message_type \<times> string) list \<Rightarrow> (message_type \<times> string) list" where
  "remove_body m [] = []"
| "remove_body m (x # xs) = (if snd x = m then xs else x # remove_body m xs)"

lemma map_remove_body [simp]: "map snd (remove_body m xs) = remove1 m (map snd xs)"
  by (induction xs) auto

lemma set_remove_body: "set (remove_body m xs) \<subseteq> set xs"
  by (induction xs) auto

definition take_message :: "string \<Rightarrow> system_world \<Rightarrow> system_world" where
  "take_message m w =
     w\<lparr>rb := (rb w)\<lparr>contents := (contents (rb w))(user_queue := map_option (remove_body m) (contents (rb w) user_queue))\<rparr>\<rparr>"

lemma queues_take_message:
  "queues (rb (take_message m w)) q =
    (if q = user_queue then map_option (remove1 m) (queues (rb w) q) else queues (rb w) q)"
  by (simp add: take_message_def queues_def option.map_comp comp_def)

lemma worker_queue_take: "worker_queue (take_message m w) = remove1 m (worker_queue w)"
  by (simp add: worker_queue_def queues_take_message split: option.split)

lemma topology_take_message [simp]: "topology P (rb (take_message m w)) = topology P (rb w)"
  by (auto simp: topology_def queues_take_message) (auto simp: take_message_def)

definition stack_product :: "'x pg_world_scheme product_service" where
  "stack_product = \<lparr>ps_catalog = pg_catalog_port pg_data0\<rparr>"

text \<open>
  The broker delivers any waiting message. A delivery whose processing returns is acknowledged, unless the
  acknowledgement is lost; one whose processing throws stays in the queue.
\<close>

inductive sys_step :: "(item list \<Rightarrow> item list) \<Rightarrow> system_world \<Rightarrow> system_world \<Rightarrow> bool" for iter where
  post: "ActionHandler_HandleRequestThrow ref_json stack_action req w = (r, w') \<Longrightarrow> sys_step iter w w'"
| recommend: "RecommendHandler_HandleRequestThrow ref_json iter stack_recommend req w = (r, w') \<Longrightarrow>
    sys_step iter w w'"
| product: "ProductHandler_HandleRequestThrow ref_json stack_product req w = (r, w') \<Longrightarrow> sys_step iter w w'"
| deliver: "m \<in> set (worker_queue w) \<Longrightarrow> Process ref_json worker0 m w = (Inr (), w') \<Longrightarrow>
    sys_step iter w (take_message m w')"
| ack_lost: "m \<in> set (worker_queue w) \<Longrightarrow> Process ref_json worker0 m w = (r, w') \<Longrightarrow> sys_step iter w w'"

inductive_cases sys_stepE: "sys_step iter w w'"

definition reachable :: "(item list \<Rightarrow> item list) \<Rightarrow> system_world \<Rightarrow> system_world \<Rightarrow> bool" where
  "reachable iter = (sys_step iter)\<^sup>*\<^sup>*"

subsection \<open>The invariant\<close>

definition event_message :: "string \<Rightarrow> bool" where
  "event_message m \<longleftrightarrow> (\<exists>p. valid_payload p \<and> m = ToString ref_json (action_doc p))"

definition row_of :: "action_payload \<Rightarrow> user_action \<Rightarrow> bool" where
  "row_of p a \<longleftrightarrow> ua_user_id a = ap_user_id p \<and> ua_action_type a = ap_action_type p \<and>
     ua_product_id a = ap_product_id p \<and> ua_idempotency_key a = ap_idempotency_key p"

definition event_row :: "user_action \<Rightarrow> bool" where
  "event_row a \<longleftrightarrow> (\<exists>p. valid_payload p \<and> row_of p a)"

text \<open>What each table, queue and cache holds in every reachable world.\<close>

definition db_inv :: "database \<Rightarrow> bool" where
  "db_inv db \<longleftrightarrow> keys_unique db \<and> (\<forall>a \<in> set (user_actions db). event_row a)"

definition broker_inv :: "broker \<Rightarrow> bool" where
  "broker_inv b \<longleftrightarrow> topology (publisher0 kTopic ''user.action'' :: system_world rabbit_publisher) b \<and>
     (\<forall>ms. queues b user_queue = Some ms \<longrightarrow> (\<forall>m \<in> set ms. event_message m))"

definition cache_inv :: "(string \<Rightarrow> cell) \<Rightarrow> bool" where
  "cache_inv m \<longleftrightarrow> (\<forall>u ids. feeds_of ref_json m u = Some ids \<longrightarrow> good_feed ids)"

definition sys_inv :: "system_world \<Rightarrow> bool" where
  "sys_inv w \<longleftrightarrow> db_inv (pg_master w) \<and> broker_inv (rb w) \<and> cache_inv (kv w)"

lemma cache_inv_le: "cache_inv m \<Longrightarrow> feeds_of ref_json m' \<subseteq>\<^sub>m feeds_of ref_json m \<Longrightarrow> cache_inv m'"
  unfolding cache_inv_def map_le_def by (metis domI)

lemma cache_inv_feeds_good: "stack_recommend.feeds_good w \<longleftrightarrow> cache_inv (kv w)"
  by (simp add: stack_recommend.feeds_good_def cache_inv_def redis_cached_def)

lemma beside_redis_parts: "beside_redis (rb :: system_world \<Rightarrow> broker)" "beside_redis (pg_master :: system_world \<Rightarrow> database)"
  by (simp_all add: beside_redis_def)

text \<open>A token is no feed, also under a key that is one.\<close>

lemma feeds_of_token: "feeds_of ref_json (m(k \<mapsto> (''1'', d))) \<subseteq>\<^sub>m feeds_of ref_json m"
proof -
  have "JsonToIds ref_json ''1'' = None" by (simp add: JsonToIds_def ref_json_def)
  then show ?thesis by (auto simp: feeds_of_def map_le_def)
qed

lemma reserve_parts:
  assumes "redis_TryReserve redis0 tok ttl w = (r, w' :: system_world)"
  shows "pg_master w' = pg_master w" "rb w' = rb w" "feeds_of ref_json (kv w') \<subseteq>\<^sub>m feeds_of ref_json (kv w)"
proof -
  show "pg_master w' = pg_master w" "rb w' = rb w"
    using call_apartD [OF redis_methods_apart(10) assms] ref_redis_apart beside_redis_parts by auto
  show "feeds_of ref_json (kv w') \<subseteq>\<^sub>m feeds_of ref_json (kv w)"
    using assms
    by (auto simp: redis_TryReserve_def redis0_def ref_redis_def Let_def elim!: commandE
        split: if_splits intro: feeds_of_token)
qed

lemma publish_parts:
  assumes "rabbit_PublishJson (publisher0 ty key) rk body w = (r, w')"
  shows "pg_master w' = pg_master w" "kv w' = kv w"
    "rb w' = rb w \<or> (\<exists>ty. rb w' = deliver ref_matches ty events_exchange rk kTransient body (rb w))"
proof -
  show "pg_master w' = pg_master w" "kv w' = kv w"
    using assms by (auto simp: rabbit_PublishJson_def ref_rabbit_def broker_call_def Let_def
        split: sum.splits fault.splits)
  show "rb w' = rb w \<or> (\<exists>ty. rb w' = deliver ref_matches ty events_exchange rk kTransient body (rb w))"
    using ref_rabbit.publish_law [of events_exchange rk body kTransient w r w'] assms by (auto simp: rabbit_PublishJson_def)
qed

lemma broker_inv_deliver:
  assumes "broker_inv b" and "event_message body"
  shows "broker_inv (deliver ref_matches ty x rk mt body b)"
  using assms by (auto simp: broker_inv_def topology_def split: if_splits)

lemma sys_inv_HandleAction:
  assumes "sys_inv w" and "HandleAction ref_json stack_action p w = (r, w')"
  shows "sys_inv w'"
proof (cases "valid_payload p")
  case False
  with assms show ?thesis by (simp add: HandleAction_invalid)
next
  case True
  obtain b w1 where res: "redis_TryReserve redis0 (ap_idempotency_key p) kIdempotencyHold w = (b, w1)" by fastforce
  have inv1: "sys_inv w1"
    using assms(1) reserve_parts [OF res] cache_inv_le by (auto simp: sys_inv_def)
  have "w' = w1 \<or> (\<exists>r. rabbit_PublishJson (publisher0 kTopic ''user.action'') ''user.action''
      (ToString ref_json (action_doc p)) w1 = (r, w'))"
    using assms(2) res True
    by (auto simp: HandleAction_valid bindE_def stack_action_def redis_idempotency_port_def rabbit_queue_port_def
        split: sum.splits prod.splits if_splits)
  then show ?thesis
  proof
    assume "\<exists>r. rabbit_PublishJson (publisher0 kTopic ''user.action'') ''user.action''
      (ToString ref_json (action_doc p)) w1 = (r, w')"
    then obtain r where pub: "rabbit_PublishJson (publisher0 kTopic ''user.action'') ''user.action''
      (ToString ref_json (action_doc p)) w1 = (r, w')" by blast
    have "event_message (ToString ref_json (action_doc p))" using True by (auto simp: event_message_def)
    with publish_parts [OF pub] inv1 broker_inv_deliver show ?thesis by (auto simp: sys_inv_def)
  qed (use inv1 in simp)
qed

lemma sys_inv_post:
  assumes "sys_inv w" and "ActionHandler_HandleRequestThrow ref_json stack_action req w = (r, w')"
  shows "sys_inv w'"
proof (cases "request_payload ref_json req")
  case None
  with ActionHandler_no_payload [of ref_json req stack_action w] assms show ?thesis by auto
next
  case (Some p)
  obtain x v where "HandleAction ref_json stack_action p w = (x, v)" by fastforce
  with ActionHandler_payload [OF Some, of stack_action w] assms sys_inv_HandleAction [of w p x v]
  show ?thesis by (auto split: sum.splits)
qed

lemma stack_recommend_apart:
  assumes "GetRecommendations iter stack_recommend u w = (r, w' :: system_world)"
  shows "rb w' = rb w" and "pg_master w' = pg_master w"
proof -
  have "call_apart f (GetRecommendations iter stack_recommend u)"
    if "beside_redis f" and "\<And>ts q. call_apart f (pg_select_slave ref_pg ts q)" for f :: "system_world \<Rightarrow> 'b"
    unfolding stack_recommend_def
    by (rule redis_recommend_apart)
      (use that in \<open>auto simp: beside_redis_def intro: ref_redis_apart pg_sources_apart\<close>)
  from this [OF beside_redis_parts(1)] this [OF beside_redis_parts(2)] assms
  show "rb w' = rb w" "pg_master w' = pg_master w"
    using ref_select_apart by (auto dest!: call_apartD)
qed

lemma sys_inv_recommend:
  assumes "\<And>xs. mset (iter xs) = mset xs" and "sys_inv w"
    and "GetRecommendations iter stack_recommend u w = (r, w')"
  shows "sys_inv w'"
proof -
  note stack_recommend_apart [OF assms(3)]
  moreover have "cache_inv (kv w')"
    using ensuresD(1) [OF stack_recommend.GetRecommendations_good [OF assms(1)] _ assms(3)] assms(2)
    by (simp add: cache_inv_feeds_good sys_inv_def)
  ultimately show ?thesis using assms(2) by (simp add: sys_inv_def)
qed

lemma pg_GetById_apart:
  assumes "\<And>ts q. call_apart f (pg_select_slave (pg_cluster P) ts q)"
  shows "call_apart f (pg_GetById P i)"
  unfolding pg_GetById_def using assms by (auto intro!: call_apart_bindE split: list.split)

lemma product_handler_apart:
  assumes "\<And>ts q. call_apart f (pg_select_slave ref_pg ts q)"
  shows "call_apart f (ProductHandler_HandleRequestThrow ref_json stack_product req)"
  unfolding ProductHandler_HandleRequestThrow_def GetProductJson_def Let_def stack_product_def pg_catalog_port_def
  using assms
  by (auto intro!: call_apart_bindE call_apart_cases pg_GetById_apart split: sum.split option.split
      simp: pg_data0_def)

lemma sys_inv_product:
  assumes "sys_inv w" and "ProductHandler_HandleRequestThrow ref_json stack_product req w = (r, w')"
  shows "sys_inv w'"
  using assms ref_select_apart [THEN product_handler_apart, THEN call_apartD, OF assms(2)]
  by (simp add: sys_inv_def)

text \<open>The worker on a message of the queue.\<close>

lemma ref_insert_apart: "call_apart rb (pg_insert_master ref_pg ts st)" "call_apart kv (pg_insert_master ref_pg ts st)"
  by (auto simp: call_apart_def ref_pg_def ref_insert_def Let_def split: fault.splits prod.splits)

lemma invalidate_parts:
  assumes "redis_InvalidateAfterUserAction redis0 u w = (r, w' :: system_world)"
  shows "pg_master w' = pg_master w" "rb w' = rb w" "feeds_of ref_json (kv w') \<subseteq>\<^sub>m feeds_of ref_json (kv w)"
proof -
  show "pg_master w' = pg_master w" "rb w' = rb w"
    using call_apartD [OF redis_methods_apart(11) assms] ref_redis_apart beside_redis_parts by auto
  have "keeps (redis_cached kv ref_json) (redis_InvalidateAfterUserAction redis0 u)"
    unfolding redis_InvalidateAfterUserAction_def redis_DropFeed_def redis_InvalidateUserDerived_def redis0_simps
    by (intro keeps_bindE ref_redis.keeps_del)
  from keepsD [OF this assms] show "feeds_of ref_json (kv w') \<subseteq>\<^sub>m feeds_of ref_json (kv w)"
    by (simp add: redis_cached_def)
qed

lemma uc_worker0 [simp]: "uc_pg worker0 = ref_pg" "uc_redis_cache worker0 = Some redis0"
  by (simp_all add: worker0_def redis0_def)

lemma store_action_parts:
  assumes "store_action worker0 p w = (r, w' :: system_world)"
  shows "rb w' = rb w" "feeds_of ref_json (kv w') \<subseteq>\<^sub>m feeds_of ref_json (kv w)"
    "pg_master w' = pg_master w \<or> (\<exists>now. pg_master w' = snd (insert_payload p now (pg_master w)))"
proof -
  obtain n w1 where ins: "pg_insert_master ref_pg (payload_texts p) (insert_payload p) w = (n, w1)" by fastforce
  have "w' = w1 \<or> (\<exists>r. redis_InvalidateAfterUserAction redis0 (ap_user_id p) w1 = (r, w'))"
    using assms ins by (auto simp: store_action_def bindE_def split: sum.splits if_splits)
  then have tail: "rb w' = rb w1 \<and> feeds_of ref_json (kv w') \<subseteq>\<^sub>m feeds_of ref_json (kv w1) \<and> pg_master w' = pg_master w1"
    using invalidate_parts by fastforce
  show "rb w' = rb w" "feeds_of ref_json (kv w') \<subseteq>\<^sub>m feeds_of ref_json (kv w)"
    using tail ref_insert_apart [THEN call_apartD, OF ins] by simp_all
  show "pg_master w' = pg_master w \<or> (\<exists>now. pg_master w' = snd (insert_payload p now (pg_master w)))"
    using tail ref_pg.insert_law [OF ins] by (metis snd_conv)
qed

lemma db_inv_insert:
  assumes "db_inv db" and "valid_payload p"
  shows "db_inv (snd (insert_payload p now db))"
proof -
  have "event_row a" if "a \<in> set (user_actions (snd (insert_payload p now db)))" for a
    using that assms by (auto simp: insert_payload_def kInsertUserAction_def db_inv_def event_row_def row_of_def
        split: if_splits)
  then show ?thesis
    using assms(1) insert_keys_unique by (auto simp: db_inv_def insert_payload_def)
qed

lemma worker_queue_eq: "broker_inv (rb w) \<Longrightarrow> queues (rb w) user_queue = Some (worker_queue w)"
  by (auto simp: broker_inv_def topology_def worker_queue_def)

lemma sys_inv_Process:
  assumes "sys_inv w" and "m \<in> set (worker_queue w)" and "Process ref_json worker0 m w = (r, w')"
  shows "sys_inv w'" and "worker_queue w' = worker_queue w"
proof -
  have "event_message m"
    using assms(1,2) worker_queue_eq [of w] by (auto simp: sys_inv_def broker_inv_def)
  then obtain p where p: "valid_payload p" and m: "m = ToString ref_json (action_doc p)"
    by (auto simp: event_message_def)
  have "store_action worker0 p w = (r, w')"
    using assms(3) unfolding m Process_fields [OF message_fields_action_doc [OF ref_json_codec_ok]] .
  note parts = store_action_parts [OF this]
  have "db_inv (pg_master w')"
    using parts(3) db_inv_insert [OF _ p] assms(1) by (auto simp: sys_inv_def)
  then show "sys_inv w'" and "worker_queue w' = worker_queue w"
    using parts(1,2) assms(1) cache_inv_le by (auto simp: sys_inv_def worker_queue_def)
qed

lemma sys_inv_take:
  assumes "sys_inv w"
  shows "sys_inv (take_message m w)"
proof -
  have "broker_inv (rb (take_message m w))"
    using assms by (auto simp: sys_inv_def broker_inv_def queues_take_message dest: notin_set_remove1 [rotated])
  moreover have "pg_master (take_message m w) = pg_master w" "kv (take_message m w) = kv w"
    by (simp_all add: take_message_def)
  ultimately show ?thesis using assms by (simp add: sys_inv_def)
qed

lemma sys_inv_step:
  assumes "\<And>xs. mset (iter xs) = mset xs" and "sys_inv w" and "sys_step iter w w'"
  shows "sys_inv w'"
  using assms(3)
proof cases
  case (post req r)
  then show ?thesis using sys_inv_post [OF assms(2)] by blast
next
  case (recommend req r)
  then show ?thesis
    using sys_inv_recommend [OF assms(1,2)] assms(2)
    by (auto simp: RecommendHandler_HandleRequestThrow_def Let_def bindE_def
        split: if_splits prod.splits sum.splits)
next
  case (product req r)
  then show ?thesis using sys_inv_product [OF assms(2)] by blast
next
  case (deliver m v)
  then show ?thesis using sys_inv_Process [OF assms(2)] sys_inv_take by blast
next
  case (ack_lost m r)
  then show ?thesis using sys_inv_Process [OF assms(2)] by blast
qed

lemma sys_inv_reachable:
  assumes "\<And>xs. mset (iter xs) = mset xs" and "sys_inv w0" and "reachable iter w0 w"
  shows "sys_inv w"
  using assms(3) unfolding reachable_def
  by (induction rule: rtranclp_induct) (use assms(1,2) sys_inv_step in blast)+

subsection \<open>Growth of the table and progress of the worker\<close>

lemma HandleAction_master:
  assumes "HandleAction ref_json stack_action p w = (r, w' :: system_world)"
  shows "pg_master w' = pg_master w"
proof (cases "valid_payload p")
  case True
  obtain b w1 where res: "redis_TryReserve redis0 (ap_idempotency_key p) kIdempotencyHold w = (b, w1)" by fastforce
  have "w' = w1 \<or> (\<exists>r. rabbit_PublishJson (publisher0 kTopic ''user.action'') ''user.action''
      (ToString ref_json (action_doc p)) w1 = (r, w'))"
    using assms res True
    by (auto simp: HandleAction_valid bindE_def stack_action_def redis_idempotency_port_def rabbit_queue_port_def
        split: sum.splits prod.splits if_splits)
  then show ?thesis using reserve_parts(1) [OF res] publish_parts(1) by fastforce
qed (use assms in \<open>simp add: HandleAction_invalid\<close>)

lemma post_master:
  assumes "ActionHandler_HandleRequestThrow ref_json stack_action req w = (r, w' :: system_world)"
  shows "pg_master w' = pg_master w"
proof (cases "request_payload ref_json req")
  case None
  with ActionHandler_no_payload [of ref_json req stack_action w] assms show ?thesis by auto
next
  case (Some p)
  obtain x v where "HandleAction ref_json stack_action p w = (x, v)" by fastforce
  with ActionHandler_payload [OF Some, of stack_action w] assms HandleAction_master [of p w x v]
  show ?thesis by (auto split: sum.splits)
qed

lemma recommend_handler_master:
  assumes "RecommendHandler_HandleRequestThrow ref_json iter stack_recommend req w = (r, w' :: system_world)"
  shows "pg_master w' = pg_master w"
proof -
  have "call_apart pg_master (RecommendHandler_HandleRequestThrow ref_json iter
      (stack_recommend :: system_world recommendation_service) req)"
    unfolding RecommendHandler_HandleRequestThrow_def Let_def stack_recommend_def
    by (intro call_apart_cases call_apart_bindE call_apart_basic redis_recommend_apart)
      (simp_all add: ref_redis_apart beside_redis_parts pg_sources_apart ref_select_apart)
  from call_apartD [OF this assms] show ?thesis .
qed

lemma Process_master:
  assumes "Process ref_json worker0 m w = (r, w' :: system_world)"
  shows "pg_master w' = pg_master w \<or> (\<exists>p now. pg_master w' = snd (insert_payload p now (pg_master w)))"
proof (cases "message_fields ref_json m")
  case None
  from Process_no_fields [OF ref_json_nonobj None, of worker0 w] assms show ?thesis by simp
next
  case (Some p)
  from store_action_parts(3) [of p w r w'] assms show ?thesis unfolding Process_fields [OF Some] by blast
qed

lemma take_message_simps [simp]:
  "pg_master (take_message m w) = pg_master w" "kv (take_message m w) = kv w"
  "worker_queue (take_message m w) = remove1 m (worker_queue w)" "pg_refuses (take_message m w) = pg_refuses w"
  by (simp_all add: worker_queue_take) (simp_all add: take_message_def)

lemma step_grows:
  assumes "sys_step iter w w'"
  shows "\<exists>new. user_actions (pg_master w') = user_actions (pg_master w) @ new"
proof -
  have grow: "\<exists>new. user_actions db' = user_actions db @ new"
    if "db' = db \<or> (\<exists>p now. db' = snd (insert_payload p now db))" for db db'
    using that insert_grows unfolding insert_payload_def by (metis append_Nil2)
  from assms show ?thesis
    by (cases rule: sys_stepE)
      (auto dest: post_master recommend_handler_master Process_master [THEN grow]
        product_handler_apart [OF ref_select_apart(3), THEN call_apartD])
qed

lemma reachable_grows:
  assumes "reachable iter w w'"
  shows "\<exists>new. user_actions (pg_master w') = user_actions (pg_master w) @ new"
  using assms unfolding reachable_def
proof (induction rule: rtranclp_induct)
  case (step y z)
  then show ?case using step_grows [of iter y z] by fastforce
qed simp

lemma has_row_grows: "has_row p db \<Longrightarrow> user_actions db' = user_actions db @ new \<Longrightarrow> has_row p db'"
  by (auto simp: has_row_def)

text \<open>
  When the servers have stopped failing the processing of an event returns, unless the database refuses a text of
  the event.
\<close>

definition no_more_faults :: "system_world \<Rightarrow> bool" where
  "no_more_faults w \<longleftrightarrow>
     (\<forall>n \<ge> commands w. faults w n = No_fault) \<and> (\<forall>n \<ge> pg_count w. pg_faults w n = No_fault)"

definition storable :: "system_world \<Rightarrow> action_payload \<Rightarrow> bool" where
  "storable w p \<longleftrightarrow> \<not> pg_refuses w (payload_texts p)"

lemma no_more_faults_take [simp]: "no_more_faults (take_message m w) = no_more_faults w"
  by (simp add: no_more_faults_def take_message_def)

text \<open>\<open>R\<close> is what the database refuses.\<close>

definition runs :: "(string list \<Rightarrow> bool) \<Rightarrow> ('a, system_world) prog \<Rightarrow> bool" where
  "runs R m \<longleftrightarrow> (\<forall>w. no_more_faults w \<longrightarrow> pg_refuses w = R \<longrightarrow>
     (\<exists>x w'. m w = (Inr x, w') \<and> no_more_faults w' \<and> pg_refuses w' = R))"

lemma runs_bindE: "runs R m \<Longrightarrow> (\<And>x. runs R (f x)) \<Longrightarrow> runs R (bindE m f)"
  unfolding runs_def by (metis bindE_Inr)

lemma runs_servers:
  "runs R (r_Del ref_redis k)" "\<not> R ts \<Longrightarrow> runs R (pg_insert_master ref_pg ts st)" "runs R (ret x)"
  by (auto simp: runs_def no_more_faults_def ref_redis_def command_def ref_pg_def ref_insert_def Let_def
      split: prod.splits)

lemma runs_store_action: "\<not> R (payload_texts p) \<Longrightarrow> runs R (store_action worker0 p)"
proof -
  assume R: "\<not> R (payload_texts p)"
  have "runs R (redis_InvalidateAfterUserAction redis0 u)" for u
    unfolding redis_InvalidateAfterUserAction_def redis_DropFeed_def redis_InvalidateUserDerived_def redis0_simps
    by (intro runs_bindE runs_servers)
  then show ?thesis
    unfolding store_action_def uc_worker0 option.case
    using R by (auto intro!: runs_bindE runs_servers)
qed

lemma deliver_one:
  assumes "no_more_faults w" and "ToString ref_json (action_doc p) \<in> set (worker_queue w)" and "storable w p"
  obtains v where "store_action worker0 p w = (Inr (), v)" and "no_more_faults v" and "pg_refuses v = pg_refuses w"
    and "sys_step iter w (take_message (ToString ref_json (action_doc p)) v)" and "has_row p (pg_master v)"
proof -
  obtain v where run: "store_action worker0 p w = (Inr (), v)" and v: "no_more_faults v" "pg_refuses v = pg_refuses w"
    using runs_store_action [of "pg_refuses w" p] assms(1,3) unfolding runs_def storable_def by fastforce
  have "Process ref_json worker0 (ToString ref_json (action_doc p)) w = (Inr (), v)"
    using run Process_fields [OF message_fields_action_doc [OF ref_json_codec_ok]] by metis
  moreover have "has_row p (pg_master v)"
    by (rule ref_pg.store_action_master(2) [OF uc_worker0(1) _ run refl])
      (auto dest: invalidate_parts(1))
  ultimately show thesis using that run v sys_step.deliver [OF assms(2)] by blast
qed

lemma deliver_next:
  assumes "no_more_faults w" and "ToString ref_json (action_doc p) \<in> set (worker_queue w)" and "storable w p" and "sys_inv w"
  shows "\<exists>w'. sys_step iter w w' \<and> worker_queue w' = remove1 (ToString ref_json (action_doc p)) (worker_queue w) \<and>
    has_row p (pg_master w') \<and> no_more_faults w' \<and> pg_refuses w' = pg_refuses w \<and> sys_inv w'"
proof -
  obtain v where v: "store_action worker0 p w = (Inr (), v)" "no_more_faults v" "pg_refuses v = pg_refuses w"
    "sys_step iter w (take_message (ToString ref_json (action_doc p)) v)" "has_row p (pg_master v)"
    by (rule deliver_one [OF assms(1-3)])
  have "Process ref_json worker0 (ToString ref_json (action_doc p)) w = (Inr (), v)"
    using v(1) Process_fields [OF message_fields_action_doc [OF ref_json_codec_ok]] by metis
  note q = sys_inv_Process [OF assms(4,2) this]
  from v q(2) sys_inv_take [OF q(1)] show ?thesis
    by (intro exI [of _ "take_message (ToString ref_json (action_doc p)) v"]) simp
qed

text \<open>The queue can be emptied of all that the database takes.\<close>

definition refused_message :: "system_world \<Rightarrow> string \<Rightarrow> bool" where
  "refused_message w m \<longleftrightarrow> (\<exists>p. m = ToString ref_json (action_doc p) \<and> \<not> storable w p)"

lemma refused_message_doc: "refused_message w (ToString ref_json (action_doc p)) \<longleftrightarrow> \<not> storable w p"
  unfolding refused_message_def using message_fields_action_doc [OF ref_json_codec_ok] by (metis option.inject)

lemma drain:
  assumes "no_more_faults w" and "sys_inv w"
  shows "\<exists>w'. reachable iter w w' \<and> pg_refuses w' = pg_refuses w \<and> (\<forall>m \<in> set (worker_queue w'). refused_message w' m) \<and>
    (\<forall>p. ToString ref_json (action_doc p) \<in> set (worker_queue w) \<longrightarrow> storable w p \<longrightarrow> has_row p (pg_master w'))"
  using assms
proof (induction "length (worker_queue w)" arbitrary: w rule: less_induct)
  case less
  show ?case
  proof (cases "\<forall>m \<in> set (worker_queue w). refused_message w m")
    case True
    then show ?thesis
      by (intro exI [of _ w]) (auto simp: reachable_def refused_message_doc)
  next
    case False
    then obtain m where m: "m \<in> set (worker_queue w)" "\<not> refused_message w m" by blast
    then have "event_message m"
      using less.prems(2) worker_queue_eq [of w] by (auto simp: sys_inv_def broker_inv_def)
    then obtain p where p: "m = ToString ref_json (action_doc p)" by (auto simp: event_message_def)
    with m have "storable w p" by (simp add: refused_message_doc)
    from deliver_next [OF less.prems(1) _ this less.prems(2)] m(1) p obtain w1 where s: "sys_step iter w w1"
      and q: "worker_queue w1 = remove1 m (worker_queue w)" and row: "has_row p (pg_master w1)"
      and w1: "no_more_faults w1" "sys_inv w1" "pg_refuses w1 = pg_refuses w" by blast
    have "length (worker_queue w1) < length (worker_queue w)"
      using m(1) length_pos_if_in_set [OF m(1)] by (simp add: q length_remove1)
    from less.hyps [OF this w1(1,2)] obtain w2 where w2: "reachable iter w1 w2" "pg_refuses w2 = pg_refuses w1"
      "\<forall>m \<in> set (worker_queue w2). refused_message w2 m"
      and all: "\<And>p. ToString ref_json (action_doc p) \<in> set (worker_queue w1) \<Longrightarrow> storable w1 p \<Longrightarrow> has_row p (pg_master w2)"
      by blast
    have "has_row p (pg_master w2)" using has_row_grows [OF row] reachable_grows [OF w2(1)] by blast
    moreover have "p' = p" if "ToString ref_json (action_doc p') = m" for p'
      using that p message_fields_action_doc [OF ref_json_codec_ok] by (metis option.inject)
    moreover have "storable w1 p' = storable w p'" for p' by (simp add: storable_def w1(3))
    ultimately have "has_row p' (pg_master w2)"
      if "ToString ref_json (action_doc p') \<in> set (worker_queue w)" "storable w p'" for p'
      using all [of p'] that by (cases "ToString ref_json (action_doc p') = m") (auto simp: q)
    moreover have "reachable iter w w2"
      using s w2(1) unfolding reachable_def by (rule converse_rtranclp_into_rtranclp)
    ultimately show ?thesis using w2 w1(3) by (intro exI [of _ w2]) simp
  qed
qed

subsection \<open>Start\<close>

text \<open>After the start: the topology is declared, the tables of actions, the queue and Redis are empty.\<close>

definition sys_start :: "system_world \<Rightarrow> bool" where
  "sys_start w \<longleftrightarrow> topology (publisher0 kTopic ''user.action'' :: system_world rabbit_publisher) (rb w) \<and>
     worker_queue w = [] \<and> user_actions (pg_master w) = [] \<and> kv w = Map.empty"

lemma sys_inv_start: "sys_start w \<Longrightarrow> sys_inv w"
  by (auto simp: sys_start_def sys_inv_def db_inv_def keys_unique_def broker_inv_def cache_inv_def feeds_of_def
      worker_queue_def)

end
