(* ===== verification/Dialogues.thy ===== *)
theory Dialogues
  imports Ttl_Policy
begin

text \<open>
  Programs that talk to servers, for any kind of command and answer: a program runs on a world that
  answers its commands from a list. Here is what can be said of the dialogue that comes of it: which
  commands a program gives and how many, that one more answer is one more exchange, and what it makes of
  answers that satisfy a predicate.
\<close>

subsection \<open>The world of a thread\<close>

text \<open>
  The answers still to be read, the first command that found none, and the commands that
  found one, with it.
\<close>

record ('c, 'a) talk = clocks +
  answers :: "'a list"
  asked :: "'c option"
  dialogue :: "('c \<times> 'a) list"

definition ask :: "'c \<Rightarrow> ('a \<Rightarrow> exn + 'b) \<Rightarrow> ('b, ('c, 'a) talk) prog" where
  "ask c read t =
     (case answers t of
        a # as \<Rightarrow> (read a, t\<lparr>answers := as, dialogue := dialogue t @ [(c, a)]\<rparr>)
      | [] \<Rightarrow> (Inl (Library_error ''waiting''),
               t\<lparr>asked := (case asked t of None \<Rightarrow> Some c | Some c' \<Rightarrow> Some c')\<rparr>))"

subsection \<open>Which commands a program gives, and how many\<close>

text \<open>
  \<open>asks P n m\<close>: on any list of answers \<open>m\<close> reads at most \<open>n\<close> of them
  in their order, to commands that satisfy \<open>P\<close>; so does the command it asks for in vain;
  with \<open>n\<close> answers at hand it asks for none in vain; and what had been asked before
  stays asked.
\<close>

definition asks :: "('c \<Rightarrow> bool) \<Rightarrow> nat \<Rightarrow> ('b, ('c, 'a) talk) prog \<Rightarrow> bool" where
  "asks P n m \<longleftrightarrow> (\<forall>t r t'. m t = (r, t') \<longrightarrow>
     (\<exists>es. dialogue t' = dialogue t @ es \<and> answers t = map snd es @ answers t' \<and> length es \<le> n \<and>
        (\<forall>e \<in> set es. P (fst e))) \<and>
     (asked t' = asked t \<or> asked t = None \<and> (\<exists>c. asked t' = Some c \<and> P c)) \<and>
     (n \<le> length (answers t) \<longrightarrow> asked t' = asked t))"

lemma asksD:
  assumes "asks P n m" and "m t = (r, t')"
  shows "\<exists>es. dialogue t' = dialogue t @ es \<and> answers t = map snd es @ answers t' \<and> length es \<le> n \<and>
      (\<forall>e \<in> set es. P (fst e))"
    and "asked t' = asked t \<or> asked t = None \<and> (\<exists>c. asked t' = Some c \<and> P c)"
    and "n \<le> length (answers t) \<Longrightarrow> asked t' = asked t"
  using assms by (auto simp: asks_def)

lemma asks_mono: "asks P n m \<Longrightarrow> n \<le> n' \<Longrightarrow> asks P n' m"
  unfolding asks_def by (meson le_trans)

lemma asks_pure [simp]: "asks P n (ret x)" "asks P n (throw e)" "asks P n (pure_prog r)"
  by (simp_all add: asks_def)

lemma asks_clock [simp]: "asks P n sys_now"
  by (simp add: asks_def)

lemma asks_ask [simp]: "P c \<Longrightarrow> asks P (Suc n) (ask c read)"
  by (auto simp: asks_def ask_def split: list.splits option.splits)

lemma asks_then:
  assumes "asks P n m" and "\<And>x. asks P k (f x)" and "\<And>e. asks P k (h e)"
  shows "asks P (n + k) (\<lambda>t. case m t of (Inl e, t1) \<Rightarrow> h e t1 | (Inr x, t1) \<Rightarrow> f x t1)"
proof (unfold asks_def, intro allI impI)
  fix t r t'
  assume run: "(case m t of (Inl e, t1) \<Rightarrow> h e t1 | (Inr x, t1) \<Rightarrow> f x t1) = (r, t')"
  obtain y t1 where m: "m t = (y, t1)" by fastforce
  obtain g where g: "asks P k g" "g t1 = (r, t')"
    using run m assms(2,3) by (cases y) auto
  obtain es fs where es: "dialogue t1 = dialogue t @ es" "answers t = map snd es @ answers t1" "length es \<le> n"
      "\<forall>e \<in> set es. P (fst e)"
    and fs: "dialogue t' = dialogue t1 @ fs" "answers t1 = map snd fs @ answers t'" "length fs \<le> k"
      "\<forall>e \<in> set fs. P (fst e)"
    using asksD(1) [OF assms(1) m] asksD(1) [OF g] by blast
  have "asked t' = asked t" if "n + k \<le> length (answers t)"
    using asksD(3) [OF assms(1) m] asksD(3) [OF g] es that by simp
  moreover have "asked t' = asked t \<or> asked t = None \<and> (\<exists>c. asked t' = Some c \<and> P c)"
    using asksD(2) [OF assms(1) m] asksD(2) [OF g] by auto
  ultimately show "(\<exists>es. dialogue t' = dialogue t @ es \<and> answers t = map snd es @ answers t' \<and> length es \<le> n + k \<and>
        (\<forall>e \<in> set es. P (fst e))) \<and>
      (asked t' = asked t \<or> asked t = None \<and> (\<exists>c. asked t' = Some c \<and> P c)) \<and>
      (n + k \<le> length (answers t) \<longrightarrow> asked t' = asked t)"
    using es fs by (intro conjI exI [of _ "es @ fs"]) auto
qed

lemma asks_bindE:
  assumes "asks P n m" and "\<And>x. asks P k (f x)"
  shows "asks P (n + k) (bindE m f)"
proof -
  have "bindE m f = (\<lambda>t. case m t of (Inl e, t1) \<Rightarrow> throw e t1 | (Inr x, t1) \<Rightarrow> f x t1)"
    by (auto simp: fun_eq_iff bindE_def split: prod.split sum.split)
  with asks_then [OF assms asks_pure(2)] show ?thesis by simp
qed

lemma asks_try_catch:
  assumes "asks P n m" and "\<And>e. asks P k (h e)"
  shows "asks P (n + k) (try_catch m h)"
proof -
  have "try_catch m h = (\<lambda>t. case m t of (Inl e, t1) \<Rightarrow> h e t1 | (Inr x, t1) \<Rightarrow> ret x t1)"
    by (auto simp: fun_eq_iff try_catch_def split: prod.split sum.split)
  with asks_then [OF assms(1) asks_pure(1) assms(2)] show ?thesis by simp
qed

lemma asks_max: "asks P n m \<Longrightarrow> asks P (max n k) m" "asks P k m \<Longrightarrow> asks P (max n k) m"
  by (erule asks_mono, simp)+

lemma asks_if: "asks P n m \<Longrightarrow> asks P k m' \<Longrightarrow> asks P (max n k) (if b then m else m')"
  by (simp add: asks_max)

lemma asks_option:
  "asks P n m \<Longrightarrow> (\<And>x. asks P k (f x)) \<Longrightarrow> asks P (max n k) (case v of None \<Rightarrow> m | Some x \<Rightarrow> f x)"
  by (cases v) (simp_all add: asks_max)

lemma asks_sum:
  "(\<And>e. asks P n (g e)) \<Longrightarrow> (\<And>x. asks P k (f x)) \<Longrightarrow> asks P (max n k) (case v of Inl e \<Rightarrow> g e | Inr x \<Rightarrow> f x)"
  by (cases v) (simp_all add: asks_max)

lemma asks_list:
  "asks P n m \<Longrightarrow> (\<And>x xs. asks P k (f x xs)) \<Longrightarrow> asks P (max n k) (case v of [] \<Rightarrow> m | x # xs \<Rightarrow> f x xs)"
  by (cases v) (simp_all add: asks_max)

lemmas asks_basic = asks_pure [where n = 0] asks_clock [where n = 0] asks_ask [where n = 0]

lemma asks_clock_only:
  assumes "\<And>t. \<exists>x c. m t = (x, t\<lparr>sys_clk := c\<rparr>)"
  shows "asks P 0 m"
proof (unfold asks_def, intro allI impI)
  fix t r t' assume "m t = (r, t')"
  with assms [of t] obtain c where "t' = t\<lparr>sys_clk := c\<rparr>" by auto
  then show "(\<exists>es. dialogue t' = dialogue t @ es \<and> answers t = map snd es @ answers t' \<and> length es \<le> 0 \<and>
        (\<forall>e \<in> set es. P (fst e))) \<and>
      (asked t' = asked t \<or> asked t = None \<and> (\<exists>c. asked t' = Some c \<and> P c)) \<and>
      (0 \<le> length (answers t) \<longrightarrow> asked t' = asked t)" by simp
qed

lemma asks_quiet:
  assumes "\<And>t. \<exists>x. m t = (x, t)"
  shows "asks P n m"
proof (unfold asks_def, intro allI impI)
  fix t r t' assume "m t = (r, t')"
  with assms [of t] have "t' = t" by auto
  then show "(\<exists>es. dialogue t' = dialogue t @ es \<and> answers t = map snd es @ answers t' \<and> length es \<le> n \<and>
        (\<forall>e \<in> set es. P (fst e))) \<and>
      (asked t' = asked t \<or> asked t = None \<and> (\<exists>c. asked t' = Some c \<and> P c)) \<and>
      (n \<le> length (answers t) \<longrightarrow> asked t' = asked t)" by simp
qed

lemma asks_ttl_calls: "asks P 0 (ShouldInvalidateFeed_call v)" "asks P 0 (ClassifyVisit_call v)"
  by (rule asks_clock_only, metis ShouldInvalidateFeed_call_run)
    (rule asks_clock_only, metis ClassifyVisit_call_run)

lemma bindE_cases: "bindE m f = (\<lambda>t. case m t of (Inl e, t1) \<Rightarrow> throw e t1 | (Inr x, t1) \<Rightarrow> f x t1)"
  by (auto simp: fun_eq_iff bindE_def split: prod.split sum.split)

lemma try_catch_cases: "try_catch m h = (\<lambda>t. case m t of (Inl e, t1) \<Rightarrow> h e t1 | (Inr x, t1) \<Rightarrow> ret x t1)"
  by (auto simp: fun_eq_iff try_catch_def split: prod.split sum.split)

subsection \<open>One more answer is one more exchange\<close>

definition steps :: "('b, ('c, 'a) talk) prog \<Rightarrow> bool" where
  "steps m \<longleftrightarrow> (\<forall>t r t'. m t = (r, t') \<longrightarrow>
     (\<exists>es. dialogue t' = dialogue t @ es \<and> answers t = map snd es @ answers t') \<and>
     (\<forall>c. asked t = Some c \<longrightarrow> asked t' = Some c) \<and>
     (\<forall>a. asked t = None \<longrightarrow> asked t' = None \<longrightarrow>
        m (t\<lparr>answers := answers t @ [a]\<rparr>) = (r, t'\<lparr>answers := answers t' @ [a]\<rparr>)) \<and>
     (\<forall>c a r'' t''. asked t = None \<longrightarrow> asked t' = Some c \<longrightarrow> m (t\<lparr>answers := answers t @ [a]\<rparr>) = (r'', t'') \<longrightarrow>
        answers t' = [] \<and> answers t'' = [] \<and> dialogue t'' = dialogue t' @ [(c, a)]))"

lemma stepsD:
  assumes "steps m" and "m t = (r, t')"
  shows "\<exists>es. dialogue t' = dialogue t @ es \<and> answers t = map snd es @ answers t'"
    and "asked t = Some c \<Longrightarrow> asked t' = Some c"
    and "asked t = None \<Longrightarrow> asked t' = None \<Longrightarrow>
      m (t\<lparr>answers := answers t @ [a]\<rparr>) = (r, t'\<lparr>answers := answers t' @ [a]\<rparr>)"
    and "asked t = None \<Longrightarrow> asked t' = Some c \<Longrightarrow> m (t\<lparr>answers := answers t @ [a]\<rparr>) = (r'', t'') \<Longrightarrow>
      answers t' = [] \<and> answers t'' = [] \<and> dialogue t'' = dialogue t' @ [(c, a)]"
  using assms unfolding steps_def by blast+

lemma steps_silent: "steps m \<Longrightarrow> m t = (r, t') \<Longrightarrow> answers t = [] \<Longrightarrow> answers t' = [] \<and> dialogue t' = dialogue t"
  using stepsD(1) by fastforce

lemma steps_clocks:
  assumes "\<And>t. m t = (fst (f (sys_clk t)), t\<lparr>sys_clk := snd (f (sys_clk t))\<rparr>)"
  shows "steps m"
  using assms by (auto simp: steps_def)

lemma steps_basic: "steps (ret x)" "steps (throw e)" "steps (pure_prog y)" "steps sys_now" "steps (ask c read)"
proof -
  show "steps (ret x)" by (rule steps_clocks [where f = "\<lambda>c. (Inr x, c)"]) simp
  show "steps (throw e)" by (rule steps_clocks [where f = "\<lambda>c. (Inl e, c)"]) simp
  show "steps (pure_prog y)" by (rule steps_clocks [where f = "\<lambda>c. (y, c)"]) simp
  show "steps sys_now" by (rule steps_clocks [where f = "\<lambda>c. (Inr (peek c), tick c)"]) simp
  show "steps (ask c read)"
    by (auto simp: steps_def ask_def split: list.splits option.splits)
qed

lemma steps_then:
  assumes "steps m" and "\<And>x. steps (f x)" and "\<And>e. steps (h e)"
  shows "steps (\<lambda>t. case m t of (Inl e, t1) \<Rightarrow> h e t1 | (Inr x, t1) \<Rightarrow> f x t1)"
proof (unfold steps_def, intro allI impI)
  let ?M = "\<lambda>t. case m t of (Inl e, t1) \<Rightarrow> h e t1 | (Inr x, t1) \<Rightarrow> f x t1"
  let ?g = "\<lambda>y. case y of Inl e \<Rightarrow> h e | Inr x \<Rightarrow> f x"
  have M: "?M t = ?g y t1" if "m t = (y, t1)" for t y t1 using that by (simp split: sum.split)
  have g: "steps (?g y)" for y using assms(2,3) by (simp split: sum.split)
  fix t r t'
  assume run: "?M t = (r, t')"
  obtain y t1 where m: "m t = (y, t1)" by fastforce
  have run': "?g y t1 = (r, t')" using run M [OF m] by simp
  obtain es fs where es: "dialogue t1 = dialogue t @ es" "answers t = map snd es @ answers t1"
    and fs: "dialogue t' = dialogue t1 @ fs" "answers t1 = map snd fs @ answers t'"
    using stepsD(1) [OF assms(1) m] stepsD(1) [OF g run'] by blast
  show "(\<exists>es. dialogue t' = dialogue t @ es \<and> answers t = map snd es @ answers t') \<and>
     (\<forall>c. asked t = Some c \<longrightarrow> asked t' = Some c) \<and>
     (\<forall>a. asked t = None \<longrightarrow> asked t' = None \<longrightarrow>
        ?M (t\<lparr>answers := answers t @ [a]\<rparr>) = (r, t'\<lparr>answers := answers t' @ [a]\<rparr>)) \<and>
     (\<forall>c a r'' t''. asked t = None \<longrightarrow> asked t' = Some c \<longrightarrow> ?M (t\<lparr>answers := answers t @ [a]\<rparr>) = (r'', t'') \<longrightarrow>
        answers t' = [] \<and> answers t'' = [] \<and> dialogue t'' = dialogue t' @ [(c, a)])"
  proof (intro conjI allI impI)
    show "\<exists>es. dialogue t' = dialogue t @ es \<and> answers t = map snd es @ answers t'"
      using es fs by (intro exI [of _ "es @ fs"]) simp
  next
    fix c assume "asked t = Some c"
    with stepsD(2) [OF assms(1) m] stepsD(2) [OF g run'] show "asked t' = Some c" by blast
  next
    fix a assume a: "asked t = None" "asked t' = None"
    then have n: "asked t1 = None" using stepsD(2) [OF g run'] by (cases "asked t1") auto
    from M [OF stepsD(3) [OF assms(1) m a(1) n]] stepsD(3) [OF g run' n a(2)]
    show "?M (t\<lparr>answers := answers t @ [a]\<rparr>) = (r, t'\<lparr>answers := answers t' @ [a]\<rparr>)" by simp
  next
    fix c a r'' t''
    assume a: "asked t = None" "asked t' = Some c" and run2: "?M (t\<lparr>answers := answers t @ [a]\<rparr>) = (r'', t'')"
    have "answers t' = [] \<and> answers t'' = [] \<and> dialogue t'' = dialogue t' @ [(c, a)]"
    proof (cases "asked t1")
      case None
      have "?g y (t1\<lparr>answers := answers t1 @ [a]\<rparr>) = (r'', t'')"
        using run2 M [OF stepsD(3) [OF assms(1) m a(1) None]] by simp
      from stepsD(4) [OF g run' None a(2) this] show ?thesis .
    next
      case (Some d)
      then have "d = c" using stepsD(2) [OF g run'] a(2) by simp
      obtain y2 t2 where m2: "m (t\<lparr>answers := answers t @ [a]\<rparr>) = (y2, t2)" by fastforce
      from stepsD(4) [OF assms(1) m a(1) Some m2] have 1: "answers t1 = []" "answers t2 = []" "dialogue t2 = dialogue t1 @ [(d, a)]"
        by blast+
      have run3: "?g y2 t2 = (r'', t'')" using run2 M [OF m2] by simp
      from steps_silent [OF g run' 1(1)] steps_silent [OF g run3 1(2)] 1(3) \<open>d = c\<close> show ?thesis by simp
    qed
    then show "answers t' = []" "answers t'' = []" "dialogue t'' = dialogue t' @ [(c, a)]" by blast+
  qed
qed

lemma steps_bindE: "steps m \<Longrightarrow> (\<And>x. steps (f x)) \<Longrightarrow> steps (bindE m f)"
  unfolding bindE_cases by (intro steps_then steps_basic)

lemma steps_try_catch: "steps m \<Longrightarrow> (\<And>e. steps (h e)) \<Longrightarrow> steps (try_catch m h)"
  unfolding try_catch_cases by (intro steps_then steps_basic)

lemma steps_branch:
  "steps m \<Longrightarrow> steps m' \<Longrightarrow> steps (if b then m else m')"
  "steps m \<Longrightarrow> (\<And>x. steps (f x)) \<Longrightarrow> steps (case v of None \<Rightarrow> m | Some x \<Rightarrow> f x)"
  "(\<And>e. steps (g e)) \<Longrightarrow> (\<And>y. steps (k y)) \<Longrightarrow> steps (case z of Inl e \<Rightarrow> g e | Inr y \<Rightarrow> k y)"
  "steps m \<Longrightarrow> (\<And>p ps. steps (l p ps)) \<Longrightarrow> steps (case q of [] \<Rightarrow> m | p # ps \<Rightarrow> l p ps)"
  by (simp_all split: option.split sum.split list.split)

lemma steps_ttl_calls: "steps (ShouldInvalidateFeed_call v)" "steps (ClassifyVisit_call v)"
  unfolding ShouldInvalidateFeed_call_def ClassifyVisit_call_def by (intro steps_bindE steps_branch steps_basic)+

subsection \<open>Results from good answers\<close>

text \<open>\<open>hears R m Q\<close>: if every exchange so far satisfies \<open>R\<close>, a result of \<open>m\<close> satisfies \<open>Q\<close>.\<close>

definition hears :: "('c \<times> 'a \<Rightarrow> bool) \<Rightarrow> ('b, ('c, 'a) talk) prog \<Rightarrow> ('b \<Rightarrow> bool) \<Rightarrow> bool" where
  "hears R m Q \<longleftrightarrow> (\<forall>t r t'. m t = (r, t') \<longrightarrow> set (dialogue t) \<subseteq> set (dialogue t') \<and>
     ((\<forall>e \<in> set (dialogue t'). R e) \<longrightarrow> (\<forall>x. r = Inr x \<longrightarrow> Q x)))"

lemma hearsD:
  assumes "hears R m Q" and "m t = (r, t')"
  shows "set (dialogue t) \<subseteq> set (dialogue t')" and "(\<And>e. e \<in> set (dialogue t') \<Longrightarrow> R e) \<Longrightarrow> r = Inr x \<Longrightarrow> Q x"
  using assms by (auto simp: hears_def)

lemma hears_steps: "steps m \<Longrightarrow> hears R m (\<lambda>_. True)"
  by (auto simp: hears_def dest: stepsD(1))

lemma hears_ret: "Q x \<Longrightarrow> hears R (ret x) Q"
  by (simp add: hears_def)

lemma hears_ask: "(\<And>a x. R (c, a) \<Longrightarrow> read a = Inr x \<Longrightarrow> Q x) \<Longrightarrow> hears R (ask c read) Q"
  by (auto simp: hears_def ask_def split: list.splits)

lemma hears_bindE:
  assumes "hears R m Q" and "\<And>x. Q x \<Longrightarrow> hears R (f x) S" and "\<And>x. hears R (f x) (\<lambda>_. True)"
  shows "hears R (bindE m f) S"
proof (unfold hears_def, intro allI impI)
  fix t r t' assume run: "bindE m f t = (r, t')"
  obtain y t1 where m: "m t = (y, t1)" by fastforce
  show "set (dialogue t) \<subseteq> set (dialogue t') \<and>
      ((\<forall>e \<in> set (dialogue t'). R e) \<longrightarrow> (\<forall>x. r = Inr x \<longrightarrow> S x))"
  proof (cases y)
    case (Inl e)
    with run m hearsD(1) [OF assms(1) m] show ?thesis by auto
  next
    case (Inr x)
    then have f: "f x t1 = (r, t')" using run m by simp
    have sub: "set (dialogue t1) \<subseteq> set (dialogue t')" by (rule hearsD(1) [OF assms(3) f])
    then have "Q x" if "\<forall>e \<in> set (dialogue t'). R e"
      using hearsD(2) [OF assms(1) m, of x] that Inr by blast
    with hearsD(2) [OF assms(2) f] sub hearsD(1) [OF assms(1) m] show ?thesis by blast
  qed
qed

lemma hears_seq: "steps m \<Longrightarrow> (\<And>x. hears R (f x) S) \<Longrightarrow> (\<And>x. steps (f x)) \<Longrightarrow> hears R (bindE m f) S"
  by (rule hears_bindE [OF hears_steps]) (auto intro: hears_steps)

subsection \<open>Programs that return on fine answers\<close>

definition returns_on :: "('c \<times> 'a \<Rightarrow> bool) \<Rightarrow> ('b, ('c, 'a) talk) prog \<Rightarrow> bool" where
  "returns_on R m \<longleftrightarrow> (\<forall>t r t'. m t = (r, t') \<longrightarrow> asked t' = None \<longrightarrow> (\<forall>e \<in> set (dialogue t'). R e) \<longrightarrow> (\<exists>x. r = Inr x))"

lemma returns_on_basic: "returns_on R (ret x)" "returns_on R sys_now"
  by (simp_all add: returns_on_def)

lemma returns_on_ask: "(\<And>a. R (c, a) \<Longrightarrow> \<exists>x. read a = Inr x) \<Longrightarrow> returns_on R (ask c read)"
  by (auto simp: returns_on_def ask_def split: list.splits option.splits)

lemma returns_on_bindE:
  assumes "returns_on R m" and "\<And>x. returns_on R (f x)"
  shows "returns_on R (bindE m f)"
proof (unfold returns_on_def, intro allI impI)
  fix t r t' assume run: "bindE m f t = (r, t')" and ok: "asked t' = None" "\<forall>e \<in> set (dialogue t'). R e"
  obtain y t1 where m: "m t = (y, t1)" by fastforce
  show "\<exists>x. r = Inr x"
  proof (cases y)
    case (Inl e)
    with run m have "t' = t1" by simp
    with assms(1) m ok Inl show ?thesis by (auto simp: returns_on_def)
  next
    case (Inr x)
    with run m have "f x t1 = (r, t')" by simp
    with assms(2) ok show ?thesis by (auto simp: returns_on_def)
  qed
qed

lemma returns_on_try_catch:
  assumes "\<And>e. returns_on R (h e)"
  shows "returns_on R (try_catch m h)"
proof (unfold returns_on_def, intro allI impI)
  fix t r t' assume run: "try_catch m h t = (r, t')" and ok: "asked t' = None" "\<forall>e \<in> set (dialogue t'). R e"
  obtain y t1 where "m t = (y, t1)" by fastforce
  with run ok assms show "\<exists>x. r = Inr x" by (cases y) (auto simp: returns_on_def)
qed

text \<open>When the rest only returns on some results, which these answers give.\<close>

lemma returns_on_heard:
  assumes "returns_on R m" and "hears R m Q" and "\<And>x. Q x \<Longrightarrow> returns_on R (f x)" and "\<And>x. steps (f x)"
  shows "returns_on R (bindE m f)"
proof (unfold returns_on_def, intro allI impI)
  fix t r t' assume run: "bindE m f t = (r, t')" and ok: "asked t' = None" "\<forall>e \<in> set (dialogue t'). R e"
  obtain y t1 where m: "m t = (y, t1)" by fastforce
  show "\<exists>x. r = Inr x"
  proof (cases y)
    case (Inl e)
    with run m have "t' = t1" by simp
    with assms(1) m ok Inl show ?thesis by (auto simp: returns_on_def)
  next
    case (Inr x)
    with run m have f: "f x t1 = (r, t')" by simp
    have "set (dialogue t1) \<subseteq> set (dialogue t')" using stepsD(1) [OF assms(4) f] by auto
    with hearsD(2) [OF assms(2) m _ Inr] ok have "Q x" by blast
    with assms(3) f ok show ?thesis by (auto simp: returns_on_def)
  qed
qed

lemma returns_on_branch:
  "returns_on R m \<Longrightarrow> returns_on R m' \<Longrightarrow> returns_on R (if b then m else m')"
  "returns_on R m \<Longrightarrow> (\<And>x. returns_on R (f x)) \<Longrightarrow> returns_on R (case v of None \<Rightarrow> m | Some x \<Rightarrow> f x)"
  "(\<And>e. returns_on R (g e)) \<Longrightarrow> (\<And>y. returns_on R (k y)) \<Longrightarrow> returns_on R (case z of Inl e \<Rightarrow> g e | Inr y \<Rightarrow> k y)"
  by (simp_all split: option.split sum.split)

subsection \<open>Rely and guarantee of a program\<close>

text \<open>
  \<open>sound R P m Q\<close>: as long as every exchange satisfies \<open>R\<close>, what \<open>m\<close> asks for satisfies
  \<open>P\<close> and what it returns satisfies \<open>Q\<close>.
\<close>

definition guarded :: "('c \<times> 'a \<Rightarrow> bool) \<Rightarrow> ('c \<Rightarrow> bool) \<Rightarrow> ('b, ('c, 'a) talk) prog \<Rightarrow> bool" where
  "guarded R P m \<longleftrightarrow> (\<forall>t r t' c. m t = (r, t') \<longrightarrow> (\<forall>e \<in> set (dialogue t'). R e) \<longrightarrow> asked t = None \<longrightarrow>
     asked t' = Some c \<longrightarrow> P c)"

definition sound ::
  "('c \<times> 'a \<Rightarrow> bool) \<Rightarrow> ('c \<Rightarrow> bool) \<Rightarrow> ('b, ('c, 'a) talk) prog \<Rightarrow> ('b \<Rightarrow> bool) \<Rightarrow> bool" where
  "sound R P m Q \<longleftrightarrow> steps m \<and> hears R m Q \<and> guarded R P m"

lemma sound_mono: "sound R P m Q \<Longrightarrow> (\<And>x. Q x \<Longrightarrow> S x) \<Longrightarrow> sound R P m S"
  by (fastforce simp: sound_def hears_def)

lemma sound_quiet:
  assumes "asks P n m" and "steps m"
  shows "sound R P m (\<lambda>_. True)"
  using assms asksD(2) by (fastforce simp: sound_def guarded_def intro: hears_steps)

lemma sound_ret: "Q x \<Longrightarrow> sound R P (ret x) Q"
  by (auto simp: sound_def guarded_def intro: steps_basic hears_ret)

lemma sound_ask:
  assumes "P c" and "\<And>a x. R (c, a) \<Longrightarrow> read a = Inr x \<Longrightarrow> Q x"
  shows "sound R P (ask c read) Q"
  unfolding sound_def using assms
  by (auto simp: guarded_def ask_def split: list.splits intro: steps_basic hears_ask)

lemma sound_bindE:
  assumes "sound R P m Q" and "\<And>x. Q x \<Longrightarrow> sound R P (f x) S" and "\<And>x. steps (f x)"
  shows "sound R P (bindE m f) S"
proof (unfold sound_def, intro conjI)
  show "steps (bindE m f)" using assms(1,3) by (simp add: sound_def steps_bindE)
  show "hears R (bindE m f) S"
    by (rule hears_bindE [where Q = Q]) (use assms(1,2) in \<open>auto simp: sound_def intro: hears_steps assms(3)\<close>)
  show "guarded R P (bindE m f)"
  proof (unfold guarded_def, intro allI impI)
    fix t r t' c
    assume run: "bindE m f t = (r, t')" and ok: "\<forall>e \<in> set (dialogue t'). R e" and a: "asked t = None" "asked t' = Some c"
    obtain y t1 where m: "m t = (y, t1)" by fastforce
    show "P c"
    proof (cases y)
      case (Inl e)
      with run m have "t' = t1" by simp
      with assms(1) m ok a show ?thesis unfolding sound_def guarded_def by blast
    next
      case (Inr x)
      with run m have f: "f x t1 = (r, t')" by simp
      have sub: "\<forall>e \<in> set (dialogue t1). R e" using stepsD(1) [OF assms(3) f] ok by auto
      then have "Q x" using assms(1) m Inr unfolding sound_def hears_def by blast
      from assms(2) [OF this] have g: "guarded R P (f x)" by (simp add: sound_def)
      show ?thesis
      proof (cases "asked t1")
        case None
        with g f ok a show ?thesis unfolding guarded_def by blast
      next
        case (Some d)
        with stepsD(2) [OF assms(3) f] a(2) have "d = c" by simp
        with assms(1) m sub a(1) Some show ?thesis unfolding sound_def guarded_def by blast
      qed
    qed
  qed
qed

lemma sound_seq:
  assumes "asks P n m" and "steps m" and "\<And>x. sound R P (f x) S"
  shows "sound R P (bindE m f) S"
  by (rule sound_bindE [OF sound_quiet [OF assms(1,2)]]) (use assms(3) in \<open>auto simp: sound_def\<close>)

end
