(* ===== verification/Threads.thy ===== *)
theory Threads
  imports System Dialogues
begin

text \<open>
  A request or a delivery as a thread of its own. The operations of the program are
  parametric in the world and in the clients of the three servers. Here they run on clients
  that answer from a list: each command takes the next answer, and a command for which there
  is none left is what the thread is waiting for. A thread is therefore given by what it is
  working on and the answers it has had, and between any two of its commands other threads
  may run. \<open>Pool\<close> interleaves them.
\<close>

subsection \<open>Commands and answers\<close>

datatype call =
    CGet string | CSetex string secs string | CDel string | CTtl string | CExpire string secs
  | CSetIfNotExist string string int
  | CSelect "string list" select_stmt | CInsert "string list" insert_stmt
  | CDeclareExchange string exchange_type "declare_flag list" | CDeclareQueue string "declare_flag list"
  | CBindQueue string string string | CPublish string string string message_type

datatype answer =
    AText "exn + string option" | AUnit "exn + unit" | ATtl "exn + ttl_reply" | ABool "exn + bool"
  | ARows "exn + sql_row list" | ACount "exn + nat"

text \<open>What the reference servers answer to a command.\<close>

fun serve :: "call \<Rightarrow> system_world \<Rightarrow> answer \<times> system_world" where
  "serve (CGet k) w = map_prod AText id (r_Get ref_redis k w)"
| "serve (CSetex k ttl v) w = map_prod AUnit id (r_Setex ref_redis k ttl v w)"
| "serve (CDel k) w = map_prod AUnit id (r_Del ref_redis k w)"
| "serve (CTtl k) w = map_prod ATtl id (r_Ttl ref_redis k w)"
| "serve (CExpire k ttl) w = map_prod AUnit id (r_Expire ref_redis k ttl w)"
| "serve (CSetIfNotExist k v ms) w = map_prod ABool id (r_SetIfNotExist ref_redis k v ms w)"
| "serve (CSelect ts q) w = map_prod ARows id (pg_select_slave ref_pg ts q w)"
| "serve (CInsert ts st) w = map_prod ACount id (pg_insert_master ref_pg ts st w)"
| "serve (CDeclareExchange x ty fl) w = map_prod AUnit id (DeclareExchange ref_rabbit x ty fl w)"
| "serve (CDeclareQueue q fl) w = map_prod AUnit id (DeclareQueue ref_rabbit q fl w)"
| "serve (CBindQueue x q k) w = map_prod AUnit id (BindQueue ref_rabbit x q k w)"
| "serve (CPublish x rk body mt) w = map_prod AUnit id (PublishReliable ref_rabbit x rk body mt w)"

subsection \<open>The world of a thread\<close>

type_synonym thread_world = "(call, answer) talk"

text \<open>An answer of the wrong kind, which no server gives, reads as an error.\<close>

definition no_answer :: "exn + 'a" where
  "no_answer = Inl (Library_error ''answer of another kind'')"

fun text_of :: "answer \<Rightarrow> exn + string option" where
  "text_of (AText r) = r" | "text_of _ = no_answer"

fun unit_of :: "answer \<Rightarrow> exn + unit" where
  "unit_of (AUnit r) = r" | "unit_of _ = no_answer"

fun ttl_of :: "answer \<Rightarrow> exn + ttl_reply" where
  "ttl_of (ATtl r) = r" | "ttl_of _ = no_answer"

fun bool_of :: "answer \<Rightarrow> exn + bool" where
  "bool_of (ABool r) = r" | "bool_of _ = no_answer"

fun rows_of :: "answer \<Rightarrow> exn + sql_row list" where
  "rows_of (ARows r) = r" | "rows_of _ = no_answer"

fun count_of :: "answer \<Rightarrow> exn + nat" where
  "count_of (ACount r) = r" | "count_of _ = no_answer"

record 'w servers =
  sv_redis :: "'w redis_client"
  sv_pg :: "'w pg_client"
  sv_rabbit :: "'w rabbit_client"

definition ref_servers :: "system_world servers" where
  "ref_servers = \<lparr>sv_redis = ref_redis, sv_pg = ref_pg, sv_rabbit = ref_rabbit\<rparr>"

definition thread_redis :: "thread_world redis_client" where
  "thread_redis =
     \<lparr>r_Get = (\<lambda>k. ask (CGet k) text_of), r_Setex = (\<lambda>k ttl v. ask (CSetex k ttl v) unit_of),
      r_Del = (\<lambda>k. ask (CDel k) unit_of), r_Ttl = (\<lambda>k. ask (CTtl k) ttl_of),
      r_Expire = (\<lambda>k ttl. ask (CExpire k ttl) unit_of),
      r_SetIfNotExist = (\<lambda>k v ms. ask (CSetIfNotExist k v ms) bool_of)\<rparr>"

definition thread_pg :: "thread_world pg_client" where
  "thread_pg = \<lparr>pg_select_slave = (\<lambda>ts q. ask (CSelect ts q) rows_of), pg_insert_master = (\<lambda>ts st. ask (CInsert ts st) count_of)\<rparr>"

definition thread_rabbit :: "thread_world rabbit_client" where
  "thread_rabbit =
     \<lparr>DeclareExchange = (\<lambda>x ty fl. ask (CDeclareExchange x ty fl) unit_of),
      DeclareQueue = (\<lambda>q fl. ask (CDeclareQueue q fl) unit_of),
      BindQueue = (\<lambda>x q k. ask (CBindQueue x q k) unit_of),
      PublishReliable = (\<lambda>x rk body mt. ask (CPublish x rk body mt) unit_of)\<rparr>"

definition thread_servers :: "thread_world servers" where
  "thread_servers = \<lparr>sv_redis = thread_redis, sv_pg = thread_pg, sv_rabbit = thread_rabbit\<rparr>"

lemmas thread_clients = thread_servers_def thread_redis_def thread_pg_def thread_rabbit_def

subsection \<open>What a thread works on\<close>

datatype task = Post http_request | Recommend http_request | Product http_request | Deliver string

datatype outcome = Responded http_response | Processed

text \<open>The services of the build with all three servers, on any clients.\<close>

definition redis_on :: "'w servers \<Rightarrow> 'w redis_rhythm_data" where
  "redis_on sv = \<lparr>rr_client = sv_redis sv, rr_visit_last_ttl = default_visit_ledger_ttl, rr_json = ref_json\<rparr>"

definition publisher_on :: "'w servers \<Rightarrow> 'w rabbit_publisher" where
  "publisher_on sv = \<lparr>rp_client = sv_rabbit sv, rp_exchange = events_exchange, rp_exchange_type = kTopic,
     rp_queue = user_queue, rp_bind_routing_key = ''user.action''\<rparr>"

definition action_on :: "'w servers \<Rightarrow> 'w action_service" where
  "action_on sv = \<lparr>as_queue = rabbit_queue_port (publisher_on sv), as_idempotency = redis_idempotency_port (redis_on sv)\<rparr>"

definition recommend_on :: "'x clocks_scheme servers \<Rightarrow> 'x clocks_scheme recommendation_service" where
  "recommend_on sv = redis_recommend (redis_on sv) (pg_behavior_port \<lparr>pg_cluster = sv_pg sv\<rparr>) stub_gpt_port"

definition product_on :: "'w servers \<Rightarrow> 'w product_service" where
  "product_on sv = \<lparr>ps_catalog = pg_catalog_port \<lparr>pg_cluster = sv_pg sv\<rparr>\<rparr>"

definition worker_on :: "'w servers \<Rightarrow> 'w user_action_consumer" where
  "worker_on sv = \<lparr>uc_pg = sv_pg sv, uc_redis_cache = Some (redis_on sv)\<rparr>"

lemma services_on_ref [simp]:
  "action_on ref_servers = stack_action" "recommend_on ref_servers = stack_recommend"
  "product_on ref_servers = stack_product" "worker_on ref_servers = worker0"
  by (simp_all add: action_on_def recommend_on_def product_on_def worker_on_def ref_servers_def redis_on_def
      publisher_on_def stack_action_def stack_recommend_def stack_product_def worker0_def redis0_def
      publisher0_def pg_data0_def)

fun task_prog ::
  "(item list \<Rightarrow> item list) \<Rightarrow> 'x clocks_scheme servers \<Rightarrow> task \<Rightarrow> (outcome, 'x clocks_scheme) prog" where
  "task_prog iter sv (Post req) =
     bindE (ActionHandler_HandleRequestThrow ref_json (action_on sv) req) (\<lambda>r. ret (Responded r))"
| "task_prog iter sv (Recommend req) =
     bindE (RecommendHandler_HandleRequestThrow ref_json iter (recommend_on sv) req) (\<lambda>r. ret (Responded r))"
| "task_prog iter sv (Product req) =
     bindE (ProductHandler_HandleRequestThrow ref_json (product_on sv) req) (\<lambda>r. ret (Responded r))"
| "task_prog iter sv (Deliver m) = bindE (Process ref_json (worker_on sv) m) (\<lambda>_. ret Processed)"

record thread =
  th_task :: task
  th_answers :: "answer list"
  th_sys_clk :: clock
  th_steady_clk :: clock

definition resume :: "(item list \<Rightarrow> item list) \<Rightarrow> thread \<Rightarrow> (exn + outcome) \<times> thread_world" where
  "resume iter t = task_prog iter thread_servers (th_task t)
     \<lparr>sys_clk = th_sys_clk t, steady_clk = th_steady_clk t, answers = th_answers t, asked = None, dialogue = []\<rparr>"

text \<open>The command a thread waits for; a thread that waits for none has its result.\<close>

definition waiting :: "(item list \<Rightarrow> item list) \<Rightarrow> thread \<Rightarrow> call option" where
  "waiting iter t = asked (snd (resume iter t))"

definition result :: "(item list \<Rightarrow> item list) \<Rightarrow> thread \<Rightarrow> (exn + outcome) option" where
  "result iter t = (case waiting iter t of None \<Rightarrow> Some (fst (resume iter t)) | Some c \<Rightarrow> None)"

subsection \<open>The commands of each task\<close>

lemma asks_ttl:
  "asks P n m \<Longrightarrow> asks P k m' \<Longrightarrow> (\<And>x. asks P j (f x)) \<Longrightarrow>
    asks P (max n (max k j)) (case v of TtlNoKey \<Rightarrow> m | TtlNoExpiration \<Rightarrow> m' | TtlExpire x \<Rightarrow> f x)"
  by (cases v) (simp_all add: asks_max)

lemmas asks_cases = asks_bindE asks_try_catch asks_if asks_option asks_sum asks_list asks_ttl

text \<open>
  What a task may ask for. A request for recommendations writes under the keys of its user and
  of the shared side caches only, and a feed it writes is a good one.
\<close>

definition side_key :: "string \<Rightarrow> bool" where
  "side_key k \<longleftrightarrow> k = PopularGlobalKey \<or> (\<exists>a. k = SimilarKey a)"

definition user_key :: "string \<Rightarrow> string \<Rightarrow> bool" where
  "user_key u k \<longleftrightarrow> k \<in> {FeedKey u, GptRankKey u, VisitLastKey u}"

fun recommend_call :: "string \<Rightarrow> call \<Rightarrow> bool" where
  "recommend_call u (CGet k) = (user_key u k \<or> side_key k)"
| "recommend_call u (CSetex k ttl v) =
     ((k = FeedKey u \<and> ttl = kFeedKeyTtl \<and> (\<exists>ids. v = IdsToJson ref_json ids \<and> good_feed ids)) \<or>
      k \<in> {GptRankKey u, VisitLastKey u} \<or> side_key k)"
| "recommend_call u (CDel k) = (user_key u k \<or> side_key k)"
| "recommend_call u (CTtl k) = (k = FeedKey u)"
| "recommend_call u (CExpire k ttl) = (k = FeedKey u)"
| "recommend_call u (CSelect ts q) = (ts = [] \<or> ts = [u])"
| "recommend_call u c = False"

fun allowed :: "task \<Rightarrow> call \<Rightarrow> bool" where
  "allowed (Post req) c =
     (\<exists>p. request_payload ref_json req = Some p \<and> valid_payload p \<and>
        c \<in> {CSetIfNotExist (IdempotencyKey (ap_idempotency_key p)) ''1'' (kIdempotencyHold * 1000),
              CPublish events_exchange ''user.action'' (ToString ref_json (action_doc p)) kTransient})"
| "allowed (Recommend req) c = recommend_call (GetArg req ''user_id'') c"
| "allowed (Product req) c = (\<exists>q. c = CSelect [] q)"
| "allowed (Deliver m) c =
     (\<exists>p. message_fields ref_json m = Some p \<and>
        (c = CInsert (payload_texts p) (insert_payload p) \<or> (\<exists>k. user_key (ap_user_id p) k \<and> c = CDel k)))"

fun command_bound :: "task \<Rightarrow> nat" where
  "command_bound (Post req) = 2"
| "command_bound (Recommend req) = 21"
| "command_bound (Product req) = 1"
| "command_bound (Deliver m) = 4"

lemma redis_on_simps [simp]:
  "rr_client (redis_on sv) = sv_redis sv" "rr_json (redis_on sv) = ref_json"
  by (simp_all add: redis_on_def)

lemma thread_redis_simps [simp]:
  "r_Get (sv_redis thread_servers) k = ask (CGet k) text_of"
  "r_Setex (sv_redis thread_servers) k ttl v = ask (CSetex k ttl v) unit_of"
  "r_Del (sv_redis thread_servers) k = ask (CDel k) unit_of"
  "r_Ttl (sv_redis thread_servers) k = ask (CTtl k) ttl_of"
  "r_Expire (sv_redis thread_servers) k ttl = ask (CExpire k ttl) unit_of"
  "r_SetIfNotExist (sv_redis thread_servers) k v ms = ask (CSetIfNotExist k v ms) bool_of"
  "pg_select_slave (sv_pg thread_servers) ts q = ask (CSelect ts q) rows_of"
  "pg_insert_master (sv_pg thread_servers) ts st = ask (CInsert ts st) count_of"
  "PublishReliable (sv_rabbit thread_servers) x rk body mt = ask (CPublish x rk body mt) unit_of"
  by (simp_all add: thread_clients)

lemma asks_get_ids:
  assumes "P (CGet k)" and "P (CDel k)"
  shows "asks P 2 (redis_get_ids (redis_on thread_servers) k)"
proof -
  have "asks P (Suc 0 + max 0 (max (Suc 0 + 0) 0)) (redis_get_ids (redis_on thread_servers) k)"
    unfolding redis_get_ids_def redis_on_simps thread_redis_simps
    by (intro asks_cases asks_basic assms)
  then show ?thesis by (simp add: numeral_2_eq_2)
qed

lemma asks_pids: "asks P n (PidsFromPidColumn rows :: (int64 list, thread_world) prog)"
proof (induction rows)
  case (Cons row rows)
  have "asks P (0 + (n + 0)) (PidsFromPidColumn (row # rows) :: (int64 list, thread_world) prog)"
    unfolding PidsFromPidColumn.simps by (intro asks_bindE asks_pure Cons.IH)
  then show ?case by simp
qed (unfold PidsFromPidColumn.simps, rule asks_pure)

lemma asks_behavior:
  assumes "\<And>q. P (CSelect [] q)" and "\<And>q. P (CSelect [u] q)"
  shows "asks P 1 (pg_RecentProductIds \<lparr>pg_cluster = sv_pg thread_servers\<rparr> u n)"
    "asks P 1 (pg_PopularProductIds \<lparr>pg_cluster = sv_pg thread_servers\<rparr> n)"
    "asks P 1 (pg_CatalogNeighborProductIds \<lparr>pg_cluster = sv_pg thread_servers\<rparr> a n)"
proof -
  have sel: "asks P 1 (if b then ret [] else bindE (ask (CSelect ts q) rows_of) PidsFromPidColumn)"
    if "ts \<in> {[], [u]}" for b ts q
  proof -
    have "P (CSelect ts q)" using that assms by auto
    then have "asks P (max 0 (Suc 0 + 0)) (if b then ret [] else bindE (ask (CSelect ts q) rows_of) PidsFromPidColumn)"
      by (intro asks_cases asks_basic asks_pids)
    then show ?thesis by simp
  qed
  show "asks P 1 (pg_RecentProductIds \<lparr>pg_cluster = sv_pg thread_servers\<rparr> u n)"
    "asks P 1 (pg_PopularProductIds \<lparr>pg_cluster = sv_pg thread_servers\<rparr> n)"
    "asks P 1 (pg_CatalogNeighborProductIds \<lparr>pg_cluster = sv_pg thread_servers\<rparr> a n)"
    unfolding pg_RecentProductIds_def pg_PopularProductIds_def pg_CatalogNeighborProductIds_def
      pg_rhythm_data.simps thread_redis_simps
    by (rule sel; simp)+
qed

lemma asks_redis_methods:
  assumes "\<And>k. user_key u k \<or> side_key k \<Longrightarrow> P (CGet k)" and "\<And>k. user_key u k \<or> side_key k \<Longrightarrow> P (CDel k)"
    and "P (CTtl (FeedKey u))" and "\<And>ttl. P (CExpire (FeedKey u) ttl)"
  shows "asks P 2 (redis_TryGetFeed (redis_on thread_servers) u)"
    "asks P 2 (redis_TouchFeed (redis_on thread_servers) u ext)"
    "asks P 1 (redis_DropFeed (redis_on thread_servers) u)"
    "asks P 3 (redis_LastSeenUtc (redis_on thread_servers) u)"
proof -
  have k: "P (CGet (FeedKey u))" "P (CDel (FeedKey u))" "P (CGet (VisitLastKey u))" "P (CDel (VisitLastKey u))"
    using assms by (simp_all add: user_key_def)
  note ps = asks_basic k assms(3,4)
  have "asks P (Suc 0 + max 0 (max (Suc 0 + 0) (Suc 0 + max 0 (max 0 0)))) (redis_TryGetFeed (redis_on thread_servers) u)"
    unfolding redis_TryGetFeed_def redis_on_simps thread_redis_simps Let_def by (intro asks_cases ps)
  then show "asks P 2 (redis_TryGetFeed (redis_on thread_servers) u)" by (simp add: numeral_2_eq_2)
  have "asks P (max 0 (Suc 0 + max 0 (max 0 (Suc 0)))) (redis_TouchFeed (redis_on thread_servers) u ext)"
    unfolding redis_TouchFeed_def redis_on_simps thread_redis_simps Let_def by (intro asks_cases ps)
  then show "asks P 2 (redis_TouchFeed (redis_on thread_servers) u ext)" by (simp add: numeral_2_eq_2)
  have "asks P (Suc 0) (redis_DropFeed (redis_on thread_servers) u)"
    unfolding redis_DropFeed_def redis_on_simps thread_redis_simps Let_def by (intro asks_cases ps)
  then show "asks P 1 (redis_DropFeed (redis_on thread_servers) u)" by simp
  have "asks P (Suc 0 + max 0 (max 0 (0 + max (Suc 0 + 0) 0 + (Suc 0 + 0)))) (redis_LastSeenUtc (redis_on thread_servers) u)"
    unfolding redis_LastSeenUtc_def redis_on_simps thread_redis_simps Let_def by (intro asks_cases ps)
  then show "asks P 3 (redis_LastSeenUtc (redis_on thread_servers) u)" by (simp add: numeral_3_eq_3)
qed

text \<open>The request for recommendations: every command it may give, and twenty-one at most.\<close>

lemma recommend_on_simps [simp]:
  "rs_cache (recommend_on sv) = redis_cache_port (redis_on sv)"
  "rs_side_cache (recommend_on sv) = redis_side_port (redis_on sv)"
  "rs_gpt (recommend_on sv) = stub_gpt_port"
  "rs_behavior (recommend_on sv) = pg_behavior_port \<lparr>pg_cluster = sv_pg sv\<rparr>"
  "rs_visits (recommend_on sv) = redis_visit_port (redis_on sv)"
  by (simp_all add: recommend_on_def)

lemmas recommend_ports_simps = recommend_on_simps redis_cache_port_def redis_side_port_def redis_visit_port_def
  pg_behavior_port_def stub_gpt_port_def cache_port.simps side_port.simps visit_port.simps behavior_port.simps
  gpt_port.simps

lemma asks_side_cache:
  "asks (recommend_call u) 2 (redis_TryGetPopularGlobal (redis_on thread_servers))"
  "asks (recommend_call u) 2 (redis_TryGetGptRanked (redis_on thread_servers) u)"
  "asks (recommend_call u) 2 (redis_TryGetSimilar (redis_on thread_servers) a)"
  "asks (recommend_call u) 1 (redis_PutPopularGlobal (redis_on thread_servers) ids ttl)"
  "asks (recommend_call u) 1 (redis_PutGptRanked (redis_on thread_servers) u ids ttl)"
  "asks (recommend_call u) 1 (redis_PutSimilar (redis_on thread_servers) a ids ttl)"
  unfolding redis_TryGetPopularGlobal_def redis_TryGetGptRanked_def redis_TryGetSimilar_def
    redis_PutPopularGlobal_def redis_PutGptRanked_def redis_PutSimilar_def redis_on_simps thread_redis_simps
    One_nat_def
  by (rule asks_get_ids asks_basic; simp add: user_key_def side_key_def)+

lemma asks_MarkSeen: "asks (recommend_call u) 1 (redis_MarkSeenUtc (redis_on thread_servers) u)"
proof -
  have "asks (recommend_call u) (0 + Suc 0) (redis_MarkSeenUtc (redis_on thread_servers) u)"
    unfolding redis_MarkSeenUtc_def redis_on_simps thread_redis_simps Let_def
    by (intro asks_cases asks_basic) simp
  then show ?thesis by simp
qed

lemma asks_FetchSources: "asks (recommend_call u) 13 (FetchSources (recommend_on thread_servers) u)"
proof -
  note ms = asks_side_cache asks_behavior [of "recommend_call u" u, simplified recommend_call.simps simp_thms]
  have "asks (recommend_call u) (1 + (2 + max (1 + (1 + 0)) 0 + (2 + max (0 + (1 + 0)) 0 +
      (max 0 (2 + max (1 + (max 1 0 + (1 + 0))) 0) + 0)))) (FetchSources (recommend_on thread_servers) u)"
    unfolding FetchSources_def fetch_popular_def fetch_gpt_def fetch_similar_def recommend_ports_simps
    by (intro asks_cases asks_basic ms TrueI)
  then show ?thesis by simp
qed

lemma asks_rebuild_feed:
  assumes "\<And>xs. mset (iter xs) = mset xs"
  shows "asks (recommend_call u) 14 (rebuild_feed iter (recommend_on thread_servers) u)"
proof -
  have put: "asks (recommend_call u) (Suc 0)
      (redis_PutFeed (redis_on thread_servers) u (TakeTop (FanOutMerge iter sources) kGptRecommendationIds) kFeedKeyTtl)"
    for sources
    unfolding redis_PutFeed_def redis_on_simps thread_redis_simps Let_def
    by (rule asks_basic) (use good_feed_merge [OF assms] in auto)
  have "asks (recommend_call u) (13 + (Suc 0 + 0)) (rebuild_feed iter (recommend_on thread_servers) u)"
    unfolding rebuild_feed_def recommend_ports_simps Let_def
    by (intro asks_cases asks_basic asks_FetchSources put)
  then show ?thesis by simp
qed

lemma asks_GetRecommendations:
  assumes "\<And>xs. mset (iter xs) = mset xs"
  shows "asks (recommend_call u) 21 (GetRecommendations iter (recommend_on thread_servers) u)"
proof -
  have methods: "asks (recommend_call u) 2 (redis_TryGetFeed (redis_on thread_servers) u)"
    "asks (recommend_call u) 2 (redis_TouchFeed (redis_on thread_servers) u ext)"
    "asks (recommend_call u) 1 (redis_DropFeed (redis_on thread_servers) u)"
    "asks (recommend_call u) 3 (redis_LastSeenUtc (redis_on thread_servers) u)" for ext
    by (rule asks_redis_methods; simp)+
  have "asks (recommend_call u) (3 + (0 + (max 1 0 + (1 + (2 + max 14 (0 + (2 + 0)))))))
      (GetRecommendations iter (recommend_on thread_servers) u)"
    unfolding GetRecommendations_def recommend_ports_simps
    by (intro asks_cases asks_basic methods asks_ttl_calls asks_MarkSeen asks_rebuild_feed assms)
  then show ?thesis by simp
qed

text \<open>The other tasks.\<close>

lemma asks_HandleAction:
  assumes "valid_payload p"
    and "P (CSetIfNotExist (IdempotencyKey (ap_idempotency_key p)) ''1'' (kIdempotencyHold * 1000))"
    and "P (CPublish events_exchange ''user.action'' (ToString ref_json (action_doc p)) kTransient)"
  shows "asks P 2 (HandleAction ref_json (action_on thread_servers) p)"
proof -
  have "asks P (Suc 0 + max 0 (Suc 0 + 0)) (HandleAction ref_json (action_on thread_servers) p)"
    unfolding HandleAction_valid [OF assms(1)] action_on_def redis_idempotency_port_def rabbit_queue_port_def
      action_service.simps idempotency_port.simps queue_port.simps redis_TryReserve_def rabbit_PublishJson_def
      publisher_on_def rabbit_publisher.simps redis_on_simps thread_redis_simps Let_def
    by (intro asks_cases asks_basic assms)
  then show ?thesis by (simp add: numeral_2_eq_2)
qed

lemma asks_ActionHandler:
  assumes "\<And>p. request_payload ref_json req = Some p \<Longrightarrow> valid_payload p \<Longrightarrow>
      P (CSetIfNotExist (IdempotencyKey (ap_idempotency_key p)) ''1'' (kIdempotencyHold * 1000)) \<and>
      P (CPublish events_exchange ''user.action'' (ToString ref_json (action_doc p)) kTransient)"
  shows "asks P 2 (ActionHandler_HandleRequestThrow ref_json (action_on thread_servers) req)"
proof (cases "request_payload ref_json req")
  case None
  show ?thesis
    by (rule asks_quiet) (use ActionHandler_no_payload [OF None, of "action_on thread_servers"] in blast)
next
  case (Some p)
  let ?H = "HandleAction ref_json (action_on thread_servers) p"
  have "asks P 2 ?H"
  proof (cases "valid_payload p")
    case True
    with assms [OF Some] show ?thesis by (intro asks_HandleAction) auto
  next
    case False
    show ?thesis by (rule asks_quiet) (simp add: HandleAction_invalid [OF False])
  qed
  let ?ok = "\<lambda>r. reply kAccepted (JsonActionAccepted ref_json (r = Duplicate))"
  let ?bad = "\<lambda>e. reply kBadRequest (JsonError ref_json (what e))"
  have "ActionHandler_HandleRequestThrow ref_json (action_on thread_servers) req =
      (\<lambda>t. case ?H t of (Inl e, t1) \<Rightarrow> ret (?bad e) t1 | (Inr x, t1) \<Rightarrow> ret (?ok x) t1)"
    using ActionHandler_payload [OF Some, of "action_on thread_servers"]
    by (simp add: fun_eq_iff split: prod.split sum.split)
  with asks_then [OF \<open>asks P 2 ?H\<close> asks_basic(1) asks_basic(1)] show ?thesis by simp
qed

lemma asks_Process:
  assumes "\<And>p. message_fields ref_json m = Some p \<Longrightarrow>
    P (CInsert (payload_texts p) (insert_payload p)) \<and> (\<forall>k. user_key (ap_user_id p) k \<longrightarrow> P (CDel k))"
  shows "asks P 4 (Process ref_json (worker_on thread_servers) m)"
proof (cases "message_fields ref_json m")
  case None
  show ?thesis
    by (rule asks_quiet) (metis Process_no_fields [OF ref_json_nonobj None] prod.collapse)
next
  case (Some p)
  have k: "P (CDel (FeedKey (ap_user_id p)))" "P (CDel (GptRankKey (ap_user_id p)))"
    "P (CDel (VisitLastKey (ap_user_id p)))" and i: "P (CInsert (payload_texts p) (insert_payload p))"
    using assms [OF Some] by (simp_all add: user_key_def)
  have "asks P (Suc 0 + max (Suc 0 + (Suc 0 + Suc 0)) 0) (store_action (worker_on thread_servers) p)"
    unfolding store_action_def worker_on_def user_action_consumer.simps option.case
      redis_InvalidateAfterUserAction_def redis_DropFeed_def redis_InvalidateUserDerived_def redis_on_simps
      thread_redis_simps
    by (intro asks_bindE asks_if asks_basic k i)
  then show ?thesis unfolding Process_fields [OF Some] by (simp add: eval_nat_numeral)
qed

lemma task_commands:
  assumes "\<And>xs. mset (iter xs) = mset xs"
  shows "asks (allowed t) (command_bound t) (task_prog iter thread_servers t)"
proof (cases t)
  case (Post req)
  have "asks (allowed t) (2 + 0) (task_prog iter thread_servers t)"
    unfolding Post task_prog.simps by (intro asks_bindE asks_basic asks_ActionHandler) auto
  then show ?thesis by (simp add: Post)
next
  case (Recommend req)
  have "asks (allowed t) (max 0 (21 + 0) + 0) (task_prog iter thread_servers t)"
    unfolding Recommend task_prog.simps RecommendHandler_HandleRequestThrow_def Let_def
    by (intro asks_bindE asks_if asks_basic asks_GetRecommendations [OF assms, where u = "GetArg req ''user_id''",
          folded allowed.simps(2) [abs_def]])
  then show ?thesis by (simp add: Recommend)
next
  case (Product req)
  have "asks (allowed t) (max 0 (max 0 (Suc 0 + max 0 (0 + (0 + (0 + 0))) + max 0 0 + max 0 0)) + 0)
      (task_prog iter thread_servers t)"
    unfolding Product task_prog.simps ProductHandler_HandleRequestThrow_def Let_def GetProductJson_def
      product_on_def pg_catalog_port_def product_service.simps catalog_port.simps pg_GetById_def
      pg_rhythm_data.simps thread_redis_simps
    by (intro asks_cases asks_basic) simp
  then show ?thesis by (simp add: Product)
next
  case (Deliver m)
  have "asks (allowed t) (4 + 0) (task_prog iter thread_servers t)"
    unfolding Deliver task_prog.simps by (intro asks_bindE asks_basic asks_Process) auto
  then show ?thesis by (simp add: Deliver)
qed

end
