(* ===== verification/Pool.thy ===== *)
theory Pool
  imports Threads
begin

text \<open>
  Requests and deliveries at the same time: a pool of threads over the one world of the
  servers. A step starts a thread, serves the command one of them is waiting for, or
  acknowledges a message whose processing has returned. Between two commands of a thread any
  other thread may be served, a thread that is never served again is one whose process has
  died, and a message may be delivered any number of times.
\<close>

subsection \<open>Steps\<close>

text \<open>
  \<open>history\<close> records what was served: the thread, the command, the answer and the time of
  the Redis server after it. No step looks at it. The clocks a thread reads are its own and
  read anything.
\<close>

record pool =
  shared :: system_world
  threads :: "nat \<rightharpoonup> thread"
  acked :: "nat set"
  history :: "(nat \<times> call \<times> answer \<times> time) list"

definition fresh_thread :: "task \<Rightarrow> clock \<Rightarrow> clock \<Rightarrow> thread" where
  "fresh_thread t c d = \<lparr>th_task = t, th_answers = [], th_sys_clk = c, th_steady_clk = d\<rparr>"

definition hear :: "answer \<Rightarrow> thread \<Rightarrow> thread" where
  "hear a t = t\<lparr>th_answers := th_answers t @ [a]\<rparr>"

inductive pool_step :: "(item list \<Rightarrow> item list) \<Rightarrow> pool \<Rightarrow> pool \<Rightarrow> bool" for iter where
  start: "threads p i = None \<Longrightarrow> (\<And>m. t = Deliver m \<Longrightarrow> m \<in> set (worker_queue (shared p))) \<Longrightarrow>
    pool_step iter p (p\<lparr>threads := (threads p)(i \<mapsto> fresh_thread t c d)\<rparr>)"
| served: "threads p i = Some t \<Longrightarrow> waiting iter t = Some c \<Longrightarrow> serve c (shared p) = (a, w') \<Longrightarrow>
    pool_step iter p (p\<lparr>shared := w', threads := (threads p)(i \<mapsto> hear a t),
      history := history p @ [(i, c, a, srv_time w')]\<rparr>)"
| ack: "threads p i = Some t \<Longrightarrow> th_task t = Deliver m \<Longrightarrow> result iter t = Some (Inr x) \<Longrightarrow> i \<notin> acked p \<Longrightarrow>
    pool_step iter p (p\<lparr>shared := take_message m (shared p), acked := insert i (acked p)\<rparr>)"
| clock: "pool_step iter p (p\<lparr>shared := (shared p)\<lparr>sys_clk := c, steady_clk := d\<rparr>\<rparr>)"

definition pool_reach :: "(item list \<Rightarrow> item list) \<Rightarrow> pool \<Rightarrow> pool \<Rightarrow> bool" where
  "pool_reach iter = (pool_step iter)\<^sup>*\<^sup>*"

definition pool_of :: "system_world \<Rightarrow> pool" where
  "pool_of w = \<lparr>shared = w, threads = Map.empty, acked = {}, history = []\<rparr>"

lemma hear_simps [simp]:
  "th_task (hear a t) = th_task t" "th_answers (hear a t) = th_answers t @ [a]"
  "th_sys_clk (hear a t) = th_sys_clk t" "th_steady_clk (hear a t) = th_steady_clk t"
  "th_task (fresh_thread k c d) = k" "th_answers (fresh_thread k c d) = []"
  by (simp_all add: hear_def fresh_thread_def)

subsection \<open>What threads ask for\<close>

lemma waiting_allowed:
  assumes "\<And>xs. mset (iter xs) = mset xs" and "waiting iter t = Some c"
  shows "allowed (th_task t) c" and "length (th_answers t) < command_bound (th_task t)"
proof -
  let ?t0 = "\<lparr>sys_clk = th_sys_clk t, steady_clk = th_steady_clk t, answers = th_answers t, asked = None, dialogue = []\<rparr>"
  obtain r t' where run: "task_prog iter thread_servers (th_task t) ?t0 = (r, t')" by fastforce
  then have "asked t' = Some c" using assms(2) by (simp add: waiting_def resume_def)
  with asksD(2,3) [OF task_commands [OF assms(1)] run]
  show "allowed (th_task t) c" and "length (th_answers t) < command_bound (th_task t)"
    by (auto simp: not_le [symmetric])
qed

subsection \<open>The invariant of the servers under any interleaving\<close>

definition task_ok :: "task \<Rightarrow> bool" where
  "task_ok t \<longleftrightarrow> (\<forall>m. t = Deliver m \<longrightarrow> event_message m)"

definition pool_inv :: "pool \<Rightarrow> bool" where
  "pool_inv p \<longleftrightarrow> sys_inv (shared p) \<and> (\<forall>t \<in> ran (threads p). task_ok (th_task t))"

text \<open>A command of the program keeps the invariant of the servers, whoever gives it and whenever.\<close>

lemma feeds_of_good_put:
  assumes "cache_inv m" and "good_feed ids"
  shows "cache_inv (m(FeedKey u \<mapsto> (IdsToJson ref_json ids, d)))"
  using assms by (auto simp: cache_inv_def feeds_of_def JsonToIds_IdsToJson ref_json_codec_ok)

fun redis_call :: "call \<Rightarrow> bool" where
  "redis_call (CGet k) = True" | "redis_call (CSetex k ttl v) = True" | "redis_call (CDel k) = True"
| "redis_call (CTtl k) = True" | "redis_call (CExpire k ttl) = True" | "redis_call (CSetIfNotExist k v ms) = True"
| "redis_call c = False"

lemma serve_redis:
  assumes "redis_call c" and "serve c w = (a, w')"
  shows "pg_master w' = pg_master w" and "rb w' = rb w"
proof -
  have "f w' = f w" if "beside_redis f" for f :: "system_world \<Rightarrow> 'b"
    using assms ref_redis_apart [OF that]
    by (cases c) (auto simp: client_apart_def call_apart_def map_prod_def split: prod.splits)
  from this [OF beside_redis_parts(2)] this [OF beside_redis_parts(1)]
  show "pg_master w' = pg_master w" and "rb w' = rb w" by blast+
qed

lemma kv_serve:
  assumes "serve c w = (a, w')" and "kv w' \<noteq> kv w"
  shows "\<exists>t. t = srv_time w' \<and> srv_time w \<le> t \<and>
    (case c of
       CSetex k ttl v \<Rightarrow> kv w' = (kv w)(k \<mapsto> (v, Some (t + ns_of_secs ttl)))
     | CDel k \<Rightarrow> kv w' = (kv w)(k := None)
     | CExpire k ttl \<Rightarrow> \<exists>v. visible t (kv w k) = Some v \<and> kv w' = (kv w)(k \<mapsto> (v, Some (t + ns_of_secs ttl)))
     | CSetIfNotExist k v ms \<Rightarrow> visible t (kv w k) = None \<and> kv w' = (kv w)(k \<mapsto> (v, Some (t + ms * ns_per_ms)))
     | _ \<Rightarrow> False)"
  using assms
  by (cases c) (auto simp: ref_redis_def ref_pg_def ref_select_def ref_insert_def ref_rabbit_def broker_call_def
      Let_def map_prod_def elim!: commandE split: prod.splits fault.splits sum.splits option.splits if_splits)

lemma srv_time_serve: "serve c w = (a, w') \<Longrightarrow> srv_time w \<le> srv_time w'"
  by (cases c) (auto simp: ref_redis_def ref_pg_def ref_select_def ref_insert_def ref_rabbit_def broker_call_def
      Let_def map_prod_def srv_time_def elim!: commandE split: prod.splits fault.splits sum.splits option.splits if_splits)

lemma cache_inv_serve:
  assumes "allowed t c" and "cache_inv (kv w)" and "serve c w = (a, w')"
  shows "cache_inv (kv w')"
proof (cases "kv w' = kv w")
  case False
  have side: "side_key k \<Longrightarrow> k \<noteq> FeedKey u" for k u by (auto simp: side_key_def)
  show ?thesis
  proof (cases c)
    case (CSetex k ttl v)
    then obtain u where "recommend_call u c" using assms(1) by (cases t) auto
    with CSetex kv_serve [OF assms(3) False] assms(2) side show ?thesis
      by (auto simp: feeds_of_good_put intro: cache_inv_le [OF assms(2)] simp: feeds_of_other)
  next
    case (CDel k)
    with kv_serve [OF assms(3) False] show ?thesis by (auto intro: cache_inv_le [OF assms(2)] feeds_of_del)
  next
    case (CExpire k ttl)
    with kv_serve [OF assms(3) False] obtain v d d' where "kv w k = Some (v, d)" "kv w' = (kv w)(k \<mapsto> (v, d'))"
      by (auto simp: visible_def split: option.splits if_splits)
    then show ?thesis using feeds_of_deadline assms(2) by (simp add: cache_inv_def)
  next
    case (CSetIfNotExist k v ms)
    then have "v = ''1''" using assms(1) by (cases t) auto
    with CSetIfNotExist kv_serve [OF assms(3) False] show ?thesis
      by (auto intro: cache_inv_le [OF assms(2)] feeds_of_token)
  qed (use kv_serve [OF assms(3) False] in auto)
qed (use assms(2) in simp)

lemma sys_inv_serve:
  assumes "task_ok t" and "allowed t c" and "sys_inv w" and "serve c w = (a, w')"
  shows "sys_inv w'"
proof -
  have cache: "cache_inv (kv w')" using cache_inv_serve [OF assms(2) _ assms(4)] assms(3) by (simp add: sys_inv_def)
  show ?thesis
  proof (cases "redis_call c")
    case True
    with serve_redis [OF _ assms(4)] cache assms(3) show ?thesis by (simp add: sys_inv_def)
  next
    case False
    then show ?thesis
    proof (cases c)
      case (CSelect ts q)
      then obtain r where "pg_select_slave ref_pg ts q w = (r, w')"
        using assms(4) by (auto simp: map_prod_def split: prod.splits)
      with ref_select_apart(2,3) [THEN call_apartD, OF this] cache assms(3) show ?thesis by (simp add: sys_inv_def)
    next
      case (CInsert ts st)
      then obtain p where p: "valid_payload p" and st: "st = insert_payload p"
        using assms(1,2) message_fields_action_doc [OF ref_json_codec_ok]
        by (cases t) (fastforce simp: task_ok_def event_message_def)+
      obtain n where ins: "pg_insert_master ref_pg ts st w = (n, w')"
        using CInsert assms(4) by (auto simp: map_prod_def split: prod.splits)
      have "db_inv (pg_master w')"
        by (rule ref_pg.insert_keeps [OF _ _ ins])
          (use db_inv_insert [OF _ p] assms(3) in \<open>auto simp: st sys_inv_def\<close>)
      with ref_insert_apart(1) [THEN call_apartD, OF ins] cache assms(3) show ?thesis by (simp add: sys_inv_def)
    next
      case (CPublish x rk body mt)
      then have ev: "event_message body" using assms(2) by (cases t) (auto simp: event_message_def)
      obtain r where pub: "PublishReliable ref_rabbit x rk body mt w = (r, w')"
        using CPublish assms(4) by (auto simp: map_prod_def split: prod.splits)
      have "pg_master w' = pg_master w"
        using pub by (auto simp: ref_rabbit_def broker_call_def Let_def split: sum.splits fault.splits)
      moreover have "broker_inv (rb w')"
        using ref_rabbit.publish_law [OF pub] broker_inv_deliver [OF _ ev] assms(3) by (auto simp: sys_inv_def)
      ultimately show ?thesis using cache assms(3) by (simp add: sys_inv_def)
    qed (use assms(2) in \<open>cases t; auto\<close>)+
  qed
qed

lemma take_message_parts [simp]:
  "pg_master (take_message m w) = pg_master w" "kv (take_message m w) = kv w"
  "srv_time (take_message m w) = srv_time w"
  by (simp_all add: take_message_def srv_time_def)

lemma sys_inv_take_message: "sys_inv w \<Longrightarrow> sys_inv (take_message m w)"
  by (rule sys_inv_take)

lemma pool_inv_step:
  assumes "\<And>xs. mset (iter xs) = mset xs" and "pool_inv p" and "pool_step iter p p'"
  shows "pool_inv p'"
  using assms(3)
proof cases
  case (start i t c d)
  have "task_ok t" if "m \<in> set (worker_queue (shared p)) \<or> (\<forall>m. t \<noteq> Deliver m)" "t = Deliver m" for m
    using that assms(2) worker_queue_eq [of "shared p"] by (auto simp: task_ok_def pool_inv_def sys_inv_def broker_inv_def)
  with start(3) have "task_ok t" by (cases t) (auto simp: task_ok_def)
  with assms(2) start(1,2) show ?thesis by (auto simp: pool_inv_def ran_def)
next
  case (served i t c a w')
  have ok: "task_ok (th_task t)" using assms(2) served(2) by (auto simp: pool_inv_def ran_def)
  from sys_inv_serve [OF ok waiting_allowed(1) [OF assms(1) served(3)] _ served(4)] assms(2)
  have "sys_inv w'" by (simp add: pool_inv_def)
  with assms(2) ok served(1) show ?thesis by (auto simp: pool_inv_def ran_def)
next
  case (ack i t m x)
  with assms(2) sys_inv_take_message show ?thesis by (simp add: pool_inv_def)
next
  case (clock c d)
  with assms(2) show ?thesis by (simp add: pool_inv_def sys_inv_def)
qed

lemma pool_inv_reach:
  assumes "\<And>xs. mset (iter xs) = mset xs" and "pool_inv p" and "pool_reach iter p p'"
  shows "pool_inv p'"
  using assms(3) unfolding pool_reach_def
  by (induction rule: rtranclp_induct) (use assms(1,2) pool_inv_step in blast)+

lemma pool_inv_start: "sys_start w \<Longrightarrow> pool_inv (pool_of w)"
  by (simp add: pool_inv_def pool_of_def sys_inv_start)

subsection \<open>Termination\<close>

text \<open>No thread is served more often than its task has commands.\<close>

lemma answers_bounded:
  assumes "\<And>xs. mset (iter xs) = mset xs" and "pool_reach iter (pool_of w) p"
  shows "\<forall>i t. threads p i = Some t \<longrightarrow> length (th_answers t) \<le> command_bound (th_task t)"
  using assms(2) unfolding pool_reach_def
proof (induction rule: rtranclp_induct)
  case base
  then show ?case by (simp add: pool_of_def)
next
  case (step p p')
  from step.hyps(2) show ?case
  proof cases
    case (served i t c a w')
    from waiting_allowed(2) [OF assms(1) served(3)] step.IH served(1,2) show ?thesis by auto
  qed (use step.IH in auto)
qed

definition tasks :: "pool \<Rightarrow> nat \<rightharpoonup> task" where
  "tasks p = map_option th_task \<circ> threads p"

definition commands_left :: "pool \<Rightarrow> nat" where
  "commands_left p = (\<Sum>i \<in> dom (threads p). command_bound (th_task (the (threads p i))) - length (th_answers (the (threads p i))))"

definition all_answers :: "pool \<Rightarrow> nat" where
  "all_answers p = (\<Sum>i \<in> dom (threads p). length (th_answers (the (threads p i))))"

lemma sum_replace:
  assumes "finite (dom m)" and "m i = Some t"
  shows "(\<Sum>j \<in> dom m. f (the ((m(i \<mapsto> t')) j))) + f t = (\<Sum>j \<in> dom m. f (the (m j))) + (f t' :: nat)"
proof -
  have i: "i \<in> dom m" using assms(2) by blast
  have "(\<Sum>j \<in> dom m - {i}. f (the ((m(i \<mapsto> t')) j))) = (\<Sum>j \<in> dom m - {i}. f (the (m j)))"
    by (rule sum.cong) auto
  with sum.remove [OF assms(1) i, of "\<lambda>j. f (the ((m(i \<mapsto> t')) j))"] sum.remove [OF assms(1) i, of "\<lambda>j. f (the (m j))"] assms(2)
  show ?thesis by simp
qed

lemma sum_insert:
  assumes "finite (dom m)" and "m i = None"
  shows "(\<Sum>j \<in> dom (m(i \<mapsto> t)). f (the ((m(i \<mapsto> t)) j))) = f t + (\<Sum>j \<in> dom m. f (the (m j)) :: nat)"
proof -
  have i: "i \<notin> dom m" using assms(2) by blast
  have "(\<Sum>j \<in> dom m. f (the ((m(i \<mapsto> t)) j))) = (\<Sum>j \<in> dom m. f (the (m j)))"
    by (rule sum.cong) (use i in auto)
  with i show ?thesis using assms(1) by simp
qed

text \<open>Everything that was answered is in the history, and nothing else.\<close>

lemma history_length:
  assumes "pool_reach iter (pool_of w) p"
  shows "finite (dom (threads p)) \<and> length (history p) = all_answers p"
  using assms unfolding pool_reach_def
proof (induction rule: rtranclp_induct)
  case base
  then show ?case by (simp add: pool_of_def all_answers_def)
next
  case (step p p')
  from step.hyps(2) show ?case
  proof cases
    case (start i t c d)
    have fin: "finite (dom (threads p'))" using step.IH start(1) by (simp add: dom_fun_upd del: fun_upd_apply)
    have "length (history p') = all_answers p'"
      using start step.IH sum_insert [of "threads p" i "\<lambda>t. length (th_answers t)" "fresh_thread t c d"]
      by (simp add: all_answers_def)
    with fin show ?thesis by blast
  next
    case (served i t c a w')
    then have "insert i (dom (threads p)) = dom (threads p)" by auto
    have fin: "finite (dom (threads p'))" using step.IH served(1) by (simp add: dom_fun_upd del: fun_upd_apply)
    have "length (history p') = all_answers p'"
      using served step.IH sum_replace [of "threads p" i t "\<lambda>t. length (th_answers t)" "hear a t"]
        \<open>insert i (dom (threads p)) = dom (threads p)\<close> by (simp add: all_answers_def)
    with fin show ?thesis by blast
  qed (use step.IH in \<open>simp_all add: all_answers_def\<close>)
qed

lemma history_bounded:
  assumes "\<And>xs. mset (iter xs) = mset xs" and "pool_reach iter (pool_of w) p"
  shows "length (history p) \<le> (\<Sum>i \<in> dom (tasks p). command_bound (the (tasks p i)))"
proof -
  have "all_answers p \<le> (\<Sum>i \<in> dom (threads p). command_bound (th_task (the (threads p i))))"
    unfolding all_answers_def using answers_bounded [OF assms] by (intro sum_mono) auto
  moreover have "\<dots> = (\<Sum>i \<in> dom (tasks p). command_bound (the (tasks p i)))"
    by (intro sum.cong) (auto simp: tasks_def dom_def)
  ultimately show ?thesis using history_length [OF assms(2)] by simp
qed

text \<open>A waiting thread can always be served, and then has one command less to give.\<close>

lemma serve_one:
  assumes "\<And>xs. mset (iter xs) = mset xs" and "finite (dom (threads p))"
    and "threads p i = Some t" and "result iter t = None"
  shows "\<exists>p'. pool_step iter p p' \<and> tasks p' = tasks p \<and> finite (dom (threads p')) \<and>
    commands_left p' < commands_left p"
proof -
  obtain c where c: "waiting iter t = Some c" using assms(4) by (auto simp: result_def split: option.splits)
  obtain a w' where s: "serve c (shared p) = (a, w')" by fastforce
  let ?p = "p\<lparr>shared := w', threads := (threads p)(i \<mapsto> hear a t), history := history p @ [(i, c, a, srv_time w')]\<rparr>"
  let ?f = "\<lambda>t. command_bound (th_task t) - length (th_answers t)"
  have d: "insert i (dom (threads p)) = dom (threads p)" using assms(3) by auto
  have "?f (hear a t) < ?f t" using waiting_allowed(2) [OF assms(1) c] by simp
  with sum_replace [OF assms(2,3), of ?f "hear a t"] d have "commands_left ?p < commands_left p"
    by (simp add: commands_left_def)
  moreover have "tasks ?p = tasks p" using assms(3) by (auto simp: tasks_def fun_eq_iff)
  ultimately show ?thesis using pool_step.served [OF assms(3) c s] assms(2) by (intro exI [of _ ?p]) simp
qed

lemma completion:
  assumes "\<And>xs. mset (iter xs) = mset xs" and "finite (dom (threads p))"
  shows "\<exists>p'. pool_reach iter p p' \<and> tasks p' = tasks p \<and> (\<forall>t \<in> ran (threads p'). result iter t \<noteq> None)"
  using assms(2)
proof (induction "commands_left p" arbitrary: p rule: less_induct)
  case less
  show ?case
  proof (cases "\<forall>t \<in> ran (threads p). result iter t \<noteq> None")
    case True
    then show ?thesis by (intro exI [of _ p]) (simp add: pool_reach_def)
  next
    case False
    then obtain i t where "threads p i = Some t" "result iter t = None" by (auto simp: ran_def)
    from serve_one [OF assms(1) less.prems this] obtain p1 where
      p1: "pool_step iter p p1" "tasks p1 = tasks p" "finite (dom (threads p1))" "commands_left p1 < commands_left p"
      by blast
    from less.hyps [OF p1(4,3)] p1(1,2) show ?thesis
      unfolding pool_reach_def by (metis converse_rtranclp_into_rtranclp)
  qed
qed

subsection \<open>What the history says of the threads\<close>

definition answers_of :: "nat \<Rightarrow> (nat \<times> call \<times> answer \<times> time) list \<Rightarrow> answer list" where
  "answers_of i h = map (\<lambda>(j, c, a, tm). a) (filter (\<lambda>e. fst e = i) h)"

lemma answers_of_simps [simp]:
  "answers_of i [] = []"
  "answers_of i (h @ h') = answers_of i h @ answers_of i h'"
  "answers_of i ((j, c, a, tm) # h) = (if j = i then a # answers_of i h else answers_of i h)"
  by (simp_all add: answers_of_def)

text \<open>A thread has had the answers the history says, and each to the command it then waited for.\<close>

definition told :: "(item list \<Rightarrow> item list) \<Rightarrow> (nat \<times> call \<times> answer \<times> time) list \<Rightarrow> nat \<Rightarrow> thread option \<Rightarrow> bool" where
  "told iter h i x = (case x of None \<Rightarrow> answers_of i h = []
     | Some t \<Rightarrow> th_answers t = answers_of i h \<and>
         (\<forall>pre c a tm post. h = pre @ (i, c, a, tm) # post \<longrightarrow>
            waiting iter (t\<lparr>th_answers := answers_of i pre\<rparr>) = Some c))"

lemma told_fresh:
  assumes "told iter h i None"
  shows "told iter h i (Some (fresh_thread t c d))"
proof -
  have "answers_of i h = []" using assms by (simp add: told_def)
  moreover have False if "h = pre @ (i, e) # post" for pre e post
    using \<open>answers_of i h = []\<close> that by (cases e) simp
  ultimately show ?thesis by (auto simp: told_def)
qed

lemma told_heard:
  assumes "told iter h i (Some t)" and "waiting iter t = Some c"
  shows "told iter (h @ [(i, c, a, tm)]) i (Some (hear a t))"
proof -
  have th: "th_answers t = answers_of i h" using assms(1) by (simp add: told_def)
  have same: "(hear a t)\<lparr>th_answers := xs\<rparr> = t\<lparr>th_answers := xs\<rparr>" for xs by (simp add: hear_def)
  have "waiting iter (t\<lparr>th_answers := answers_of i pre\<rparr>) = Some c'"
    if e: "h @ [(i, c, a, tm)] = pre @ (i, c', a', tm') # post" for pre c' a' tm' post
  proof (cases post rule: rev_cases)
    case Nil
    have "t\<lparr>th_answers := answers_of i h\<rparr> = t" using th by simp
    with Nil e assms(2) show ?thesis by simp
  next
    case (snoc ys y)
    with e have "h = pre @ (i, c', a', tm') # ys" by simp
    with assms(1) show ?thesis by (simp add: told_def)
  qed
  with th show ?thesis unfolding told_def option.case same by auto
qed

lemma told_others:
  assumes "told iter h j x" and "j \<noteq> i"
  shows "told iter (h @ [(i, e)]) j x"
proof -
  have "answers_of j (h @ [(i, e)]) = answers_of j h" using assms(2) by (cases e) simp
  moreover have "\<exists>post'. h = pre @ (j, e') # post'" if "h @ [(i, e)] = pre @ (j, e') # post" for pre e' post
    using that assms(2) by (cases post rule: rev_cases) auto
  ultimately show ?thesis using assms(1) unfolding told_def by (cases x) (simp, simp, metis)
qed

lemma told_kept:
  assumes "pool_reach iter p p'" and "\<And>i. told iter (history p) i (threads p i)"
  shows "told iter (history p') i (threads p' i)"
  using assms(1) unfolding pool_reach_def
proof (induction arbitrary: i rule: rtranclp_induct)
  case base
  show ?case by (rule assms(2))
next
  case (step p p')
  from step.hyps(2) show ?case
  proof cases
    case (start j t c d)
    with step.IH [of i] show ?thesis by (cases "i = j") (auto intro: told_fresh)
  next
    case (served j t c a w')
    with step.IH [of i] show ?thesis by (cases "i = j") (auto intro: told_heard told_others)
  qed (use step.IH in simp_all)
qed

lemma told_reach:
  assumes "pool_reach iter (pool_of w) p"
  shows "told iter (history p) i (threads p i)"
  by (rule told_kept [OF assms]) (simp add: told_def pool_of_def)

lemma answers_of_nth:
  "k < length (answers_of i h) \<Longrightarrow>
    \<exists>pre c tm post. h = pre @ (i, c, answers_of i h ! k, tm) # post \<and> answers_of i pre = take k (answers_of i h)"
proof (induction h arbitrary: k)
  case (Cons e h)
  obtain j c b tm where e: "e = (j, c, b, tm)" by (cases e)
  show ?case
  proof (cases "j = i")
    case True
    show ?thesis
    proof (cases k)
      case 0
      with True e show ?thesis by (intro exI [of _ "[]"]) auto
    next
      case (Suc n)
      then obtain pre c' tm' post where
        "h = pre @ (i, c', answers_of i h ! n, tm') # post" "answers_of i pre = take n (answers_of i h)"
        using Cons.IH [of n] Cons.prems True e by auto
      with True e Suc show ?thesis by (intro exI [of _ "e # pre"]) auto
    qed
  next
    case False
    then obtain pre c' tm' post where
      "h = pre @ (i, c', answers_of i h ! k, tm') # post" "answers_of i pre = take k (answers_of i h)"
      using Cons.IH [of k] Cons.prems e by auto
    with False e show ?thesis by (intro exI [of _ "e # pre"]) auto
  qed
qed simp

text \<open>The answer number \<open>k\<close> of a thread was served, to the command it waited for after \<open>k\<close> answers.\<close>

lemma answer_told:
  assumes "told iter h i (Some t)" and "k < length (th_answers t)"
    and "waiting iter (t\<lparr>th_answers := take k (th_answers t)\<rparr>) = Some c"
  shows "\<exists>tm. (i, c, th_answers t ! k, tm) \<in> set h"
proof -
  note told = assms(1) [unfolded told_def option.case]
  then have eq: "th_answers t = answers_of i h" by blast
  obtain pre c' tm post where h: "h = pre @ (i, c', th_answers t ! k, tm) # post"
    and pre: "answers_of i pre = take k (th_answers t)"
    using answers_of_nth [of k i h] assms(2) unfolding eq [symmetric] by blast
  have "waiting iter (t\<lparr>th_answers := answers_of i pre\<rparr>) = Some c'" using told h by blast
  with assms(3) pre h show ?thesis by auto
qed

lemma answer_served:
  assumes "pool_reach iter (pool_of w) p" and "threads p i = Some t" and "k < length (th_answers t)"
    and "waiting iter (t\<lparr>th_answers := take k (th_answers t)\<rparr>) = Some c"
  shows "\<exists>tm. (i, c, th_answers t ! k, tm) \<in> set (history p)"
  by (rule answer_told [OF told_reach [OF assms(1), of i, unfolded assms(2)] assms(3,4)])

subsection \<open>Reservations under any interleaving\<close>

text \<open>
  The one command a reservation of the token \<open>k\<close> is, and the times at which it was
  granted. A task is calm when the keys of its user are not those of some token.
\<close>

definition reserve_call :: "string \<Rightarrow> call" where
  "reserve_call k = CSetIfNotExist (IdempotencyKey k) ''1'' (kIdempotencyHold * 1000)"

definition grant_times :: "string \<Rightarrow> (nat \<times> call \<times> answer \<times> time) list \<Rightarrow> time list" where
  "grant_times k h = map (\<lambda>(i, c, a, tm). tm) (filter (\<lambda>(i, c, a, tm). c = reserve_call k \<and> a = ABool (Inr True)) h)"

fun calm :: "task \<Rightarrow> bool" where
  "calm (Recommend req) = (\<not> idem_like (GetArg req ''user_id''))"
| "calm (Deliver m) = (\<forall>p. message_fields ref_json m = Some p \<longrightarrow> \<not> idem_like (ap_user_id p))"
| "calm t = True"

lemma grant_times_simps [simp]:
  "grant_times k [] = []"
  "grant_times k (h @ h') = grant_times k h @ grant_times k h'"
  "grant_times k [(i, c, a, tm)] = (if c = reserve_call k \<and> a = ABool (Inr True) then [tm] else [])"
  by (simp_all add: grant_times_def)

text \<open>Only a reservation of the token itself touches its key, and only when the key is free.\<close>

lemma token_frame:
  assumes "calm t" and "allowed t c" and "serve c w = (a, w')"
    and "kv w' (IdempotencyKey k) \<noteq> kv w (IdempotencyKey k)"
  shows "c = reserve_call k" and "visible (srv_time w') (kv w (IdempotencyKey k)) = None"
    and "kv w' (IdempotencyKey k) = Some (''1'', Some (srv_time w' + ns_of_secs kIdempotencyHold))"
proof -
  have "kv w' \<noteq> kv w" using assms(4) by auto
  note served = kv_serve [OF assms(3) this]
  have user: "IdempotencyKey k \<noteq> k'" if "user_key u k'" "\<not> idem_like u" for u k'
    using that user_key_neq_token [of u k] by (auto simp: user_key_def)
  have side: "IdempotencyKey k \<noteq> k'" if "side_key k'" for k'
    using that by (auto simp: side_key_def)
  have "c = reserve_call k \<and> visible (srv_time w') (kv w (IdempotencyKey k)) = None \<and>
      kv w' (IdempotencyKey k) = Some (''1'', Some (srv_time w' + ns_of_secs kIdempotencyHold))"
  proof (cases t)
    case (Post req)
    with assms(2,4) served show ?thesis by (auto simp: reserve_call_def ns_per_ms_secs split: if_splits)
  next
    case (Recommend req)
    with assms(1,2,4) served user [of "GetArg req ''user_id''"] side show ?thesis
      by (cases c) (auto simp: user_key_def split: if_splits)
  next
    case (Product req)
    with assms(2) served show ?thesis by auto
  next
    case (Deliver m)
    with assms(1,2,4) served user show ?thesis by (auto split: if_splits)
  qed
  then show "c = reserve_call k" and "visible (srv_time w') (kv w (IdempotencyKey k)) = None"
    and "kv w' (IdempotencyKey k) = Some (''1'', Some (srv_time w' + ns_of_secs kIdempotencyHold))" by blast+
qed

lemma reserve_served:
  assumes "serve (reserve_call k) w = (ABool (Inr True), w')"
  shows "visible (srv_time w') (kv w (IdempotencyKey k)) = None"
    and "kv w' (IdempotencyKey k) = Some (''1'', Some (srv_time w' + ns_of_secs kIdempotencyHold))"
proof -
  have "r_SetIfNotExist ref_redis (IdempotencyKey k) ''1'' (kIdempotencyHold * 1000) w = (Inr True, w')"
    using assms by (auto simp: reserve_call_def map_prod_def split: prod.splits)
  moreover have "0 < kIdempotencyHold * 1000" by (simp add: kIdempotencyHold_def)
  ultimately show "visible (srv_time w') (kv w (IdempotencyKey k)) = None"
    and "kv w' (IdempotencyKey k) = Some (''1'', Some (srv_time w' + ns_of_secs kIdempotencyHold))"
    using ref_redis.setnx_law by (fastforce simp: ns_per_ms_secs)+
qed

text \<open>
  A grant at \<open>tm\<close> stands: until its hold time has passed on the server the key holds the
  token with a deadline no earlier.
\<close>

definition stands :: "string \<Rightarrow> system_world \<Rightarrow> time \<Rightarrow> bool" where
  "stands k w tm \<longleftrightarrow> tm + ns_of_secs kIdempotencyHold \<le> srv_time w \<or>
     (\<exists>v d. kv w (IdempotencyKey k) = Some (v, Some d) \<and> tm + ns_of_secs kIdempotencyHold \<le> d)"

lemma stands_served:
  assumes "calm t" and "allowed t c" and "serve c w = (a, w')" and "stands k w tm"
  shows "stands k w' tm"
proof (cases "kv w' (IdempotencyKey k) = kv w (IdempotencyKey k)")
  case True
  with assms(4) srv_time_serve [OF assms(3)] show ?thesis by (auto simp: stands_def)
next
  case False
  note free = token_frame(2,3) [OF assms(1-3) False]
  have "tm + ns_of_secs kIdempotencyHold \<le> srv_time w'"
    using assms(4) free(1) srv_time_serve [OF assms(3)] by (auto simp: stands_def visible_def split: if_splits)
  then show ?thesis by (simp add: stands_def)
qed

lemma stands_free:
  assumes "stands k w tm" and "visible t (kv w (IdempotencyKey k)) = None" and "srv_time w \<le> t"
  shows "tm + ns_of_secs kIdempotencyHold \<le> t"
  using assms by (auto simp: stands_def visible_def split: if_splits)

definition spaced :: "time \<Rightarrow> time \<Rightarrow> bool" where
  "spaced s t \<longleftrightarrow> s + ns_of_secs kIdempotencyHold \<le> t"

definition grants_inv :: "string \<Rightarrow> pool \<Rightarrow> bool" where
  "grants_inv k p \<longleftrightarrow> sorted_wrt spaced (grant_times k (history p)) \<and> (\<forall>tm \<in> set (grant_times k (history p)). stands k (shared p) tm)"

lemma grants_served:
  assumes "grants_inv k p" and "calm (th_task t)" and "allowed (th_task t) c" and "serve c (shared p) = (a, w')"
  shows "grants_inv k (p\<lparr>shared := w', threads := ts, history := history p @ [(i, c, a, srv_time w')]\<rparr>)"
proof -
  from assms(1) have IH: "sorted_wrt spaced (grant_times k (history p))"
    "\<And>tm. tm \<in> set (grant_times k (history p)) \<Longrightarrow> stands k (shared p) tm" by (auto simp: grants_inv_def)
  note stays = stands_served [OF assms(2-4)]
  show ?thesis
  proof (cases "c = reserve_call k \<and> a = ABool (Inr True)")
    case True
    with assms(4) have "serve (reserve_call k) (shared p) = (ABool (Inr True), w')" by simp
    note new = reserve_served [OF this]
    have "spaced tm (srv_time w')" if "tm \<in> set (grant_times k (history p))" for tm
      using stands_free [OF IH(2) [OF that] new(1) srv_time_serve [OF assms(4)]] by (simp add: spaced_def)
    moreover have "stands k w' (srv_time w')" using new(2) by (simp add: stands_def)
    ultimately show ?thesis using IH stays True by (auto simp: grants_inv_def sorted_wrt_append)
  next
    case False
    with IH stays show ?thesis by (auto simp: grants_inv_def)
  qed
qed

lemma grants_kept:
  assumes "\<And>xs. mset (iter xs) = mset xs" and "pool_reach iter (pool_of w) p"
    and "\<forall>t \<in> ran (threads p). calm (th_task t)"
  shows "grants_inv k p"
  using assms(2,3) unfolding pool_reach_def
proof (induction rule: rtranclp_induct)
  case base
  then show ?case by (simp add: pool_of_def grants_inv_def)
next
  case (step p p')
  from step.hyps(2) show ?case
  proof cases
    case (start i t c d)
    have "ran (threads p) \<subseteq> ran (threads p')" using start by (simp add: ran_map_upd subset_insertI)
    then have "\<forall>t \<in> ran (threads p). calm (th_task t)" using step.prems by blast
    with step.IH start(1) show ?thesis by (simp add: grants_inv_def)
  next
    case (served i t c a w')
    have "x = t \<or> x \<in> ran (threads p')" if "threads p j = Some x" for j x
      using that served(1,2) by (cases "j = i") (auto simp: ran_def intro: exI [of _ j])
    then have "ran (threads p) \<subseteq> insert t (ran (threads p'))" by (auto simp: ran_def)
    moreover have "hear a t \<in> ran (threads p')" using served(1) by (auto simp: ran_def)
    then have calm: "calm (th_task t)" using step.prems by fastforce
    ultimately have "\<forall>t \<in> ran (threads p). calm (th_task t)" using step.prems by auto
    from grants_served [OF step.IH [OF this] calm waiting_allowed(1) [OF assms(1) served(3)] served(4)] served(1)
    show ?thesis by simp
  next
    case (ack i t m x)
    then have "stands k (shared p') tm \<longleftrightarrow> stands k (shared p) tm" for tm by (simp add: stands_def)
    with step ack show ?thesis by (simp add: grants_inv_def)
  next
    case (clock c d)
    then have "stands k (shared p') tm \<longleftrightarrow> stands k (shared p) tm" for tm by (simp add: stands_def srv_time_def)
    with step clock show ?thesis by (simp add: grants_inv_def)
  qed
qed

text \<open>A request answered as accepted was granted its reservation by the first command it gave.\<close>

lemma thread_HandleAction:
  assumes "valid_payload q"
  shows "HandleAction ref_json (action_on thread_servers) q =
    bindE (ask (reserve_call (ap_idempotency_key q)) bool_of) (\<lambda>reserved.
      if \<not> reserved then ret Duplicate
      else bindE (ask (CPublish events_exchange ''user.action'' (ToString ref_json (action_doc q)) kTransient) unit_of) (\<lambda>_. ret Accepted))"
  unfolding HandleAction_valid [OF assms] action_on_def redis_idempotency_port_def rabbit_queue_port_def
    action_service.simps idempotency_port.simps queue_port.simps redis_TryReserve_def rabbit_PublishJson_def
    publisher_on_def rabbit_publisher.simps redis_on_simps thread_redis_simps Let_def reserve_call_def ..

definition accepted_post :: "(item list \<Rightarrow> item list) \<Rightarrow> thread \<Rightarrow> action_payload \<Rightarrow> bool" where
  "accepted_post iter t q \<longleftrightarrow> (\<exists>req. th_task t = Post req \<and> request_payload ref_json req = Some q \<and>
     result iter t = Some (Inr (Responded (reply kAccepted (JsonActionAccepted ref_json False)))))"

lemma JsonActionAccepted_inj: "JsonActionAccepted ref_json b = JsonActionAccepted ref_json b' \<longleftrightarrow> b = b'"
proof
  assume "JsonActionAccepted ref_json b = JsonActionAccepted ref_json b'"
  then have "FromString ref_json (JsonActionAccepted ref_json b) = FromString ref_json (JsonActionAccepted ref_json b')"
    by simp
  then show "b = b'"
    using ref_json_codec_ok unfolding codec_ok_def JsonActionAccepted_def by simp
qed simp

definition publish_call :: "action_payload \<Rightarrow> call" where
  "publish_call q = CPublish events_exchange ''user.action'' (ToString ref_json (action_doc q)) kTransient"

lemma accepted_post_answers:
  assumes "accepted_post iter t q"
  shows "valid_payload q" and "\<exists>as. th_answers t = ABool (Inr True) # AUnit (Inr ()) # as"
    and "waiting iter (t\<lparr>th_answers := []\<rparr>) = Some (reserve_call (ap_idempotency_key q))"
    and "waiting iter (t\<lparr>th_answers := [ABool (Inr True)]\<rparr>) = Some (publish_call q)"
proof -
  obtain req where req: "th_task t = Post req" "request_payload ref_json req = Some q"
    and res: "result iter t = Some (Inr (Responded (reply kAccepted (JsonActionAccepted ref_json False))))"
    using assms by (auto simp: accepted_post_def)
  let ?t0 = "\<lambda>as. \<lparr>sys_clk = th_sys_clk t, steady_clk = th_steady_clk t, answers = as, asked = None, dialogue = []\<rparr>"
  let ?H = "HandleAction ref_json (action_on thread_servers) q"
  have run: "task_prog iter thread_servers (th_task t) (?t0 as) = (case ?H (?t0 as) of
      (Inl e, w') \<Rightarrow> (Inr (Responded (reply kBadRequest (JsonError ref_json (what e)))), w')
    | (Inr r, w') \<Rightarrow> (Inr (Responded (reply kAccepted (JsonActionAccepted ref_json (r = Duplicate)))), w'))" for as
    using ActionHandler_payload [OF req(2), of "action_on thread_servers" "?t0 as"]
    by (simp add: req(1) bindE_def split: prod.split sum.split)
  have "waiting iter t = None" and fst: "fst (task_prog iter thread_servers (th_task t) (?t0 (th_answers t))) =
      Inr (Responded (reply kAccepted (JsonActionAccepted ref_json False)))"
    using res by (auto simp: result_def resume_def split: option.splits)
  then have none: "asked (snd (?H (?t0 (th_answers t)))) = None"
    using run [of "th_answers t"] by (simp add: waiting_def resume_def split: prod.splits sum.splits)
  have acc: "fst (?H (?t0 (th_answers t))) = Inr Accepted"
  proof (cases "?H (?t0 (th_answers t))")
    case (Pair r w')
    with fst run [of "th_answers t"] show ?thesis
      by (cases r; cases "projr r") (auto simp: reply_def JsonActionAccepted_inj)
  qed
  then show valid: "valid_payload q" using HandleAction_returns_valid by (metis prod.collapse)
  have b: "bool_of a = Inr True \<longleftrightarrow> a = ABool (Inr True)" and u: "unit_of a = Inr () \<longleftrightarrow> a = AUnit (Inr ())" for a
    by (cases a; simp add: no_answer_def)+
  from acc none show "\<exists>as. th_answers t = ABool (Inr True) # AUnit (Inr ()) # as"
    unfolding thread_HandleAction [OF valid]
    by (cases "th_answers t"; cases "tl (th_answers t)")
      (auto simp: ask_def bindE_def b u split: sum.splits if_splits)
  show "waiting iter (t\<lparr>th_answers := []\<rparr>) = Some (reserve_call (ap_idempotency_key q))"
    "waiting iter (t\<lparr>th_answers := [ABool (Inr True)]\<rparr>) = Some (publish_call q)"
    using run [of "[]"] run [of "[ABool (Inr True)]"] unfolding thread_HandleAction [OF valid]
    by (simp_all add: waiting_def resume_def ask_def bindE_def publish_call_def)
qed

lemma accepted_told:
  assumes "told iter h i (Some t)" and "accepted_post iter t q"
  shows "\<exists>tm. (i, reserve_call (ap_idempotency_key q), ABool (Inr True), tm) \<in> set h"
    and "\<exists>tm. (i, publish_call q, AUnit (Inr ()), tm) \<in> set h"
  using answer_told [OF assms(1), of 0] answer_told [OF assms(1), of 1] accepted_post_answers [OF assms(2)]
  by auto

lemma accepted_served:
  assumes "pool_reach iter (pool_of w) p" and "threads p i = Some t" and "accepted_post iter t q"
  shows "\<exists>tm. (i, reserve_call (ap_idempotency_key q), ABool (Inr True), tm) \<in> set (history p)"
    and "\<exists>tm. (i, publish_call q, AUnit (Inr ()), tm) \<in> set (history p)"
  using accepted_told [OF told_reach [OF assms(1), of i, unfolded assms(2)] assms(3)] by blast+

text \<open>Two places in the history are two grants, one after the other.\<close>

lemma grants_two:
  assumes "sorted_wrt spaced (grant_times k h)"
    and "(i, reserve_call k, ABool (Inr True), ti) \<in> set h"
    and "(j, reserve_call k, ABool (Inr True), tj) \<in> set h" and "i \<noteq> j"
  shows "spaced ti tj \<or> spaced tj ti"
proof -
  obtain pre rest pre' rest' where h: "h = pre @ (i, reserve_call k, ABool (Inr True), ti) # rest"
    "h = pre' @ (j, reserve_call k, ABool (Inr True), tj) # rest'"
    using assms(2,3) by (meson split_list)
  have "\<exists>xs x ys y zs. h = xs @ x # ys @ y # zs \<and> {x, y} = {(i, reserve_call k, ABool (Inr True), ti), (j, reserve_call k, ABool (Inr True), tj)}
      \<and> x \<noteq> y"
  proof -
    have eq: "pre @ (i, reserve_call k, ABool (Inr True), ti) # rest = pre' @ (j, reserve_call k, ABool (Inr True), tj) # rest'"
      using h by simp
    then consider us where "pre' = pre @ (i, reserve_call k, ABool (Inr True), ti) # us"
      | us where "pre = pre' @ (j, reserve_call k, ABool (Inr True), tj) # us"
      using assms(4) by (auto simp: append_eq_append_conv2 Cons_eq_append_conv append_eq_Cons_conv)
    then show ?thesis
    proof cases
      case 1
      with h(2) show ?thesis using assms(4) by fastforce
    next
      case 2
      with h(1) show ?thesis using assms(4) by fastforce
    qed
  qed
  then obtain xs x ys y zs where h': "h = xs @ x # ys @ y # zs"
    and xy: "{x, y} = {(i, reserve_call k, ABool (Inr True), ti), (j, reserve_call k, ABool (Inr True), tj)}" by blast
  from assms(1) xy show ?thesis
    unfolding h' by (auto simp: grant_times_def sorted_wrt_append doubleton_eq_iff)
qed

end
