(* ===== verification/Sequential.thy ===== *)
theory Sequential
  imports Pool
begin

text \<open>
  One request at a time is one of the ways the pool can run: a thread that is served without
  interruption gives the commands the program gives when it runs on the servers directly, gets
  the same answers, and ends with the same result in the same world. So the runs of
  \<open>System\<close> are runs of \<open>Pool\<close>.
\<close>

subsection \<open>A thread follows the program on the servers\<close>

fun serves :: "system_world \<Rightarrow> (call \<times> answer) list \<Rightarrow> system_world \<Rightarrow> bool" where
  "serves w [] v = (v = w)"
| "serves w ((c, a) # ys) v = (\<exists>w1. serve c w = (a, w1) \<and> serves w1 ys v)"

lemma serves_append: "serves w (xs @ ys) v \<longleftrightarrow> (\<exists>w1. serves w xs w1 \<and> serves w1 ys v)"
  by (induction w xs v rule: serves.induct) auto

definition clocked :: "system_world \<Rightarrow> clock \<Rightarrow> clock \<Rightarrow> system_world" where
  "clocked w c d = w\<lparr>sys_clk := c, steady_clk := d\<rparr>"

lemma clocked_simps [simp]:
  "sys_clk (clocked w c d) = c" "steady_clk (clocked w c d) = d" "clocked (clocked w a b) c d = clocked w c d"
  "clocked w (sys_clk w) (steady_clk w) = w"
  by (simp_all add: clocked_def)

lemma server_clocked:
  "command f (clocked w c d) = map_prod id (\<lambda>v. clocked v c d) (command f w)"
  "ref_select ts q (clocked w c d) = map_prod id (\<lambda>v. clocked v c d) (ref_select ts q w)"
  "ref_insert ts st (clocked w c d) = map_prod id (\<lambda>v. clocked v c d) (ref_insert ts st w)"
  "broker_call g (clocked w c d) = map_prod id (\<lambda>v. clocked v c d) (broker_call g w)"
proof -
  have "srv_time (w\<lparr>sys_clk := c, steady_clk := d, srv_clk := e, commands := n\<rparr>) = srv_time (w\<lparr>srv_clk := e, commands := n\<rparr>)" for e n
    by (simp add: srv_time_def)
  then show "command f (clocked w c d) = map_prod id (\<lambda>v. clocked v c d) (command f w)"
    by (simp add: command_def clocked_def Let_def split: prod.split fault.split)
  show "ref_select ts q (clocked w c d) = map_prod id (\<lambda>v. clocked v c d) (ref_select ts q w)"
    by (simp add: ref_select_def clocked_def Let_def split: fault.split)
  show "ref_insert ts st (clocked w c d) = map_prod id (\<lambda>v. clocked v c d) (ref_insert ts st w)"
    by (simp add: ref_insert_def clocked_def Let_def split: prod.split fault.split)
  show "broker_call g (clocked w c d) = map_prod id (\<lambda>v. clocked v c d) (broker_call g w)"
    by (simp add: broker_call_def clocked_def Let_def split: sum.split fault.split)
qed

lemma serve_clocked: "serve x (clocked w c d) = map_prod id (\<lambda>v. clocked v c d) (serve x w)"
  by (cases x) (simp_all add: ref_redis_def ref_pg_def ref_rabbit_def server_clocked prod.map_comp comp_def)

lemma serves_clocked: "serves w ys v \<Longrightarrow> serves (clocked w c d) ys (clocked v c d)"
  by (induction w ys v rule: serves.induct) (auto simp: serve_clocked)

text \<open>The world of a thread about to read the answers \<open>as\<close>.\<close>

definition thread_at :: "clock \<Rightarrow> clock \<Rightarrow> answer list \<Rightarrow> (call \<times> answer) list \<Rightarrow> thread_world" where
  "thread_at c d as es = \<lparr>sys_clk = c, steady_clk = d, answers = as, asked = None, dialogue = es\<rparr>"

definition follows :: "('a, thread_world) prog \<Rightarrow> ('a, system_world) prog \<Rightarrow> bool" where
  "follows m n \<longleftrightarrow>
     (\<forall>t c. asked t = Some c \<longrightarrow> asked (snd (m t)) = Some c) \<and>
     (\<forall>w r w'. n w = (r, w') \<longrightarrow>
       (\<exists>ys v. serves w ys v \<and> w' = clocked v (sys_clk w') (steady_clk w') \<and>
          (\<forall>rest es. m (thread_at (sys_clk w) (steady_clk w) (map snd ys @ rest) es) =
             (r, thread_at (sys_clk w') (steady_clk w') rest (es @ ys))) \<and>
          (\<forall>es. \<forall>i < length ys. asked (snd (m (thread_at (sys_clk w) (steady_clk w) (take i (map snd ys)) es))) =
             Some (fst (ys ! i)))))"

lemma follows_asked: "follows m n \<Longrightarrow> asked t = Some c \<Longrightarrow> asked (snd (m t)) = Some c"
  by (simp add: follows_def)

lemma followsE:
  assumes "follows m n" and "n w = (r, w')"
  obtains ys v where "serves w ys v" and "w' = clocked v (sys_clk w') (steady_clk w')"
    and "\<And>rest es. m (thread_at (sys_clk w) (steady_clk w) (map snd ys @ rest) es) =
      (r, thread_at (sys_clk w') (steady_clk w') rest (es @ ys))"
    and "\<And>i es. i < length ys \<Longrightarrow>
      asked (snd (m (thread_at (sys_clk w) (steady_clk w) (take i (map snd ys)) es))) = Some (fst (ys ! i))"
proof -
  have "\<forall>w r w'. n w = (r, w') \<longrightarrow> (\<exists>ys v. serves w ys v \<and> w' = clocked v (sys_clk w') (steady_clk w') \<and>
      (\<forall>rest es. m (thread_at (sys_clk w) (steady_clk w) (map snd ys @ rest) es) =
         (r, thread_at (sys_clk w') (steady_clk w') rest (es @ ys))) \<and>
      (\<forall>es. \<forall>i < length ys. asked (snd (m (thread_at (sys_clk w) (steady_clk w) (take i (map snd ys)) es))) =
         Some (fst (ys ! i))))"
    by (rule assms(1) [unfolded follows_def, THEN conjunct2])
  from this [rule_format, OF assms(2)] obtain ys v where "serves w ys v" "w' = clocked v (sys_clk w') (steady_clk w')"
    "\<forall>rest es. m (thread_at (sys_clk w) (steady_clk w) (map snd ys @ rest) es) =
      (r, thread_at (sys_clk w') (steady_clk w') rest (es @ ys))"
    "\<forall>es. \<forall>i < length ys. asked (snd (m (thread_at (sys_clk w) (steady_clk w) (take i (map snd ys)) es))) =
      Some (fst (ys ! i))"
    by (elim exE conjE)
  then show thesis by (intro that [of ys v]) simp_all
qed

lemma follows_clocks:
  assumes "\<And>t. fst (m t) = fst (f (sys_clk t))" and "\<And>t. snd (m t) = t\<lparr>sys_clk := snd (f (sys_clk t))\<rparr>"
    and "\<And>w. fst (n w) = fst (f (sys_clk w))" and "\<And>w. snd (n w) = w\<lparr>sys_clk := snd (f (sys_clk w))\<rparr>"
  shows "follows m n"
proof -
  have "m t = (fst (f (sys_clk t)), t\<lparr>sys_clk := snd (f (sys_clk t))\<rparr>)" for t
    using assms(1,2) by (metis prod.collapse)
  moreover have "n w = (fst (f (sys_clk w)), w\<lparr>sys_clk := snd (f (sys_clk w))\<rparr>)" for w
    using assms(3,4) by (metis prod.collapse)
  ultimately show ?thesis
    unfolding follows_def by (auto simp: thread_at_def clocked_def intro!: exI [of _ "[]"])
qed

lemma follows_basic:
  "follows (ret x) (ret x)" "follows (throw e) (throw e)" "follows (pure_prog y) (pure_prog y)"
  "follows sys_now sys_now"
proof -
  show "follows (ret x) (ret x)" by (rule follows_clocks [where f = "\<lambda>c. (Inr x, c)"]) simp_all
  show "follows (throw e) (throw e)" by (rule follows_clocks [where f = "\<lambda>c. (Inl e, c)"]) simp_all
  show "follows (pure_prog y) (pure_prog y)" by (rule follows_clocks [where f = "\<lambda>c. (y, c)"]) simp_all
  show "follows sys_now sys_now"
    by (rule follows_clocks [where f = "\<lambda>c. (Inr (peek c), tick c)"]) simp_all
qed

lemma follows_ask:
  assumes "\<And>w. serve c w = map_prod K id (n w)" and "\<And>r. read (K r) = r"
    and "\<And>w. sys_clk (snd (n w)) = sys_clk w \<and> steady_clk (snd (n w)) = steady_clk w"
  shows "follows (ask c read) n"
  unfolding follows_def
proof (intro conjI allI impI)
  fix t :: thread_world and x assume "asked t = Some x"
  then show "asked (snd (ask c read t)) = Some x" by (simp add: ask_def split: list.split)
next
  fix w r w' assume run: "n w = (r, w')"
  then have "serves w [(c, K r)] w'" using assms(1) by simp
  moreover have clk: "sys_clk w' = sys_clk w" "steady_clk w' = steady_clk w" using assms(3) [of w] run by simp_all
  moreover have "w' = clocked w' (sys_clk w) (steady_clk w)" unfolding clk [symmetric] by simp
  ultimately show "\<exists>ys v. serves w ys v \<and> w' = clocked v (sys_clk w') (steady_clk w') \<and>
      (\<forall>rest es. ask c read (thread_at (sys_clk w) (steady_clk w) (map snd ys @ rest) es) =
         (r, thread_at (sys_clk w') (steady_clk w') rest (es @ ys))) \<and>
      (\<forall>es. \<forall>i < length ys. asked (snd (ask c read (thread_at (sys_clk w) (steady_clk w) (take i (map snd ys)) es))) =
         Some (fst (ys ! i)))"
    by (intro exI [of _ "[(c, K r)]"] exI [of _ w']) (simp add: ask_def thread_at_def assms(2))
qed

lemma follows_then:
  assumes "follows m n" and "\<And>x. follows (f x) (f' x)" and "\<And>e. follows (h e) (h' e)"
  shows "follows (\<lambda>t. case m t of (Inl e, t1) \<Rightarrow> h e t1 | (Inr x, t1) \<Rightarrow> f x t1)
    (\<lambda>w. case n w of (Inl e, w1) \<Rightarrow> h' e w1 | (Inr x, w1) \<Rightarrow> f' x w1)"
  unfolding follows_def
proof (intro conjI allI impI)
  let ?M = "\<lambda>t. case m t of (Inl e, t1) \<Rightarrow> h e t1 | (Inr x, t1) \<Rightarrow> f x t1"
  have keep: "asked (snd (?M t)) = Some c" if "asked (snd (m t)) = Some c" for t c
    using that follows_asked [OF assms(2)] follows_asked [OF assms(3)] by (cases "m t"; cases "fst (m t)") auto
  show "asked (snd (?M t)) = Some c" if "asked t = Some c" for t c
    using keep follows_asked [OF assms(1) that] by simp
  fix w r w' assume run: "(case n w of (Inl e, w1) \<Rightarrow> h' e w1 | (Inr x, w1) \<Rightarrow> f' x w1) = (r, w')"
  obtain y w1 where n: "n w = (y, w1)" by fastforce
  define g where "g = (case y of Inl e \<Rightarrow> h e | Inr x \<Rightarrow> f x)"
  define g' where "g' = (case y of Inl e \<Rightarrow> h' e | Inr x \<Rightarrow> f' x)"
  have g: "follows g g'" using assms(2,3) by (simp add: g_def g'_def split: sum.split)
  have M: "?M t = g t1" if "m t = (y, t1)" for t t1
    using that by (simp add: g_def split: sum.split)
  have run': "g' w1 = (r, w')" using run n by (simp add: g'_def split: sum.splits)
  obtain ys v where ys: "serves w ys v" and v: "w1 = clocked v (sys_clk w1) (steady_clk w1)"
    and all: "\<And>rest es. m (thread_at (sys_clk w) (steady_clk w) (map snd ys @ rest) es) =
      (y, thread_at (sys_clk w1) (steady_clk w1) rest (es @ ys))"
    and part: "\<And>i es. i < length ys \<Longrightarrow>
      asked (snd (m (thread_at (sys_clk w) (steady_clk w) (take i (map snd ys)) es))) = Some (fst (ys ! i))"
    by (rule followsE [OF assms(1) n]) blast
  obtain zs u where zs: "serves w1 zs u" and u: "w' = clocked u (sys_clk w') (steady_clk w')"
    and all': "\<And>rest es. g (thread_at (sys_clk w1) (steady_clk w1) (map snd zs @ rest) es) =
      (r, thread_at (sys_clk w') (steady_clk w') rest (es @ zs))"
    and part': "\<And>i es. i < length zs \<Longrightarrow>
      asked (snd (g (thread_at (sys_clk w1) (steady_clk w1) (take i (map snd zs)) es))) = Some (fst (zs ! i))"
    by (rule followsE [OF g run']) blast
  let ?v = "clocked u (sys_clk v) (steady_clk v)"
  have "clocked w1 (sys_clk v) (steady_clk v) = v" by (subst v) simp
  with serves_clocked [OF zs, of "sys_clk v" "steady_clk v"] ys have "serves w (ys @ zs) ?v"
    by (auto simp: serves_append)
  moreover have "w' = clocked ?v (sys_clk w') (steady_clk w')" using u by simp
  moreover have "?M (thread_at (sys_clk w) (steady_clk w) (map snd (ys @ zs) @ rest) es) =
      (r, thread_at (sys_clk w') (steady_clk w') rest (es @ ys @ zs))" for rest es
    using M [OF all [of "map snd zs @ rest"]] all' by simp
  moreover have "asked (snd (?M (thread_at (sys_clk w) (steady_clk w) (take i (map snd (ys @ zs))) es))) =
      Some (fst ((ys @ zs) ! i))" if "i < length (ys @ zs)" for i es
  proof (cases "i < length ys")
    case True
    with keep part [OF True] show ?thesis by (simp add: nth_append)
  next
    case False
    with that M [OF all [of "take (i - length ys) (map snd zs)"]] part' [of "i - length ys"] show ?thesis
      by (simp add: nth_append)
  qed
  ultimately show "\<exists>ys v. serves w ys v \<and> w' = clocked v (sys_clk w') (steady_clk w') \<and>
      (\<forall>rest es. ?M (thread_at (sys_clk w) (steady_clk w) (map snd ys @ rest) es) =
         (r, thread_at (sys_clk w') (steady_clk w') rest (es @ ys))) \<and>
      (\<forall>es. \<forall>i < length ys. asked (snd (?M (thread_at (sys_clk w) (steady_clk w) (take i (map snd ys)) es))) =
         Some (fst (ys ! i)))" by blast
qed

lemma follows_bindE: "follows m n \<Longrightarrow> (\<And>x. follows (f x) (f' x)) \<Longrightarrow> follows (bindE m f) (bindE n f')"
  unfolding bindE_cases by (intro follows_then follows_basic)

lemma follows_try_catch: "follows m n \<Longrightarrow> (\<And>e. follows (h e) (h' e)) \<Longrightarrow> follows (try_catch m h) (try_catch n h')"
  unfolding try_catch_cases by (intro follows_then follows_basic)

lemma follows_if: "follows m n \<Longrightarrow> follows m' n' \<Longrightarrow> follows (if b then m else m') (if b then n else n')"
  by simp

lemma follows_option: "follows m n \<Longrightarrow> (\<And>x. follows (f x) (f' x)) \<Longrightarrow>
    follows (case v of None \<Rightarrow> m | Some x \<Rightarrow> f x) (case v of None \<Rightarrow> n | Some x \<Rightarrow> f' x)"
  by (cases v) simp_all

lemma follows_sum: "(\<And>e. follows (g e) (g' e)) \<Longrightarrow> (\<And>x. follows (f x) (f' x)) \<Longrightarrow>
    follows (case v of Inl e \<Rightarrow> g e | Inr x \<Rightarrow> f x) (case v of Inl e \<Rightarrow> g' e | Inr x \<Rightarrow> f' x)"
  by (cases v) simp_all

lemma follows_list: "follows m n \<Longrightarrow> (\<And>x xs. follows (f x xs) (f' x xs)) \<Longrightarrow>
    follows (case v of [] \<Rightarrow> m | x # xs \<Rightarrow> f x xs) (case v of [] \<Rightarrow> n | x # xs \<Rightarrow> f' x xs)"
  by (cases v) simp_all

lemma follows_ttl: "follows m n \<Longrightarrow> follows m' n' \<Longrightarrow> (\<And>x. follows (f x) (f' x)) \<Longrightarrow>
    follows (case v of TtlNoKey \<Rightarrow> m | TtlNoExpiration \<Rightarrow> m' | TtlExpire x \<Rightarrow> f x)
      (case v of TtlNoKey \<Rightarrow> n | TtlNoExpiration \<Rightarrow> n' | TtlExpire x \<Rightarrow> f' x)"
  by (cases v) simp_all

lemmas follows_cases = follows_bindE follows_try_catch follows_if follows_option follows_sum follows_list follows_ttl
  follows_basic

subsection \<open>The commands and the operations\<close>

lemma client_clocks:
  "sys_clk (snd (command f w)) = sys_clk w \<and> steady_clk (snd (command f w)) = steady_clk w"
  "sys_clk (snd (ref_select ts q w)) = sys_clk w \<and> steady_clk (snd (ref_select ts q w)) = steady_clk w"
  "sys_clk (snd (ref_insert ts st w)) = sys_clk w \<and> steady_clk (snd (ref_insert ts st w)) = steady_clk w"
  "sys_clk (snd (broker_call g w)) = sys_clk w \<and> steady_clk (snd (broker_call g w)) = steady_clk w"
  by (simp_all add: command_def ref_select_def ref_insert_def broker_call_def Let_def split: prod.split fault.split sum.split)

lemma ref_servers_simps [simp]:
  "sv_redis ref_servers = ref_redis" "sv_pg ref_servers = ref_pg" "sv_rabbit ref_servers = ref_rabbit"
  by (simp_all add: ref_servers_def)

lemma follows_commands:
  "follows (ask (CGet k) text_of) (r_Get ref_redis k)"
  "follows (ask (CSetex k ttl v) unit_of) (r_Setex ref_redis k ttl v)"
  "follows (ask (CDel k) unit_of) (r_Del ref_redis k)"
  "follows (ask (CTtl k) ttl_of) (r_Ttl ref_redis k)"
  "follows (ask (CExpire k ttl) unit_of) (r_Expire ref_redis k ttl)"
  "follows (ask (CSetIfNotExist k v ms) bool_of) (r_SetIfNotExist ref_redis k v ms)"
  "follows (ask (CSelect ts q) rows_of) (pg_select_slave ref_pg ts q)"
  "follows (ask (CInsert ts st) count_of) (pg_insert_master ref_pg ts st)"
  "follows (ask (CPublish x rk body mt) unit_of) (PublishReliable ref_rabbit x rk body mt)"
  by ((rule follows_ask [where K = AText] follows_ask [where K = AUnit] follows_ask [where K = ATtl]
        follows_ask [where K = ABool] follows_ask [where K = ARows] follows_ask [where K = ACount]);
      simp add: ref_redis_def ref_pg_def ref_rabbit_def client_clocks)+

lemma follows_pids: "follows (PidsFromPidColumn rows) (PidsFromPidColumn rows)"
  by (induction rows) (unfold PidsFromPidColumn.simps, (intro follows_cases; assumption)+)

lemma follows_members: "follows (has_members J d ks) (has_members J d ks)"
  by (induction ks) (unfold has_members.simps, (intro follows_cases; assumption)+)

lemmas follows_rules = follows_cases follows_commands follows_pids follows_members

lemmas redis_method_defs = redis_get_ids_def redis_TryGetFeed_def redis_PutFeed_def redis_TouchFeed_def redis_DropFeed_def
  redis_LastSeenUtc_def redis_MarkSeenUtc_def redis_TryReserve_def redis_InvalidateAfterUserAction_def
  redis_InvalidateUserDerived_def redis_TryGetPopularGlobal_def redis_TryGetGptRanked_def redis_TryGetSimilar_def
  redis_PutPopularGlobal_def redis_PutGptRanked_def redis_PutSimilar_def

lemmas on_servers = redis_on_def publisher_on_def action_on_def product_on_def worker_on_def recommend_ports_simps
  redis_rhythm_data.simps rabbit_publisher.simps action_service.simps product_service.simps user_action_consumer.simps
  pg_rhythm_data.simps idempotency_port.simps queue_port.simps catalog_port.simps
  redis_idempotency_port_def rabbit_queue_port_def pg_catalog_port_def rabbit_PublishJson_def
  thread_redis_simps ref_servers_simps

text \<open>Every program of a task is built from the same pieces on both sides.\<close>

lemma follows_Post:
  "follows (ActionHandler_HandleRequestThrow ref_json (action_on thread_servers) req)
    (ActionHandler_HandleRequestThrow ref_json (action_on ref_servers) req)"
  unfolding ActionHandler_HandleRequestThrow_def action_payload_of_def HandleAction_def on_servers redis_method_defs Let_def
  by (intro follows_rules)+

lemma follows_Product:
  "follows (ProductHandler_HandleRequestThrow ref_json (product_on thread_servers) req)
    (ProductHandler_HandleRequestThrow ref_json (product_on ref_servers) req)"
  unfolding ProductHandler_HandleRequestThrow_def GetProductJson_def pg_GetById_def on_servers Let_def
  by (intro follows_rules)+

lemma follows_Deliver:
  "follows (Process ref_json (worker_on thread_servers) m) (Process ref_json (worker_on ref_servers) m)"
  unfolding Process_def on_servers redis_method_defs option.case
  by (intro follows_rules)+

lemma follows_Recommend:
  "follows (RecommendHandler_HandleRequestThrow ref_json iter (recommend_on thread_servers) req)
    (RecommendHandler_HandleRequestThrow ref_json iter (recommend_on ref_servers) req)"
  unfolding RecommendHandler_HandleRequestThrow_def GetRecommendations_def rebuild_feed_def FetchSources_def
    fetch_popular_def fetch_gpt_def fetch_similar_def ShouldInvalidateFeed_call_def ClassifyVisit_call_def
    on_servers redis_method_defs pg_RecentProductIds_def pg_PopularProductIds_def pg_CatalogNeighborProductIds_def Let_def
  by (intro follows_rules)+

lemma follows_task: "follows (task_prog iter thread_servers t) (task_prog iter ref_servers t)"
  by (cases t; simp only: task_prog.simps; intro follows_bindE follows_basic follows_Post follows_Recommend
      follows_Product follows_Deliver)

subsection \<open>The pool runs a task without interruption\<close>

lemma thread_at_resume:
  "resume iter (t\<lparr>th_answers := as\<rparr>) =
    task_prog iter thread_servers (th_task t) (thread_at (th_sys_clk t) (th_steady_clk t) as [])"
  by (simp add: resume_def thread_at_def)

lemma served_in_turn:
  assumes "serves w ys v" and "threads p i = Some (t\<lparr>th_answers := as\<rparr>)" and "shared p = w"
    and "\<And>j. j < length ys \<Longrightarrow> waiting iter (t\<lparr>th_answers := as @ take j (map snd ys)\<rparr>) = Some (fst (ys ! j))"
  shows "\<exists>p'. pool_reach iter p p' \<and> shared p' = v \<and> acked p' = acked p \<and>
    threads p' = (threads p)(i \<mapsto> t\<lparr>th_answers := as @ map snd ys\<rparr>)"
  using assms
proof (induction w ys v arbitrary: p as rule: serves.induct)
  case (1 w v)
  then show ?case by (intro exI [of _ p]) (auto simp: pool_reach_def fun_upd_idem)
next
  case (2 w c a ys v)
  obtain w1 where s: "serve c w = (a, w1)" "serves w1 ys v" using 2(2) by auto
  let ?p = "p\<lparr>shared := w1, threads := (threads p)(i \<mapsto> hear a (t\<lparr>th_answers := as\<rparr>)),
    history := history p @ [(i, c, a, srv_time w1)]\<rparr>"
  have h: "hear a (t\<lparr>th_answers := as\<rparr>) = t\<lparr>th_answers := as @ [a]\<rparr>" by (simp add: hear_def)
  have "waiting iter (t\<lparr>th_answers := as\<rparr>) = Some c" using 2(5) [of 0] by simp
  from pool_step.served [OF 2(3) this] s 2(4) have step: "pool_step iter p ?p" by simp
  have "waiting iter (t\<lparr>th_answers := (as @ [a]) @ take j (map snd ys)\<rparr>) = Some (fst (ys ! j))" if "j < length ys" for j
    using 2(5) [of "Suc j"] that by simp
  with 2(1) [OF s(2), of ?p "as @ [a]"] h obtain p' where "pool_reach iter ?p p'" "shared p' = v" "acked p' = acked p"
    "threads p' = (threads p)(i \<mapsto> t\<lparr>th_answers := as @ map snd ((c, a) # ys)\<rparr>)"
    by (auto simp del: fun_upd_apply simp: fun_upd_same)
  with step show ?case unfolding pool_reach_def by (metis converse_rtranclp_into_rtranclp)
qed

definition idle :: "pool \<Rightarrow> bool" where
  "idle p \<longleftrightarrow> finite (dom (threads p)) \<and> finite (acked p)"

lemma task_run:
  assumes "idle p" and "\<And>m. t = Deliver m \<Longrightarrow> m \<in> set (worker_queue (shared p))"
    and "task_prog iter ref_servers t (shared p) = (r, w')"
  shows "\<exists>p' i th. pool_reach iter p p' \<and> idle p' \<and> shared p' = w' \<and> threads p i = None \<and> i \<notin> acked p' \<and>
    threads p' = (threads p)(i \<mapsto> th) \<and> th_task th = t \<and> result iter th = Some r \<and> th_sys_clk th = sys_clk (shared p)"
proof -
  obtain i where "i \<notin> dom (threads p) \<union> acked p"
    using assms(1) ex_new_if_finite [OF infinite_UNIV_nat] unfolding idle_def by (metis finite_UnI)
  then have i: "threads p i = None" "i \<notin> acked p" by auto
  let ?w = "shared p"
  obtain ys v where ys: "serves ?w ys v" and v: "w' = clocked v (sys_clk w') (steady_clk w')"
    and all: "\<And>rest es. task_prog iter thread_servers t (thread_at (sys_clk ?w) (steady_clk ?w) (map snd ys @ rest) es) =
      (r, thread_at (sys_clk w') (steady_clk w') rest (es @ ys))"
    and part: "\<And>i es. i < length ys \<Longrightarrow> asked (snd (task_prog iter thread_servers t
      (thread_at (sys_clk ?w) (steady_clk ?w) (take i (map snd ys)) es))) = Some (fst (ys ! i))"
    by (rule followsE [OF follows_task assms(3)]) blast
  let ?t = "fresh_thread t (sys_clk ?w) (steady_clk ?w)"
  let ?p = "p\<lparr>threads := (threads p)(i \<mapsto> ?t)\<rparr>"
  have ready: "waiting iter (?t\<lparr>th_answers := [] @ take j (map snd ys)\<rparr>) = Some (fst (ys ! j))" if "j < length ys" for j
    using part [OF that] unfolding waiting_def thread_at_resume by (simp add: fresh_thread_def)
  have "threads ?p i = Some (?t\<lparr>th_answers := []\<rparr>)" by (simp add: fresh_thread_def)
  from served_in_turn [OF ys this _ ready] obtain p1 where p1: "pool_reach iter ?p p1" "shared p1 = v"
    "acked p1 = acked p" "threads p1 = (threads p)(i \<mapsto> ?t\<lparr>th_answers := map snd ys\<rparr>)" by auto
  let ?p2 = "p1\<lparr>shared := (shared p1)\<lparr>sys_clk := sys_clk w', steady_clk := steady_clk w'\<rparr>\<rparr>"
  have "pool_reach iter p ?p2"
    using p1(1) pool_step.start [of p i t, OF i(1) assms(2)] pool_step.clock unfolding pool_reach_def
    by (meson converse_rtranclp_into_rtranclp rtranclp.rtrancl_into_rtrancl)
  moreover have "shared ?p2 = w'" using v p1(2) by (simp add: clocked_def)
  moreover have "result iter (?t\<lparr>th_answers := map snd ys\<rparr>) = Some r"
    using all [of "[]"] unfolding result_def waiting_def thread_at_resume by (simp add: fresh_thread_def thread_at_def)
  ultimately show ?thesis
    using p1(3,4) i assms(1)
    by (intro exI [of _ ?p2] exI [of _ i] exI [of _ "?t\<lparr>th_answers := map snd ys\<rparr>"])
      (simp add: idle_def fresh_thread_def)
qed

text \<open>So every step of the system is a run of the pool.\<close>

lemma Process_rb:
  assumes "Process ref_json worker0 m w = (r, w' :: system_world)"
  shows "rb w' = rb w"
proof (cases "message_fields ref_json m")
  case None
  from Process_no_fields [OF ref_json_nonobj None, of worker0 w] assms show ?thesis by simp
next
  case (Some p)
  from store_action_parts(1) [of p w r w'] assms show ?thesis unfolding Process_fields [OF Some] by blast
qed

text \<open>\<open>q\<close> is the pool \<open>p\<close> with more threads, which have all returned.\<close>

definition settled :: "(item list \<Rightarrow> item list) \<Rightarrow> pool \<Rightarrow> bool" where
  "settled iter p \<longleftrightarrow> (\<forall>t \<in> ran (threads p). result iter t \<noteq> None)"

definition adds_settled :: "(item list \<Rightarrow> item list) \<Rightarrow> pool \<Rightarrow> pool \<Rightarrow> bool" where
  "adds_settled iter p q \<longleftrightarrow> pool_reach iter p q \<and> idle q \<and> threads p \<subseteq>\<^sub>m threads q \<and>
     (settled iter p \<longrightarrow> settled iter q)"

lemma adds_settled_trans: "adds_settled iter p q \<Longrightarrow> adds_settled iter q r \<Longrightarrow> adds_settled iter p r"
  unfolding adds_settled_def pool_reach_def using rtranclp_trans [of "pool_step iter" p q r] map_le_trans by blast

lemma adds_settledI:
  assumes "pool_reach iter p q" and "idle q" and "threads p i = None" and "threads q = (threads p)(i \<mapsto> th)"
    and "result iter th = Some r"
  shows "adds_settled iter p q"
proof -
  have "threads p \<subseteq>\<^sub>m threads q" using assms(3,4) by (auto simp: map_le_def)
  with assms show ?thesis by (simp add: adds_settled_def settled_def)
qed

lemma task_adds:
  assumes "idle p" and "\<And>m. t = Deliver m \<Longrightarrow> m \<in> set (worker_queue (shared p))"
    and "task_prog iter ref_servers t (shared p) = (r, w')"
  shows "\<exists>p'. adds_settled iter p p' \<and> shared p' = w'"
  using task_run [OF assms] adds_settledI by metis

lemma step_in_pool:
  assumes "idle p" and "sys_step iter (shared p) w'"
  shows "\<exists>p'. adds_settled iter p p' \<and> shared p' = w'"
  using assms(2)
proof cases
  case (post req r)
  then have "task_prog iter ref_servers (Post req) (shared p) = (map_sum id Responded r, w')"
    by (simp add: bindE_def split: sum.split)
  from task_adds [OF assms(1) _ this] show ?thesis by blast
next
  case (recommend req r)
  then have "task_prog iter ref_servers (Recommend req) (shared p) = (map_sum id Responded r, w')"
    by (simp add: bindE_def split: sum.split)
  from task_adds [OF assms(1) _ this] show ?thesis by blast
next
  case (product req r)
  then have "task_prog iter ref_servers (Product req) (shared p) = (map_sum id Responded r, w')"
    by (simp add: bindE_def split: sum.split)
  from task_adds [OF assms(1) _ this] show ?thesis by blast
next
  case (deliver m v)
  then have run: "task_prog iter ref_servers (Deliver m) (shared p) = (Inr Processed, v)" by simp
  from task_run [OF assms(1) _ this] deliver(2) obtain p1 i th where p1: "pool_reach iter p p1" "idle p1" "shared p1 = v"
    "threads p i = None" "i \<notin> acked p1" "threads p1 = (threads p)(i \<mapsto> th)" "th_task th = Deliver m"
    "result iter th = Some (Inr Processed)" by auto
  let ?p = "p1\<lparr>shared := take_message m (shared p1), acked := insert i (acked p1)\<rparr>"
  have "threads p1 i = Some th" using p1(6) by simp
  from pool_step.ack [OF this p1(7,8,5)] have "pool_reach iter p ?p"
    using p1(1) unfolding pool_reach_def by (rule rtranclp.rtrancl_into_rtrancl [rotated])
  from adds_settledI [OF this _ p1(4) _ p1(8)] p1(2,6) have "adds_settled iter p ?p" by (simp add: idle_def)
  moreover have "shared ?p = w'" using deliver(1) p1(3) by simp
  ultimately show ?thesis by blast
next
  case (ack_lost m r)
  then have "task_prog iter ref_servers (Deliver m) (shared p) = (map_sum id (\<lambda>_. Processed) r, w')"
    by (simp add: bindE_def split: sum.split)
  from task_adds [OF assms(1) _ this] ack_lost(1) show ?thesis by auto
qed

lemma reachable_in_pool:
  assumes "idle p" and "reachable iter (shared p) w'"
  shows "\<exists>p'. adds_settled iter p p' \<and> shared p' = w'"
  using assms(2) unfolding reachable_def
proof (induction rule: rtranclp_induct)
  case base
  show ?case using assms(1) by (intro exI [of _ p]) (simp add: adds_settled_def pool_reach_def)
next
  case (step y z)
  then obtain q where q: "adds_settled iter p q" "shared q = y" by blast
  then have "idle q" by (simp add: adds_settled_def)
  from step_in_pool [OF this] step(2) q obtain q' where "adds_settled iter q q'" "shared q' = z" by blast
  with q(1) adds_settled_trans show ?case by blast
qed

lemma idle_reach:
  assumes "pool_reach iter p p'" and "idle p"
  shows "idle p'"
  using assms unfolding pool_reach_def
proof (induction rule: rtranclp_induct)
  case (step y z)
  from step(2) show ?case using step.IH [OF step.prems] by cases (auto simp: idle_def)
qed

lemma idle_pool_of [simp]: "idle (pool_of w)"
  by (simp add: idle_def pool_of_def)

end
