(* ===== verification/Delivery.thy ===== *)
theory Delivery
  imports Sequential
begin

text \<open>
  What becomes of an accepted event when requests and deliveries run at the same time. A
  request answered as accepted has published its message; the message waits in the queue of
  the worker until it is acknowledged, and it is acknowledged only by a delivery that has
  stored its row. Rows stay. So at every moment, as long as the broker does not restart, an accepted event waits or is stored, and one
  with a text that the database refuses waits for ever.
\<close>

subsection \<open>The table of actions\<close>

lemma master_serve:
  assumes "allowed t c" and "serve c w = (a, w')"
  shows "pg_master w' = pg_master w \<or> (\<exists>p now. storable w p \<and> pg_master w' = snd (insert_payload p now (pg_master w)))"
proof (cases c)
  case (CInsert ts st)
  then obtain p where p: "ts = payload_texts p" "st = insert_payload p" using assms(1) by (cases t) auto
  obtain n where ins: "pg_insert_master ref_pg ts st w = (n, w')"
    using CInsert assms(2) by (auto simp: map_prod_def split: prod.splits)
  show ?thesis
  proof (cases "storable w p")
    case True
    with ref_pg.insert_law [OF ins] p show ?thesis by (metis snd_conv)
  next
    case False
    with ins p show ?thesis by (auto simp: storable_def ref_pg_def ref_insert_def)
  qed
next
  case (CSelect ts q)
  then show ?thesis using assms(2) ref_select_apart(3) [THEN call_apartD]
    by (auto simp: map_prod_def split: prod.splits)
next
  case (CPublish x rk body mt)
  then show ?thesis using assms(2)
    by (auto simp: map_prod_def ref_rabbit_def broker_call_def Let_def split: prod.splits sum.splits fault.splits)
qed (use assms(2) serve_redis(1) [of c w a w'] assms(1) in \<open>cases t; auto\<close>)+

lemma table_serve:
  assumes "allowed t c" and "serve c w = (a, w')"
  shows "\<exists>new. user_actions (pg_master w') = user_actions (pg_master w) @ new"
  using master_serve [OF assms] insert_grows unfolding insert_payload_def by (metis append_Nil2)

text \<open>What the database refuses does not change, and what is in the table it has not refused.\<close>

lemma refuses_serve: "serve c w = (a, w') \<Longrightarrow> pg_refuses w' = pg_refuses w"
  by (cases c) (auto simp: ref_redis_def command_def ref_pg_def ref_select_def ref_insert_def ref_rabbit_def
      broker_call_def Let_def map_prod_def split: prod.splits fault.splits sum.splits if_splits)

lemma refuses_step:
  assumes "pool_step iter p p'"
  shows "pg_refuses (shared p') = pg_refuses (shared p)"
  using assms refuses_serve by cases auto

lemma refuses_reach:
  assumes "pool_reach iter p p'"
  shows "pg_refuses (shared p') = pg_refuses (shared p)"
  using assms unfolding pool_reach_def by (induction rule: rtranclp_induct) (auto dest: refuses_step)

lemma storable_reach: "pool_reach iter p p' \<Longrightarrow> storable (shared p') q = storable (shared p) q"
  by (simp add: storable_def refuses_reach)

lemma insert_taken: "serve (CInsert ts st) w = (ACount (Inr n), w') \<Longrightarrow> \<not> pg_refuses w ts"
  by (auto simp: ref_pg_def ref_insert_def map_prod_def split: if_splits)

definition rows_taken :: "system_world \<Rightarrow> bool" where
  "rows_taken w \<longleftrightarrow> (\<forall>a \<in> set (user_actions (pg_master w)). \<forall>q. row_of q a \<longrightarrow> storable w q)"

lemma rows_taken_serve:
  assumes "allowed t c" and "serve c w = (a, w')" and "rows_taken w"
  shows "rows_taken w'"
proof -
  have "storable w q" if "b \<in> set (user_actions (pg_master w'))" "row_of q b" for q b
    using master_serve [OF assms(1,2)] that assms(3)
    by (auto simp: rows_taken_def storable_def insert_payload_def kInsertUserAction_def payload_texts_def row_of_def split: if_splits)
  with refuses_serve [OF assms(2)] show ?thesis by (simp add: rows_taken_def storable_def)
qed

lemma pool_grows:
  assumes "\<And>xs. mset (iter xs) = mset xs" and "pool_reach iter p p'"
  shows "\<exists>new. user_actions (pg_master (shared p')) = user_actions (pg_master (shared p)) @ new"
  using assms(2) unfolding pool_reach_def
proof (induction rule: rtranclp_induct)
  case (step y z)
  from step(2) have "\<exists>new. user_actions (pg_master (shared z)) = user_actions (pg_master (shared y)) @ new"
  proof cases
    case (served i t c a w')
    from table_serve [OF waiting_allowed(1) [OF assms(1) served(3)] served(4)] served(1) show ?thesis by simp
  qed simp_all
  with step.IH show ?case by fastforce
qed simp

lemma has_row_pool:
  assumes "\<And>xs. mset (iter xs) = mset xs" and "pool_step iter p p'" and "has_row q (pg_master (shared p))"
  shows "has_row q (pg_master (shared p'))"
proof -
  have "pool_reach iter p p'" using assms(2) by (simp add: pool_reach_def)
  from pool_grows [OF assms(1) this] assms(3) has_row_grows show ?thesis by blast
qed

subsection \<open>Deliveries\<close>

lemma delivery_program:
  assumes "message_fields ref_json m = Some p"
  shows "task_prog iter thread_servers (Deliver m) =
    bindE (bindE (ask (CInsert (payload_texts p) (insert_payload p)) count_of) (\<lambda>n.
      if 0 < n then redis_InvalidateAfterUserAction (redis_on thread_servers) (ap_user_id p) else ret ())) (\<lambda>_. ret Processed)"
  unfolding task_prog.simps Process_fields [OF assms] store_action_def worker_on_def
    user_action_consumer.simps option.case thread_redis_simps ..

text \<open>
  A delivery asks for its statement first, and one whose processing returned was told by the database
  that the statement was executed.
\<close>

lemma delivery_asks:
  assumes "th_task t = Deliver m" and "message_fields ref_json m = Some p"
  shows "waiting iter (t\<lparr>th_answers := []\<rparr>) = Some (CInsert (payload_texts p) (insert_payload p))"
  by (simp add: waiting_def resume_def assms(1) delivery_program [OF assms(2)] ask_def bindE_def del: task_prog.simps)

lemma delivered_answers:
  assumes "th_task t = Deliver m" and "message_fields ref_json m = Some p" and "result iter t = Some (Inr x)"
  shows "\<exists>n as. th_answers t = ACount (Inr n) # as"
proof -
  have c: "count_of a = Inr n \<longleftrightarrow> a = ACount (Inr n)" for a n by (cases a) (simp_all add: no_answer_def)
  show ?thesis
    using assms(3)
    by (cases "th_answers t") (auto simp: result_def waiting_def resume_def ask_def bindE_def c assms(1)
        delivery_program [OF assms(2)] simp del: task_prog.simps split: sum.splits)
qed

definition stored :: "pool \<Rightarrow> bool" where
  "stored p \<longleftrightarrow> (\<forall>i q n tm. (i, CInsert (payload_texts q) (insert_payload q), ACount (Inr n), tm) \<in> set (history p) \<longrightarrow>
     has_row q (pg_master (shared p)) \<and> storable (shared p) q)"

lemma served_insert:
  assumes "serve (CInsert (payload_texts q) (insert_payload q)) w = (ACount (Inr n), w')"
  shows "has_row q (pg_master w')"
proof -
  have "pg_insert_master ref_pg (payload_texts q) (insert_payload q) w = (Inr n, w')"
    using assms by (auto simp: map_prod_def split: prod.splits)
  from ref_pg.insert_law [OF this] insert_payload_row(2) show ?thesis by (metis Inl_Inr_False snd_conv)
qed

lemma stored_reach:
  assumes "\<And>xs. mset (iter xs) = mset xs" and "sys_start w" and "pool_reach iter (pool_of w) p"
  shows "stored p"
  using assms(3) unfolding pool_reach_def
proof (induction rule: rtranclp_induct)
  case base
  then show ?case by (simp add: stored_def pool_of_def)
next
  case (step y z)
  have inv: "pool_inv y" using pool_inv_reach [OF assms(1) pool_inv_start [OF assms(2)]] step(1)
    by (simp add: pool_reach_def)
  note keep = has_row_pool [OF assms(1) step(2)] refuses_step [OF step(2)]
  from step(2) show ?case
  proof cases
    case (served i t c a w')
    with step.IH keep served_insert insert_taken show ?thesis by (fastforce simp: stored_def storable_def)
  qed (use step.IH keep in \<open>auto simp: stored_def storable_def\<close>)
qed

text \<open>So what is acknowledged has its row.\<close>

lemma acked_stored:
  assumes "\<And>xs. mset (iter xs) = mset xs" and "sys_start w" and "pool_reach iter (pool_of w) p"
    and "threads p i = Some t" and "th_task t = Deliver (ToString ref_json (action_doc q))" and "result iter t = Some (Inr x)"
  shows "has_row q (pg_master (shared p)) \<and> storable (shared p) q"
proof -
  note fields = message_fields_action_doc [OF ref_json_codec_ok]
  obtain n as where "th_answers t = ACount (Inr n) # as" using delivered_answers [OF assms(5) fields assms(6)] by blast
  with answer_served [OF assms(3,4), of 0] delivery_asks [OF assms(5) fields] obtain tm where
    "(i, CInsert (payload_texts q) (insert_payload q), ACount (Inr n), tm) \<in> set (history p)" by auto
  with stored_reach [OF assms(1-3)] show ?thesis by (auto simp: stored_def)
qed

subsection \<open>Published messages\<close>

definition safe_message :: "system_world \<Rightarrow> action_payload \<Rightarrow> bool" where
  "safe_message w q \<longleftrightarrow> ToString ref_json (action_doc q) \<in> set (worker_queue w) \<or>
     has_row q (pg_master w) \<and> storable w q"

lemma served_publish:
  assumes "broker_inv (rb w)" and "serve (publish_call q) w = (AUnit (Inr ()), w')"
  shows "ToString ref_json (action_doc q) \<in> set (worker_queue w')"
proof -
  have "PublishReliable ref_rabbit events_exchange ''user.action'' (ToString ref_json (action_doc q)) kTransient w = (Inr (), w')"
    using assms(2) by (auto simp: publish_call_def map_prod_def split: prod.splits)
  from ref_rabbit.publish_law [OF this] assms(1) ref_rabbit.matches_refl show ?thesis
    by (auto simp: worker_queue_def routed_def broker_inv_def topology_def)
qed

lemma queue_serve:
  assumes "allowed t c" and "serve c w = (a, w')"
  shows "set (worker_queue w) \<subseteq> set (worker_queue w')"
proof (cases "redis_call c")
  case True
  with serve_redis(2) [OF True assms(2)] show ?thesis by (simp add: worker_queue_def)
next
  case False
  show ?thesis
  proof (cases c)
    case (CPublish x rk body mt)
    then obtain r where "PublishReliable ref_rabbit x rk body mt w = (r, w')"
      using assms(2) by (auto simp: map_prod_def split: prod.splits)
    from ref_rabbit.publish_law [OF this] show ?thesis
      by (cases "queues (rb w) user_queue") (auto simp: worker_queue_def)
  next
    case (CInsert ts st)
    then show ?thesis using assms(2) ref_insert_apart(1) [THEN call_apartD]
      by (fastforce simp: worker_queue_def map_prod_def split: prod.splits)
  next
    case (CSelect ts q)
    then show ?thesis using assms(2) ref_select_apart(2) [THEN call_apartD]
      by (fastforce simp: worker_queue_def map_prod_def split: prod.splits)
  qed (use False assms(1) in \<open>cases t; auto\<close>)+
qed

text \<open>An acknowledgement takes one message, which is stored.\<close>

lemma ack_safe:
  assumes "\<And>xs. mset (iter xs) = mset xs" and "sys_start w" and "pool_reach iter (pool_of w) p"
    and "threads p i = Some t" and "th_task t = Deliver m" and "result iter t = Some (Inr x)" and "safe_message (shared p) q"
  shows "safe_message (take_message m (shared p)) q"
proof (cases "m = ToString ref_json (action_doc q)")
  case True
  with acked_stored [OF assms(1-4) _ assms(6)] assms(5) show ?thesis by (simp add: safe_message_def storable_def)
next
  case False
  with assms(7) show ?thesis by (auto simp: safe_message_def storable_def in_set_remove1)
qed

lemma published_safe:
  assumes "\<And>xs. mset (iter xs) = mset xs" and "sys_start w" and "pool_reach iter (pool_of w) p"
    and "(i, publish_call q, AUnit (Inr ()), tm) \<in> set (history p)"
  shows "safe_message (shared p) q"
  using assms(3,4) unfolding pool_reach_def
proof (induction rule: rtranclp_induct)
  case base
  then show ?case by (simp add: pool_of_def)
next
  case (step y z)
  have reach: "pool_reach iter (pool_of w) y" using step(1) by (simp add: pool_reach_def)
  have inv: "pool_inv y" by (rule pool_inv_reach [OF assms(1) pool_inv_start [OF assms(2)] reach])
  note keep = has_row_pool [OF assms(1) step(2)] refuses_step [OF step(2), THEN fun_cong]
  from step(2) show ?case
  proof cases
    case (served j t c a w')
    note q = queue_serve [OF waiting_allowed(1) [OF assms(1) served(3)] served(4)]
    from step.prems served(1) consider "(i, publish_call q, AUnit (Inr ()), tm) \<in> set (history y)"
      | "c = publish_call q" "a = AUnit (Inr ())" by auto
    then show ?thesis
    proof cases
      case 1
      with step.IH q keep served(1) show ?thesis by (auto simp: safe_message_def storable_def)
    next
      case 2
      have "broker_inv (rb (shared y))" using inv by (simp add: pool_inv_def sys_inv_def)
      with served_publish [of "shared y" q w'] 2 served(1,4) show ?thesis by (auto simp: safe_message_def)
    qed
  next
    case (ack j t m x)
    with ack_safe [OF assms(1,2) reach ack(2-4) step.IH] step.prems show ?thesis by (simp add: safe_message_def storable_def)
  next
    case (start i t c d)
    with step show ?thesis by simp
  next
    case (clock c d)
    with step show ?thesis by (simp add: safe_message_def storable_def worker_queue_def)
  qed
qed

subsection \<open>In the end\<close>

lemma no_more_faults_serve:
  assumes "serve c w = (a, w')" and "no_more_faults w"
  shows "no_more_faults w'"
proof -
  have "faults w' = faults w \<and> pg_faults w' = pg_faults w \<and> commands w \<le> commands w' \<and> pg_count w \<le> pg_count w'"
    using assms(1)
    by (cases c) (auto simp: ref_redis_def command_def ref_pg_def ref_select_def ref_insert_def ref_rabbit_def
        broker_call_def Let_def map_prod_def split: prod.splits fault.splits sum.splits if_splits)
  then show ?thesis using assms(2) by (auto simp: no_more_faults_def)
qed

lemma no_more_faults_step:
  assumes "pool_step iter p p'" and "no_more_faults (shared p)"
  shows "no_more_faults (shared p')"
  using assms no_more_faults_serve by cases (auto simp: no_more_faults_def take_message_def)

lemma no_more_faults_reach:
  assumes "pool_reach iter p p'" and "no_more_faults (shared p)"
  shows "no_more_faults (shared p')"
  using assms unfolding pool_reach_def
  by (induction rule: rtranclp_induct) (auto intro: no_more_faults_step)

text \<open>
  When the servers stop failing the threads can end and the queue can be emptied of all that the database
  takes.
\<close>

lemma settle:
  assumes "\<And>xs. mset (iter xs) = mset xs" and "sys_start w" and "pool_reach iter (pool_of w) p"
    and "no_more_faults (shared p)"
  shows "\<exists>p'. pool_reach iter p p' \<and> tasks p \<subseteq>\<^sub>m tasks p' \<and> settled iter p' \<and>
    (\<forall>m \<in> set (worker_queue (shared p')). refused_message (shared p') m)"
proof -
  have "finite (dom (threads p))" using history_length [OF assms(3)] by blast
  from completion [OF assms(1) this] obtain p1 where p1: "pool_reach iter p p1" "tasks p1 = tasks p" "settled iter p1"
    unfolding settled_def by blast
  have r1: "pool_reach iter (pool_of w) p1"
    using assms(3) p1(1) rtranclp_trans [of "pool_step iter"] unfolding pool_reach_def by blast
  have inv: "sys_inv (shared p1)"
    using pool_inv_reach [OF assms(1) pool_inv_start [OF assms(2)] r1] by (simp add: pool_inv_def)
  have "no_more_faults (shared p1)" by (rule no_more_faults_reach [OF p1(1) assms(4)])
  from drain [OF this inv] obtain w' where w': "reachable iter (shared p1) w'"
    "\<forall>m \<in> set (worker_queue w'). refused_message w' m" by blast
  have "idle p1" by (rule idle_reach [OF r1]) simp
  from reachable_in_pool [OF this w'(1)] obtain p2 where p2: "adds_settled iter p1 p2" "shared p2 = w'" by blast
  have "threads p1 \<subseteq>\<^sub>m threads p2" using p2(1) by (simp add: adds_settled_def)
  then have "tasks p1 \<subseteq>\<^sub>m tasks p2" by (fastforce simp: map_le_def tasks_def dom_def)
  then have "tasks p \<subseteq>\<^sub>m tasks p2" using p1(2) by simp
  moreover have "pool_reach iter p p2"
    using p1(1) p2(1) rtranclp_trans [of "pool_step iter"] unfolding pool_reach_def adds_settled_def by blast
  ultimately show ?thesis using p2 p1(3) w'(2) by (auto simp: adds_settled_def)
qed

text \<open>The history only grows, so what was accepted stays so.\<close>

lemma history_grows:
  assumes "pool_reach iter p p'"
  shows "set (history p) \<subseteq> set (history p')"
  using assms unfolding pool_reach_def
proof (induction rule: rtranclp_induct)
  case (step y z)
  from step(2) have "set (history y) \<subseteq> set (history z)" by cases auto
  with step.IH show ?case by blast
qed simp

lemma settled_rows:
  assumes "\<And>xs. mset (iter xs) = mset xs" and "sys_start w" and "pool_reach iter (pool_of w) p"
    and "pool_reach iter p p'" and "\<forall>m \<in> set (worker_queue (shared p')). refused_message (shared p') m"
    and "threads p i = Some t" and "accepted_post iter t q" and "storable (shared p) q"
  shows "has_row q (pg_master (shared p'))"
proof -
  have reach: "pool_reach iter (pool_of w) p'"
    using assms(3,4) rtranclp_trans [of "pool_step iter"] unfolding pool_reach_def by blast
  obtain tm where "(i, publish_call q, AUnit (Inr ()), tm) \<in> set (history p')"
    using accepted_served(2) [OF assms(3,6,7)] history_grows [OF assms(4)] by blast
  from published_safe [OF assms(1,2) reach this] assms(5,8) refused_message_doc storable_reach [OF assms(4)]
  show ?thesis by (auto simp: safe_message_def)
qed

text \<open>An event that the database refuses waits for ever, and no row has its texts.\<close>

lemma rows_taken_reach:
  assumes "\<And>xs. mset (iter xs) = mset xs" and "sys_start w" and "pool_reach iter (pool_of w) p"
  shows "rows_taken (shared p)"
  using assms(3) unfolding pool_reach_def
proof (induction rule: rtranclp_induct)
  case base
  show ?case using assms(2) by (simp add: rows_taken_def sys_start_def pool_of_def)
next
  case (step y z)
  from step(2) show ?case
  proof cases
    case (served i t c a w')
    with rows_taken_serve [OF waiting_allowed(1) [OF assms(1) served(3)] served(4) step.IH] show ?thesis by simp
  qed (use step.IH in \<open>simp_all add: rows_taken_def storable_def\<close>)
qed

lemma refused_waits:
  assumes "\<And>xs. mset (iter xs) = mset xs" and "sys_start w" and "pool_reach iter (pool_of w) p" and "pool_reach iter p p'"
    and "threads p i = Some t" and "accepted_post iter t q" and "\<not> storable (shared p) q"
  shows "ToString ref_json (action_doc q) \<in> set (worker_queue (shared p'))"
    and "\<forall>a \<in> set (user_actions (pg_master (shared p'))). \<not> row_of q a"
proof -
  have reach: "pool_reach iter (pool_of w) p'"
    using assms(3,4) rtranclp_trans [of "pool_step iter"] unfolding pool_reach_def by blast
  have not: "\<not> storable (shared p') q" using assms(7) storable_reach [OF assms(4)] by simp
  obtain tm where "(i, publish_call q, AUnit (Inr ()), tm) \<in> set (history p')"
    using accepted_served(2) [OF assms(3,5,6)] history_grows [OF assms(4)] by blast
  from published_safe [OF assms(1,2) reach this] not
  show "ToString ref_json (action_doc q) \<in> set (worker_queue (shared p'))" by (simp add: safe_message_def)
  show "\<forall>a \<in> set (user_actions (pg_master (shared p'))). \<not> row_of q a"
    using rows_taken_reach [OF assms(1,2) reach] not unfolding rows_taken_def by blast
qed

text \<open>A request that the service accepts when it runs alone is an accepted thread.\<close>

lemma post_in_pool:
  assumes "idle p" and "request_payload ref_json req = Some q"
    and "HandleAction ref_json stack_action q (shared p) = (Inr Accepted, w')"
  shows "\<exists>p' i t. pool_reach iter p p' \<and> idle p' \<and> shared p' = w' \<and> threads p i = None \<and>
    threads p' = (threads p)(i \<mapsto> t) \<and> th_task t = Post req \<and> accepted_post iter t q"
proof -
  have "task_prog iter ref_servers (Post req) (shared p) =
      (Inr (Responded (reply kAccepted (JsonActionAccepted ref_json False))), w')"
    using ActionHandler_payload [OF assms(2), of stack_action "shared p"] assms(3)
    by (simp add: bindE_def)
  from task_run [OF assms(1) _ this] assms(2) show ?thesis
    by (fastforce simp: accepted_post_def)
qed

end
