(* ===== verification/Answers.thy ===== *)
theory Answers
  imports Delivery
begin

text \<open>
  What a thread makes of the answers it gets while others run: its dialogue is part of the
  history, so a fact about every answer the servers ever gave is a fact about what the thread
  has read, and carries over to what it responds. Used for the recommendations: every feed
  that is read is good, so every response is.
\<close>

subsection \<open>The programs of the threads\<close>

lemma steps_ttl_reply:
  "steps m \<Longrightarrow> steps m' \<Longrightarrow> (\<And>s. steps (j s)) \<Longrightarrow>
    steps (case u of TtlNoKey \<Rightarrow> m | TtlNoExpiration \<Rightarrow> m' | TtlExpire s \<Rightarrow> j s)"
  by (simp split: ttl_reply.split)

lemma steps_pids: "steps (PidsFromPidColumn rows)"
  by (induction rows) (unfold PidsFromPidColumn.simps, (intro steps_bindE steps_basic; assumption)+)

lemma steps_members: "steps (has_members J d ks)"
  by (induction ks) (unfold has_members.simps, (intro steps_bindE steps_branch steps_basic; assumption)+)

lemmas steps_rules = steps_bindE steps_try_catch steps_branch steps_ttl_reply steps_basic steps_pids steps_members

lemma steps_redis:
  "steps (redis_TryGetFeed (redis_on thread_servers) u)" "steps (redis_LastSeenUtc (redis_on thread_servers) u)"
  "steps (redis_DropFeed (redis_on thread_servers) u)" "steps (redis_MarkSeenUtc (redis_on thread_servers) u)"
  "steps (redis_TouchFeed (redis_on thread_servers) u ext)" "steps (redis_PutFeed (redis_on thread_servers) u ids ttl)"
  unfolding redis_method_defs redis_on_simps thread_redis_simps redis_on_def redis_rhythm_data.simps Let_def
  by (intro steps_rules)+

lemma steps_FetchSources: "steps (FetchSources (recommend_on thread_servers) u)"
  unfolding FetchSources_def fetch_popular_def fetch_gpt_def fetch_similar_def on_servers redis_method_defs
    pg_RecentProductIds_def pg_PopularProductIds_def pg_CatalogNeighborProductIds_def Let_def
  by (intro steps_rules)

lemma steps_rebuild: "steps (rebuild_feed iter (recommend_on thread_servers) u)"
  unfolding rebuild_feed_def recommend_ports_simps Let_def
  by (intro steps_rules steps_FetchSources steps_redis)

lemma steps_task: "steps (task_prog iter thread_servers t)"
proof (cases t)
  case (Post req)
  show ?thesis
    unfolding Post task_prog.simps ActionHandler_HandleRequestThrow_def action_payload_of_def HandleAction_def
      on_servers redis_method_defs Let_def
    by (intro steps_rules)
next
  case (Recommend req)
  show ?thesis
    unfolding Recommend task_prog.simps RecommendHandler_HandleRequestThrow_def GetRecommendations_def
      recommend_ports_simps Let_def
    by (intro steps_rules steps_redis steps_ttl_calls steps_rebuild)
next
  case (Product req)
  show ?thesis
    unfolding Product task_prog.simps ProductHandler_HandleRequestThrow_def GetProductJson_def pg_GetById_def
      on_servers Let_def
    by (intro steps_rules)
next
  case (Deliver m)
  show ?thesis
    unfolding Deliver task_prog.simps Process_def on_servers redis_method_defs option.case
    by (intro steps_rules)
qed

subsection \<open>The dialogue of a thread is in the history\<close>

definition exchanges_of :: "(item list \<Rightarrow> item list) \<Rightarrow> thread \<Rightarrow> (call \<times> answer) list" where
  "exchanges_of iter t = dialogue (snd (resume iter t))"

lemma exchanges_fresh: "exchanges_of iter (fresh_thread t c d) = []"
  using steps_silent [OF steps_task prod.collapse [symmetric],
      of "\<lparr>sys_clk = c, steady_clk = d, answers = [], asked = None, dialogue = []\<rparr>" iter t]
  by (simp add: exchanges_of_def resume_def fresh_thread_def)

lemma exchanges_hear:
  assumes "waiting iter t = Some c"
  shows "exchanges_of iter (hear a t) = exchanges_of iter t @ [(c, a)]"
proof -
  let ?t = "\<lparr>sys_clk = th_sys_clk t, steady_clk = th_steady_clk t, answers = th_answers t, asked = None, dialogue = []\<rparr>"
  have "resume iter (hear a t) = task_prog iter thread_servers (th_task t) (?t\<lparr>answers := answers ?t @ [a]\<rparr>)"
    by (simp add: resume_def hear_def)
  from stepsD(4) [OF steps_task prod.collapse [symmetric] _ _ prod.collapse [symmetric], of ?t iter "th_task t" c a]
    this assms
  show ?thesis by (simp add: exchanges_of_def waiting_def resume_def)
qed

lemma exchanges_history:
  assumes "pool_reach iter (pool_of w) p" and "threads p i = Some t" and "(c, a) \<in> set (exchanges_of iter t)"
  shows "\<exists>tm. (i, c, a, tm) \<in> set (history p)"
  using assms unfolding pool_reach_def
proof (induction arbitrary: t rule: rtranclp_induct)
  case base
  then show ?case by (simp add: pool_of_def)
next
  case (step y z)
  from step(2) show ?case
  proof cases
    case (start j k cl d)
    with step.prems step.IH show ?thesis by (cases "i = j") (auto simp: exchanges_fresh)
  next
    case (served j th c' a' w')
    show ?thesis
    proof (cases "i = j")
      case True
      with served step.prems have "t = hear a' th" by simp
      with exchanges_hear [OF served(3)] step.prems(2) have "(c, a) \<in> set (exchanges_of iter th) \<or> (c, a) = (c', a')"
        by auto
      with step.IH [of th] served True show ?thesis by auto
    next
      case False
      with served step.prems step.IH show ?thesis by fastforce
    qed
  qed (use step in auto)
qed

subsection \<open>Responses from good answers\<close>

text \<open>A feed that is read is good: what is asserted of the exchanges.\<close>

fun good_exchange :: "call \<times> answer \<Rightarrow> bool" where
  "good_exchange (CGet k, AText (Inr (Some raw))) =
     (\<forall>u ids. k = FeedKey u \<longrightarrow> JsonToIds ref_json raw = Some ids \<longrightarrow> good_feed ids)"
| "good_exchange e = True"

lemma hears_TryGetFeed:
  "hears good_exchange (redis_TryGetFeed (redis_on thread_servers) u) (\<lambda>v. \<forall>e. v = Some e \<longrightarrow> good_feed (product_ids e))"
proof -
  have t: "a = AText (Inr v)" if "text_of a = Inr v" for a v using that by (cases a) (simp_all add: no_answer_def)
  let ?Q = "\<lambda>raw. \<forall>s ids. raw = Some s \<longrightarrow> JsonToIds ref_json s = Some ids \<longrightarrow> good_feed ids"
  have "hears good_exchange (ask (CGet (FeedKey u)) text_of) ?Q"
    by (rule hears_ask) (auto dest!: t)
  moreover have "hears good_exchange
      (case raw of None \<Rightarrow> ret None
       | Some raw \<Rightarrow> (case JsonToIds ref_json raw of
           None \<Rightarrow> bindE (ask (CDel (FeedKey u)) unit_of) (\<lambda>_. ret None)
         | Some ids \<Rightarrow> bindE (ask (CTtl (FeedKey u)) ttl_of) (\<lambda>ttl_rep. case ttl_rep of
             TtlNoKey \<Rightarrow> ret None
           | TtlNoExpiration \<Rightarrow> ret (Some \<lparr>product_ids = ids, ttl_remaining = 0\<rparr>)
           | TtlExpire s \<Rightarrow> ret (Some \<lparr>product_ids = ids, ttl_remaining = s\<rparr>))))
      (\<lambda>v. \<forall>e. v = Some e \<longrightarrow> good_feed (product_ids e))" if "?Q raw" for raw
    using that
    by (auto split: option.split ttl_reply.split intro!: hears_ret hears_seq steps_rules)
  ultimately show ?thesis
    unfolding redis_TryGetFeed_def redis_on_simps thread_redis_simps Let_def
    by (rule hears_bindE) (assumption, intro hears_steps steps_rules)
qed

lemma hears_rebuild:
  assumes "\<And>xs. mset (iter xs) = mset xs"
  shows "hears R (rebuild_feed iter (recommend_on thread_servers) u) (\<lambda>ids. length ids \<le> kFeedListSize \<and> distinct ids)"
proof -
  have "length (TakeTop ids kFeedListSize) \<le> kFeedListSize \<and> distinct (TakeTop ids kFeedListSize)" if "good_feed ids" for ids
    using that unfolding good_feed_def TakeTop_take by (simp add: distinct_take)
  with good_feed_merge [OF assms] show ?thesis
    unfolding rebuild_feed_def recommend_ports_simps Let_def
    by (intro hears_seq steps_rules steps_FetchSources steps_redis hears_ret) blast
qed

lemma hears_GetRecommendations:
  assumes "\<And>xs. mset (iter xs) = mset xs"
  shows "hears good_exchange (GetRecommendations iter (recommend_on thread_servers) u)
    (\<lambda>ids. length ids \<le> kFeedListSize \<and> distinct ids)"
proof -
  have hit: "length (TakeTop ids kFeedListSize) \<le> kFeedListSize \<and> distinct (TakeTop ids kFeedListSize)" if "good_feed ids" for ids
    using that unfolding good_feed_def TakeTop_take by (simp add: distinct_take)
  note st = steps_rules steps_redis steps_ttl_calls steps_rebuild
  let ?Q = "\<lambda>ids. length ids \<le> kFeedListSize \<and> distinct ids"
  let ?tail = "\<lambda>prev cached. case cached of
      Some entry \<Rightarrow> bindE (ClassifyVisit_call prev) (\<lambda>recency.
        bindE (redis_TouchFeed (redis_on thread_servers) u (ExtendFeedTtlOnHit recency)) (\<lambda>_.
        ret (TakeTop (product_ids entry) kFeedListSize)))
    | None \<Rightarrow> rebuild_feed iter (recommend_on thread_servers) u"
  have "hears good_exchange (?tail prev cached) ?Q" if "\<forall>e. cached = Some e \<longrightarrow> good_feed (product_ids e)" for prev cached
  proof (cases cached)
    case None
    then show ?thesis using hears_rebuild [OF assms] by simp
  next
    case (Some entry)
    with that hit have "?Q (TakeTop (product_ids entry) kFeedListSize)" by blast
    then show ?thesis unfolding Some option.case by (intro hears_seq hears_ret st)
  qed
  then have tail: "hears good_exchange (bindE (redis_TryGetFeed (redis_on thread_servers) u) (?tail prev)) ?Q" for prev
    by (rule hears_bindE [OF hears_TryGetFeed]) (assumption, intro hears_steps st)
  show ?thesis
    unfolding GetRecommendations_def recommend_ports_simps
    by (rule hears_seq, rule steps_redis, rule hears_seq, rule steps_ttl_calls, rule hears_seq, intro st,
        rule hears_seq, rule steps_redis, rule tail, (intro st)+)
qed

subsection \<open>Every response\<close>

lemma exchanges_good:
  assumes "\<And>xs. mset (iter xs) = mset xs" and "sys_start w" and "pool_reach iter (pool_of w) p"
    and "(i, c, a, tm) \<in> set (history p)"
  shows "good_exchange (c, a)"
  using assms(3,4) unfolding pool_reach_def
proof (induction rule: rtranclp_induct)
  case base
  then show ?case by (simp add: pool_of_def)
next
  case (step y z)
  from step(2) show ?case
  proof cases
    case (served j t c' a' w')
    have "sys_inv (shared y)"
      using pool_inv_reach [OF assms(1) pool_inv_start [OF assms(2)]] step(1) by (simp add: pool_reach_def pool_inv_def)
    then have cache: "cache_inv (kv (shared y))" by (simp add: sys_inv_def)
    have "good_exchange (c', a')"
    proof (cases c')
      case (CGet k)
      then obtain r where a': "a' = AText r" and get: "r_Get ref_redis k (shared y) = (r, w')"
        using served(4) by (auto simp: map_prod_def split: prod.splits)
      have "good_feed ids" if k: "k = FeedKey u" "r = Inr (Some raw)" "JsonToIds ref_json raw = Some ids" for u raw ids
      proof -
        obtain d where "kv (shared y) (FeedKey u) = Some (raw, d)"
          using ref_redis.get_law [OF get] k(1,2) by (auto simp: visible_def split: option.splits if_splits)
        then have "feeds_of ref_json (kv (shared y)) u = Some ids" using k(3) by (simp add: feeds_of_def)
        with cache show ?thesis by (auto simp: cache_inv_def)
      qed
      with a' CGet show ?thesis by (cases r; cases "projr r") auto
    qed simp_all
    with served(1) step show ?thesis by auto
  qed (use step in auto)
qed

lemma recommendation_good:
  assumes "\<And>xs. mset (iter xs) = mset xs" and "sys_start w" and "pool_reach iter (pool_of w) p"
    and "threads p i = Some t" and "th_task t = Recommend req" and "GetArg req ''user_id'' \<noteq> []"
    and "result iter t = Some (Inr (Responded resp))"
  shows "\<exists>ids. resp = reply kOk (ToString ref_json (items_doc ids)) \<and> length ids \<le> kFeedListSize \<and> distinct ids"
proof -
  let ?t = "\<lparr>sys_clk = th_sys_clk t, steady_clk = th_steady_clk t, answers = th_answers t, asked = None, dialogue = []\<rparr>"
  let ?get = "GetRecommendations iter (recommend_on thread_servers) (GetArg req ''user_id'')"
  have res: "resume iter t = bindE (bindE ?get (\<lambda>items. ret (reply kOk (ToString ref_json (items_doc items)))))
      (\<lambda>r. ret (Responded r)) ?t"
    using assms(5,6) by (simp add: resume_def RecommendHandler_HandleRequestThrow_def Let_def)
  obtain r t' where get: "?get ?t = (r, t')" by fastforce
  obtain ids where ids: "r = Inr ids" "resp = reply kOk (ToString ref_json (items_doc ids))"
    using assms(7) res get by (cases r) (auto simp: result_def waiting_def split: option.splits)
  then have "exchanges_of iter t = dialogue t'" using res get by (simp add: exchanges_of_def)
  then have "good_exchange e" if "e \<in> set (dialogue t')" for e
    using exchanges_history [OF assms(3,4), of "fst e" "snd e"] exchanges_good [OF assms(1-3)] that by fastforce
  from hearsD(2) [OF hears_GetRecommendations [OF assms(1)] get this ids(1)] ids(2) show ?thesis by blast
qed

end
