(* ===== verification/Responses.thy ===== *)
theory Responses
  imports Answers
begin

text \<open>
  Every response of the server while requests and deliveries run at the same time: the catalogue is read only,
  so \<^verbatim>\<open>GET /product\<close> answers the row it has, whatever else runs, and the other two handlers keep
  their contract on whatever the servers answer.
\<close>

subsection \<open>The catalogue\<close>

definition catalogue :: "product list \<Rightarrow> system_world \<Rightarrow> bool" where
  "catalogue ps w \<longleftrightarrow> products (pg_master w) = ps \<and> products (pg_replica w) = ps"

lemma insert_payload_products: "products (snd (insert_payload q now db)) = products db"
  by (simp add: insert_payload_def kInsertUserAction_def)

lemma catalogue_serve:
  assumes "allowed t c" and "catalogue ps w" and "serve c w = (a, w')"
  shows "catalogue ps w'"
proof (cases c)
  case (CInsert ts st)
  then obtain q where "st = insert_payload q" using assms(1) by (cases t) auto
  with CInsert assms(3) have ins: "w' = snd (ref_insert ts (insert_payload q) w)"
    by (auto simp: ref_pg_def map_prod_def split: prod.splits)
  obtain k db where q: "insert_payload q (pg_clock w (pg_count w)) (pg_master w) = (k, db)" by fastforce
  then have "products db = products (pg_master w)" using insert_payload_products by (metis snd_conv)
  with assms(2) q show ?thesis
    by (cases "pg_refuses w ts"; cases "pg_faults w (pg_count w)") (simp_all add: ins catalogue_def ref_insert_def)
next
  case (CSelect ts q)
  with assms(2,3) show ?thesis
    by (auto simp: catalogue_def ref_pg_def ref_select_def Let_def map_prod_def split: prod.splits fault.splits)
qed (use assms(2,3) in \<open>auto simp: catalogue_def ref_redis_def ref_rabbit_def command_def broker_call_def Let_def map_prod_def
    split: prod.splits fault.splits sum.splits\<close>)

text \<open>What a query was ever answered was computed on tables with this catalogue.\<close>

definition rows_from :: "product list \<Rightarrow> call \<times> answer \<Rightarrow> bool" where
  "rows_from ps e \<longleftrightarrow> (\<forall>ts q rows. e = (CSelect ts q, ARows (Inr rows)) \<longrightarrow> (\<exists>now db. products db = ps \<and> q scan_plan now db = Inr rows))"

lemma served_rows:
  assumes "catalogue ps w" and "serve c w = (a, w')"
  shows "rows_from ps (c, a)"
proof (unfold rows_from_def, intro allI impI)
  fix ts q rows assume "(c, a) = (CSelect ts q, ARows (Inr rows))"
  with assms(2) have "ref_select ts q w = (Inr rows, w')" by (auto simp: ref_pg_def map_prod_def split: prod.splits)
  with assms(1) show "\<exists>now db. products db = ps \<and> q scan_plan now db = Inr rows"
    by (auto simp: catalogue_def ref_select_def Let_def split: fault.splits if_splits)
qed

lemma catalogue_pool:
  assumes "\<And>xs. mset (iter xs) = mset xs" and "catalogue ps w" and "pool_reach iter (pool_of w) p"
  shows "catalogue ps (shared p) \<and> (\<forall>(i, c, a, tm) \<in> set (history p). rows_from ps (c, a))"
  using assms(3) unfolding pool_reach_def
proof (induction rule: rtranclp_induct)
  case base
  then show ?case using assms(2) by (simp add: pool_of_def)
next
  case (step y z)
  from step(2) show ?case
  proof cases
    case (served i t c a w')
    have "catalogue ps (shared y)" using step.IH by blast
    from catalogue_serve [OF waiting_allowed(1) [OF assms(1) served(3)] this served(4)] served_rows [OF this served(4)]
    show ?thesis using step.IH served(1) by simp
  next
    case (ack i t m x)
    then show ?thesis using step.IH by (simp add: catalogue_def take_message_def)
  next
    case (clock c d)
    then show ?thesis using step.IH by (simp add: catalogue_def)
  qed (use step.IH in simp)
qed

subsection \<open>GET /product\<close>

definition product_response :: "product list \<Rightarrow> http_request \<Rightarrow> http_response" where
  "product_response ps req =
     (if GetArg req ''id'' = [] then reply kBadRequest (JsonError ref_json ''missing_query_id'')
      else case stoll (GetArg req ''id'') of
        Inl _ \<Rightarrow> reply kBadRequest (JsonError ref_json ''invalid_id'')
      | Inr i \<Rightarrow>
          (case find (\<lambda>p. pr_id p = i) ps of
             None \<Rightarrow> reply kNotFound (JsonError ref_json ''not_found'')
           | Some p \<Rightarrow> reply kOk (ToString ref_json (product_doc \<lparr>row_id = i, row_sku = pr_sku p, row_title = pr_title p\<rparr>))))"

text \<open>The handler asks at most one query, and what it makes of the rows is the response.\<close>

definition product_rows :: "int64 \<Rightarrow> product list \<Rightarrow> sql_row list" where
  "product_rows i ps = map (\<lambda>p. [(''id'', SqlBigint (pr_id p)), (''sku'', SqlText (pr_sku p)), (''title'', SqlText (pr_title p))])
     (filter (\<lambda>p. pr_id p = i) ps)"

lemma product_program:
  assumes "GetArg req ''id'' \<noteq> []" and "stoll (GetArg req ''id'') = Inr i"
  obtains K where "ProductHandler_HandleRequestThrow ref_json (product_on thread_servers) req =
      bindE (ask (CSelect [] (kSelectProduct i)) rows_of) K"
    and "\<And>ps. K (product_rows i ps) = ret (product_response ps req)" and "\<And>rows. steps (K rows)"
proof
  let ?K = "\<lambda>res. bindE (bindE (case res of [] \<Rightarrow> ret None | row # _ \<Rightarrow>
         bindE (pure_prog (As_bigint (map_of row ''id''))) (\<lambda>i.
         bindE (pure_prog (As_text (map_of row ''sku''))) (\<lambda>sku.
         bindE (pure_prog (As_text (map_of row ''title''))) (\<lambda>title.
         ret (Some \<lparr>row_id = i, row_sku = sku, row_title = title\<rparr>)))))
       (\<lambda>row. case row of None \<Rightarrow> ret None | Some row \<Rightarrow> ret (Some (product_doc row))))
     (\<lambda>doc. case doc of None \<Rightarrow> ret (reply kNotFound (JsonError ref_json ''not_found''))
       | Some doc \<Rightarrow> ret (reply kOk (ToString ref_json doc))) :: (http_response, thread_world) prog"
  show "ProductHandler_HandleRequestThrow ref_json (product_on thread_servers) req =
      bindE (ask (CSelect [] (kSelectProduct i)) rows_of) ?K"
    using assms by (simp add: ProductHandler_HandleRequestThrow_def GetProductJson_def product_on_def pg_catalog_port_def
        pg_GetById_def thread_clients bindE_assoc del: ret_run)
  show "?K (product_rows i ps) = ret (product_response ps req)" for ps
  proof (cases "filter (\<lambda>p. pr_id p = i) ps")
    case Nil
    with assms show ?thesis by (simp add: fun_eq_iff bindE_def product_rows_def product_response_def find_filter)
  next
    case (Cons p qs)
    then have "pr_id p = i" by (auto simp: filter_eq_Cons_iff)
    with Cons assms show ?thesis
      by (simp add: fun_eq_iff bindE_def product_rows_def product_response_def find_filter As_bigint_def As_text_def pure_prog_def)
  qed
  show "steps (?K rows)" for rows by (intro steps_rules)
qed

lemma kSelectProduct_rows: "kSelectProduct i plan now db = Inr (product_rows i (products db))"
  by (simp add: kSelectProduct_def product_rows_def)

lemma product_bad_request:
  assumes "\<not> (GetArg req ''id'' \<noteq> [] \<and> (\<exists>i. stoll (GetArg req ''id'') = Inr i))"
  shows "ProductHandler_HandleRequestThrow ref_json S req = ret (product_response ps req)"
  using assms by (auto simp: fun_eq_iff ProductHandler_HandleRequestThrow_def product_response_def split: sum.splits)

lemma hears_product:
  "hears (rows_from ps) (ProductHandler_HandleRequestThrow ref_json (product_on thread_servers) req) (\<lambda>r. r = product_response ps req)"
proof (cases "GetArg req ''id'' \<noteq> [] \<and> (\<exists>i. stoll (GetArg req ''id'') = Inr i)")
  case False
  show ?thesis unfolding product_bad_request [OF False, where ps = ps] by (simp only: hears_ret)
next
  case True
  then obtain i where arg: "GetArg req ''id'' \<noteq> []" "stoll (GetArg req ''id'') = Inr i" by blast
  obtain K where K: "ProductHandler_HandleRequestThrow ref_json (product_on thread_servers) req =
      bindE (ask (CSelect [] (kSelectProduct i)) rows_of) K" "\<And>ps. K (product_rows i ps) = ret (product_response ps req)"
    "\<And>rows. steps (K rows)" by (rule product_program [OF arg]) blast
  have "hears (rows_from ps) (ask (CSelect [] (kSelectProduct i)) rows_of) (\<lambda>rows. rows = product_rows i ps)"
  proof (rule hears_ask)
    fix a rows assume "rows_from ps (CSelect [] (kSelectProduct i), a)" "rows_of a = Inr rows"
    then show "rows = product_rows i ps"
      unfolding rows_from_def by (cases a) (auto simp: no_answer_def kSelectProduct_rows)
  qed
  then show ?thesis
    unfolding K(1) by (rule hears_bindE) (simp_all only: K(2) hears_ret hears_steps K(3))
qed

text \<open>What a thread responds, if its program responds so on what the history can hold.\<close>

lemma response_heard:
  assumes "pool_reach iter (pool_of w) p" and "threads p i = Some t" and "\<forall>(i, c, a, tm) \<in> set (history p). R (c, a)"
    and "task_prog iter thread_servers (th_task t) = bindE m (\<lambda>r. ret (Responded r))" and "hears R m Q"
    and "result iter t = Some (Inr (Responded resp))"
  shows "Q resp"
proof -
  let ?t = "\<lparr>sys_clk = th_sys_clk t, steady_clk = th_steady_clk t, answers = th_answers t, asked = None, dialogue = []\<rparr>"
  obtain r t' where m: "m ?t = (r, t')" by fastforce
  have res: "resume iter t = bindE m (\<lambda>r. ret (Responded r)) ?t" using assms(4) by (simp add: resume_def)
  then have r: "r = Inr resp" using m assms(6) by (cases r) (auto simp: result_def waiting_def split: option.splits)
  then have "exchanges_of iter t = dialogue t'" using res m by (simp add: exchanges_of_def)
  then have "R e" if "e \<in> set (dialogue t')" for e
    using exchanges_history [OF assms(1,2), of "fst e" "snd e"] assms(3) that by fastforce
  from hearsD(2) [OF assms(5) m this r] show ?thesis .
qed

lemma product_answered:
  assumes "\<And>xs. mset (iter xs) = mset xs" and "catalogue ps w" and "pool_reach iter (pool_of w) p"
    and "threads p i = Some t" and "th_task t = Product req" and "result iter t = Some (Inr (Responded resp))"
  shows "resp = product_response ps req"
proof -
  have "task_prog iter thread_servers (th_task t) =
      bindE (ProductHandler_HandleRequestThrow ref_json (product_on thread_servers) req) (\<lambda>r. ret (Responded r))"
    by (simp add: assms(5))
  from response_heard [OF assms(3,4) catalogue_pool [OF assms(1-3), THEN conjunct2] this hears_product assms(6)]
  show ?thesis .
qed

lemma action_answered:
  assumes "th_task t = Post req" and "result iter t = Some (Inr (Responded resp))"
  shows "rsp_status resp \<in> {kAccepted, kBadRequest}"
proof -
  let ?t = "\<lparr>sys_clk = th_sys_clk t, steady_clk = th_steady_clk t, answers = th_answers t, asked = None, dialogue = []\<rparr>"
  obtain r t' where run: "ActionHandler_HandleRequestThrow ref_json (action_on thread_servers) req ?t = (r, t')" by fastforce
  from ActionHandler_status [OF run] obtain rsp where "r = Inr rsp" "rsp_status rsp \<in> {kAccepted, kBadRequest}" by blast
  with run assms show ?thesis
    by (auto simp: result_def waiting_def resume_def bindE_def split: option.splits)
qed

text \<open>A delivery responds nothing.\<close>

lemma delivery_answers_nobody:
  assumes "th_task t = Deliver m"
  shows "result iter t \<noteq> Some (Inr (Responded resp))"
  using assms by (auto simp: result_def waiting_def resume_def bindE_def split: option.splits sum.splits prod.splits)

end
