(* ===== verification/Fairness.thy ===== *)
theory Fairness
  imports Delivery
begin

text \<open>
  Runs that never end. A run is fair when the servers answer and the broker delivers: a thread
  that waits is served at some time, and a message that stays in the queue is handed to
  a thread again. Every fair run brings every request and delivery to its end, and once
  the servers have stopped failing it stores every event that was accepted and whose texts the database takes. A finite
  run that comes to rest with an empty queue continues to a fair one.
\<close>

subsection \<open>Fair runs\<close>

definition pool_run :: "(item list \<Rightarrow> item list) \<Rightarrow> (nat \<Rightarrow> pool) \<Rightarrow> bool" where
  "pool_run iter \<sigma> \<longleftrightarrow> (\<forall>n. \<sigma> (Suc n) = \<sigma> n \<or> pool_step iter (\<sigma> n) (\<sigma> (Suc n)))"

definition serves_all :: "(item list \<Rightarrow> item list) \<Rightarrow> (nat \<Rightarrow> pool) \<Rightarrow> bool" where
  "serves_all iter \<sigma> \<longleftrightarrow> (\<forall>n i t. threads (\<sigma> n) i = Some t \<and> result iter t = None \<longrightarrow>
     (\<exists>m \<ge> n. \<exists>t'. threads (\<sigma> m) i = Some t' \<and> length (th_answers t) < length (th_answers t')))"

definition delivers_all :: "(nat \<Rightarrow> pool) \<Rightarrow> bool" where
  "delivers_all \<sigma> \<longleftrightarrow> (\<forall>n m. m \<in> set (worker_queue (shared (\<sigma> n))) \<longrightarrow>
     (\<exists>k \<ge> n. m \<notin> set (worker_queue (shared (\<sigma> k))) \<or>
        (\<exists>i t. threads (\<sigma> n) i = None \<and> threads (\<sigma> k) i = Some t \<and> th_task t = Deliver m)))"

definition fair_run :: "(item list \<Rightarrow> item list) \<Rightarrow> (nat \<Rightarrow> pool) \<Rightarrow> bool" where
  "fair_run iter \<sigma> \<longleftrightarrow> pool_run iter \<sigma> \<and> serves_all iter \<sigma> \<and> delivers_all \<sigma>"

lemma pool_run_reach:
  assumes "pool_run iter \<sigma>" and "n \<le> m"
  shows "pool_reach iter (\<sigma> n) (\<sigma> m)"
  using assms(2)
proof (induction rule: dec_induct)
  case (step k)
  with assms(1) show ?case unfolding pool_run_def pool_reach_def by (metis rtranclp.rtrancl_into_rtrancl)
qed (simp add: pool_reach_def)

text \<open>A thread keeps its task, and its answers only grow.\<close>

lemma thread_step:
  assumes "pool_step iter p p'" and "threads p i = Some t"
  shows "\<exists>as. threads p' i = Some (t\<lparr>th_answers := th_answers t @ as\<rparr>)"
  using assms
proof cases
  case (served j u c a w')
  with assms(2) show ?thesis
    by (cases "i = j") (auto simp: hear_def intro: exI [of _ "[a]"] exI [of _ "[]"])
qed (auto intro: exI [of _ "[]"])

lemma thread_reach:
  assumes "pool_reach iter p p'" and "threads p i = Some t"
  shows "\<exists>as. threads p' i = Some (t\<lparr>th_answers := th_answers t @ as\<rparr>)"
  using assms unfolding pool_reach_def
proof (induction rule: rtranclp_induct)
  case base
  then show ?case by (auto intro: exI [of _ "[]"])
next
  case (step y z)
  then obtain as where "threads y i = Some (t\<lparr>th_answers := th_answers t @ as\<rparr>)" by blast
  from thread_step [OF step(2) this] show ?case by auto
qed

text \<open>A thread that has returned is left as it is.\<close>

lemma returned_step:
  assumes "pool_step iter p p'" and "threads p i = Some t" and "result iter t \<noteq> None"
  shows "threads p' i = Some t"
  using assms by cases (auto simp: result_def)

lemma returned_reach:
  assumes "pool_reach iter p p'" and "threads p i = Some t" and "result iter t \<noteq> None"
  shows "threads p' i = Some t"
  using assms unfolding pool_reach_def by (induction rule: rtranclp_induct) (auto intro: returned_step)

subsection \<open>Requests and deliveries end\<close>

lemma fair_returns:
  assumes "\<And>xs. mset (iter xs) = mset xs" and "fair_run iter \<sigma>" and "threads (\<sigma> n) i = Some t"
  shows "\<exists>k \<ge> n. \<exists>t'. threads (\<sigma> k) i = Some t' \<and> th_task t' = th_task t \<and> result iter t' \<noteq> None"
  using assms(3)
proof (induction "command_bound (th_task t) - length (th_answers t)" arbitrary: n t rule: less_induct)
  case less
  show ?case
  proof (cases "result iter t = None")
    case True
    then obtain c where "waiting iter t = Some c" by (auto simp: result_def split: option.splits)
    from waiting_allowed(2) [OF assms(1) this] have b: "length (th_answers t) < command_bound (th_task t)" .
    from True less.prems assms(2) obtain m t1 where m: "n \<le> m" "threads (\<sigma> m) i = Some t1"
      "length (th_answers t) < length (th_answers t1)" unfolding fair_run_def serves_all_def by blast
    have "th_task t1 = th_task t"
      using thread_reach [OF pool_run_reach [of iter \<sigma> n m] less.prems] assms(2) m(1,2) by (auto simp: fair_run_def)
    with less.hyps [of t1 m] m b show ?thesis by (metis diff_less_mono2 order_trans)
  qed (use less.prems in blast)
qed

subsection \<open>Accepted events are stored\<close>

text \<open>
  A delivery that has had an answer since the servers stopped failing has stored its row: its first command
  inserts it.
\<close>

lemma unfailing_insert:
  assumes "no_more_faults w" and "serve (CInsert ts st) w = (a, w')" and "\<not> pg_refuses w ts"
  shows "\<exists>n. a = ACount (Inr n)"
  using assms by (auto simp: no_more_faults_def ref_pg_def ref_insert_def Let_def map_prod_def split: prod.splits)

lemma delivery_stores:
  assumes "\<And>xs. mset (iter xs) = mset xs" and step: "pool_step iter p p'" and "no_more_faults (shared p)" and "storable (shared p) q"
    and now: "threads p' i = Some t'" "th_task t' = Deliver (ToString ref_json (action_doc q))" "th_answers t' \<noteq> []"
    and before: "\<And>t. threads p i = Some t \<Longrightarrow> th_answers t \<noteq> [] \<Longrightarrow> has_row q (pg_master (shared p))"
  shows "has_row q (pg_master (shared p'))"
  using step
proof cases
  case (served j t c a w')
  show ?thesis
  proof (cases "i = j \<and> th_answers t = []")
    case True
    with served(1) now(1) have "t' = hear a t" by simp
    with now(2) have "th_task t = Deliver (ToString ref_json (action_doc q))" by simp
    note asks = delivery_asks [OF this message_fields_action_doc [OF ref_json_codec_ok], of iter]
    have "t\<lparr>th_answers := []\<rparr> = t" using True by (cases t) simp
    with asks served(3) have c: "c = CInsert (payload_texts q) (insert_payload q)" by simp
    then obtain n where "a = ACount (Inr n)" using unfailing_insert [OF assms(3)] served(4) assms(4) unfolding storable_def by blast
    with served_insert [of q "shared p" n w'] served(1,4) c show ?thesis by simp
  next
    case False
    with served(1,2) now before have "has_row q (pg_master (shared p))" by (auto split: if_splits)
    then show ?thesis by (rule has_row_pool [OF assms(1) step])
  qed
next
  case (start j t c d)
  with now before have "has_row q (pg_master (shared p))" by (auto split: if_splits)
  then show ?thesis by (rule has_row_pool [OF assms(1) step])
qed (use now before has_row_pool [OF assms(1) step] in simp_all)

lemma fair_delivery_stores:
  assumes "\<And>xs. mset (iter xs) = mset xs" and "pool_run iter \<sigma>" and "no_more_faults (shared (\<sigma> n))" and "storable (shared (\<sigma> n)) q"
    and "threads (\<sigma> n) i = None" and "n \<le> k" and "threads (\<sigma> k) i = Some t"
    and "th_task t = Deliver (ToString ref_json (action_doc q))" and "th_answers t \<noteq> []"
  shows "has_row q (pg_master (shared (\<sigma> k)))"
  using assms(6-9)
proof (induction k arbitrary: t rule: dec_induct)
  case base
  with assms(5) show ?case by simp
next
  case (step m)
  have th: "th_task u = Deliver (ToString ref_json (action_doc q))"
    if "threads (\<sigma> m) i = Some u" for u
    using thread_reach [OF pool_run_reach [OF assms(2)] that, of "Suc m"] step.prems by auto
  have faults: "no_more_faults (shared (\<sigma> m))"
    using no_more_faults_reach [OF pool_run_reach [OF assms(2) step.hyps(1)] assms(3)] .
  have "storable (shared (\<sigma> m)) q"
    using storable_reach [OF pool_run_reach [OF assms(2) step.hyps(1)]] assms(4) by simp
  note faults = faults this
  show ?case
  proof (cases "\<sigma> (Suc m) = \<sigma> m")
    case True
    with step show ?thesis by auto
  next
    case False
    with assms(2) have "pool_step iter (\<sigma> m) (\<sigma> (Suc m))" unfolding pool_run_def by blast
    from delivery_stores [OF assms(1) this faults step.prems] step.IH th show ?thesis by blast
  qed
qed

lemma has_row_run:
  assumes "\<And>xs. mset (iter xs) = mset xs" and "pool_run iter \<sigma>" and "n \<le> m" and "has_row q (pg_master (shared (\<sigma> n)))"
  shows "has_row q (pg_master (shared (\<sigma> m)))"
  using pool_grows [OF assms(1) pool_run_reach [OF assms(2,3)]] assms(4) has_row_grows by blast

lemma fair_stores:
  assumes "\<And>xs. mset (iter xs) = mset xs" and "sys_start w" and "\<sigma> 0 = pool_of w" and "fair_run iter \<sigma>"
    and "no_more_faults (shared (\<sigma> n))" and "threads (\<sigma> n) i = Some t" and "accepted_post iter t q"
    and "storable (shared (\<sigma> n)) q"
  shows "\<exists>k \<ge> n. \<forall>m \<ge> k. has_row q (pg_master (shared (\<sigma> m)))"
proof -
  let ?msg = "ToString ref_json (action_doc q)"
  have run: "pool_run iter \<sigma>" using assms(4) by (simp add: fair_run_def)
  have reach: "pool_reach iter (pool_of w) (\<sigma> k)" for k using pool_run_reach [OF run, of 0 k] assms(3) by simp
  obtain tm where tm: "(i, publish_call q, AUnit (Inr ()), tm) \<in> set (history (\<sigma> n))"
    using accepted_served(2) [OF reach assms(6,7)] by blast
  have safe: "safe_message (shared (\<sigma> k)) q" if "n \<le> k" for k
    using published_safe [OF assms(1,2) reach] history_grows [OF pool_run_reach [OF run that]] tm by blast
  have "\<exists>k \<ge> n. has_row q (pg_master (shared (\<sigma> k)))"
  proof (cases "?msg \<in> set (worker_queue (shared (\<sigma> n)))")
    case False
    with safe [of n] show ?thesis by (auto simp: safe_message_def)
  next
    case True
    with assms(4) obtain k where "n \<le> k" and k: "?msg \<notin> set (worker_queue (shared (\<sigma> k))) \<or>
        (\<exists>j u. threads (\<sigma> n) j = None \<and> threads (\<sigma> k) j = Some u \<and> th_task u = Deliver ?msg)"
      unfolding fair_run_def delivers_all_def by blast
    from k show ?thesis
    proof
      assume "?msg \<notin> set (worker_queue (shared (\<sigma> k)))"
      with safe [OF \<open>n \<le> k\<close>] \<open>n \<le> k\<close> show ?thesis by (auto simp: safe_message_def)
    next
      assume "\<exists>j u. threads (\<sigma> n) j = None \<and> threads (\<sigma> k) j = Some u \<and> th_task u = Deliver ?msg"
      then obtain j u where u: "threads (\<sigma> n) j = None" "threads (\<sigma> k) j = Some u" "th_task u = Deliver ?msg" by blast
      from fair_returns [OF assms(1,4) u(2)] obtain l v where
        v: "k \<le> l" "threads (\<sigma> l) j = Some v" "th_task v = Deliver ?msg" "result iter v \<noteq> None" using u(3) by auto
      have "th_answers v \<noteq> []"
      proof
        assume "th_answers v = []"
        then have "v\<lparr>th_answers := []\<rparr> = v" by simp
        with delivery_asks [OF v(3) message_fields_action_doc [OF ref_json_codec_ok], of iter] v(4)
        show False by (simp add: result_def)
      qed
      from fair_delivery_stores [OF assms(1) run assms(5,8) u(1) _ v(2,3) this] v(1) \<open>n \<le> k\<close>
      show ?thesis by (meson order_trans)
    qed
  qed
  with has_row_run [OF assms(1) run] show ?thesis by blast
qed

subsection \<open>Every finite run is part of a fair one\<close>

lemma reach_run:
  assumes "pool_reach iter p p'"
  shows "\<exists>\<sigma> N. \<sigma> 0 = p \<and> pool_run iter \<sigma> \<and> (\<forall>n \<ge> N. \<sigma> n = p')"
  using assms unfolding pool_reach_def
proof (induction rule: converse_rtranclp_induct)
  case base
  show ?case by (intro exI [of _ "\<lambda>_. p'"]) (simp add: pool_run_def)
next
  case (step y z)
  then obtain \<sigma> N where s: "\<sigma> 0 = z" "pool_run iter \<sigma>" "\<forall>n \<ge> N. \<sigma> n = p'" by blast
  have "pool_run iter (case_nat y \<sigma>)"
    unfolding pool_run_def
  proof
    fix n
    show "case_nat y \<sigma> (Suc n) = case_nat y \<sigma> n \<or> pool_step iter (case_nat y \<sigma> n) (case_nat y \<sigma> (Suc n))"
      using s(1,2) step.hyps(1) by (cases n) (auto simp: pool_run_def)
  qed
  with s(3) show ?case
    by (intro exI [of _ "case_nat y \<sigma>"] exI [of _ "Suc N"]) (auto split: nat.split)
qed

lemma settled_run_fair:
  assumes "pool_run iter \<sigma>" and "\<forall>n \<ge> N. \<sigma> n = p" and "settled iter p" and "worker_queue (shared p) = []"
  shows "fair_run iter \<sigma>"
proof -
  have late: "\<sigma> (max N n) = p" for n using assms(2) by simp
  have "serves_all iter \<sigma>"
    unfolding serves_all_def
  proof (intro allI impI)
    fix n i t assume t: "threads (\<sigma> n) i = Some t \<and> result iter t = None"
    from thread_reach [OF pool_run_reach [OF assms(1), of n "max N n"]] t obtain as where
      as: "threads p i = Some (t\<lparr>th_answers := th_answers t @ as\<rparr>)" by (auto simp: late)
    with assms(3) t have "as \<noteq> []" by (auto simp: settled_def ran_def)
    with as show "\<exists>m \<ge> n. \<exists>t'. threads (\<sigma> m) i = Some t' \<and> length (th_answers t) < length (th_answers t')"
      by (intro exI [of _ "max N n"]) (simp add: late)
  qed
  moreover have "delivers_all \<sigma>"
    unfolding delivers_all_def
  proof (intro allI impI)
    fix n m
    show "\<exists>k \<ge> n. m \<notin> set (worker_queue (shared (\<sigma> k))) \<or>
        (\<exists>i t. threads (\<sigma> n) i = None \<and> threads (\<sigma> k) i = Some t \<and> th_task t = Deliver m)"
      using assms(4) by (intro exI [of _ "max N n"]) (simp add: late)
  qed
  ultimately show ?thesis using assms(1) by (simp add: fair_run_def)
qed

end
