(* ===== verification/Totality.thy ===== *)
theory Totality
  imports System
begin

text \<open>
  When a request for recommendations is answered. It throws when a server fails, when the database refuses
  the user id as a text, and, as \<open>poisoned_recommendations\<close> shows, when a stored action has a numeric
  product id that is no number of 64 bits. Else it always returns.
\<close>

text \<open>The tables hold nothing a query fails on: every number fits, ids of products are unique.\<close>

definition castable :: "database \<Rightarrow> bool" where
  "castable db \<longleftrightarrow> (\<forall>a \<in> set (user_actions db). pg_digits (ua_product_id a) \<longrightarrow> dec_val (ua_product_id a) < 2 ^ 63) \<and>
     distinct (map pr_id (products db))"

definition healthy :: "string \<Rightarrow> system_world \<Rightarrow> bool" where
  "healthy u w \<longleftrightarrow> no_more_faults w \<and> castable (pg_master w) \<and> castable (pg_replica w) \<and> \<not> pg_refuses w [u]"

definition returns_healthy :: "string \<Rightarrow> ('a, system_world) prog \<Rightarrow> bool" where
  "returns_healthy u m \<longleftrightarrow> (\<forall>w. healthy u w \<longrightarrow> (\<exists>x w'. m w = (Inr x, w') \<and> healthy u w'))"

lemma returns_healthyD: "returns_healthy u m \<Longrightarrow> healthy u w \<Longrightarrow> \<exists>x w'. m w = (Inr x, w') \<and> healthy u w'"
  by (simp add: returns_healthy_def)

lemma healthy_bindE: "returns_healthy u m \<Longrightarrow> (\<And>x. returns_healthy u (f x)) \<Longrightarrow> returns_healthy u (bindE m f)"
  unfolding returns_healthy_def by (metis bindE_Inr)

lemma healthy_try_catch: "returns_healthy u m \<Longrightarrow> returns_healthy u (try_catch m h)"
  unfolding returns_healthy_def by (metis try_catch_Inr)

lemma healthy_branch:
  "returns_healthy u m \<Longrightarrow> returns_healthy u m' \<Longrightarrow> returns_healthy u (if b then m else m')"
  "returns_healthy u m \<Longrightarrow> (\<And>x. returns_healthy u (f x)) \<Longrightarrow> returns_healthy u (case v of None \<Rightarrow> m | Some x \<Rightarrow> f x)"
  "(\<And>e. returns_healthy u (g e)) \<Longrightarrow> (\<And>y. returns_healthy u (k y)) \<Longrightarrow> returns_healthy u (case z of Inl e \<Rightarrow> g e | Inr y \<Rightarrow> k y)"
  "returns_healthy u m \<Longrightarrow> returns_healthy u m' \<Longrightarrow> (\<And>s. returns_healthy u (j s)) \<Longrightarrow>
    returns_healthy u (case l of TtlNoKey \<Rightarrow> m | TtlNoExpiration \<Rightarrow> m' | TtlExpire s \<Rightarrow> j s)"
  by (simp_all split: option.split sum.split ttl_reply.split)

lemma healthy_command: "returns_healthy u (command f)"
  by (auto simp: returns_healthy_def healthy_def no_more_faults_def command_def Let_def split: prod.split)

lemma healthy_redis:
  "returns_healthy u (r_Get ref_redis k)" "returns_healthy u (r_Setex ref_redis k ttl v)" "returns_healthy u (r_Del ref_redis k)"
  "returns_healthy u (r_Ttl ref_redis k)" "returns_healthy u (r_Expire ref_redis k ttl)"
  by (simp_all add: ref_redis_def healthy_command)

lemma healthy_quiet: "returns_healthy u (ret x)" "returns_healthy u sys_now"
  by (auto simp: returns_healthy_def healthy_def no_more_faults_def)

text \<open>The three queries return on such tables.\<close>

lemma healthy_select:
  assumes "\<And>now db. castable db \<Longrightarrow> \<exists>ps. q scan_plan now db = Inr (pid_rows ps)"
    and "ts \<in> {[], [u]}"
  shows "returns_healthy u (bindE (pg_select_slave ref_pg ts q) PidsFromPidColumn)"
proof (unfold returns_healthy_def, intro allI impI)
  fix w assume h: "healthy u w"
  let ?rep = "if pg_sync w (pg_count w) then pg_master w else pg_replica w"
  have "castable ?rep" using h by (simp add: healthy_def)
  then obtain ps where "q scan_plan (pg_clock w (pg_count w)) ?rep = Inr (pid_rows ps)" using assms by blast
  then show "\<exists>x w'. bindE (pg_select_slave ref_pg ts q) PidsFromPidColumn w = (Inr x, w') \<and> healthy u w'"
    using h assms(2) by (auto simp: ref_pg_def ref_select_def Let_def bindE_def healthy_def no_more_faults_def)
qed

lemma castable_window:
  assumes "castable db"
  shows "\<exists>rows. cast_rows (filter (\<lambda>a. Q a \<and> in_window now days a) (user_actions db)) = Inr rows"
  using assms by (auto simp: cast_rows_eq castable_def in_window_def)

lemma castable_queries:
  assumes "castable db"
  shows "\<exists>ps. kRecentProductIds u limit days scan_plan now db = Inr (pid_rows ps)"
    and "\<exists>ps. kPopularProductIds limit days scan_plan now db = Inr (pid_rows ps)"
    and "\<exists>ps. kCatalogNeighborIds anchor limit scan_plan now db = Inr (pid_rows ps)"
proof -
  obtain rows where "cast_rows (filter (\<lambda>a. ua_user_id a = u \<and> in_window now days a) (user_actions db)) = Inr rows"
    using castable_window [OF assms, of "\<lambda>a. ua_user_id a = u"] by blast
  then show "\<exists>ps. kRecentProductIds u limit days scan_plan now db = Inr (pid_rows ps)"
    by (simp add: kRecentProductIds_def) blast
  obtain rows where "cast_rows (filter (in_window now days) (user_actions db)) = Inr rows"
    using castable_window [OF assms, of "\<lambda>a. True" now days] by auto
  then show "\<exists>ps. kPopularProductIds limit days scan_plan now db = Inr (pid_rows ps)"
    by (simp add: kPopularProductIds_def) blast
  have "length (filter (\<lambda>p. pr_id p = anchor) ps) \<le> 1" if "distinct (map pr_id ps)" for ps :: "product list"
    using that
  proof (induction ps)
    case (Cons q ps)
    have "filter (\<lambda>p. pr_id p = anchor) ps = []" if "pr_id q = anchor"
      using Cons.prems that by (force simp: filter_empty_conv image_iff)
    with Cons show ?case by simp
  qed simp
  then have "length (filter (\<lambda>p. pr_id p = anchor) (products db)) \<le> 1" using assms by (simp add: castable_def)
  then have "\<exists>c. anchor_category db anchor = Inr c"
    by (auto simp: anchor_category_def split: list.split)
  moreover have "[] = pid_rows []" by (simp add: pid_rows_def)
  ultimately show "\<exists>ps. kCatalogNeighborIds anchor limit scan_plan now db = Inr (pid_rows ps)"
    unfolding kCatalogNeighborIds_def by (auto split: option.split)
qed

lemma healthy_behavior:
  "returns_healthy u (pg_RecentProductIds \<lparr>pg_cluster = ref_pg\<rparr> u n)"
  "returns_healthy u (pg_PopularProductIds \<lparr>pg_cluster = ref_pg\<rparr> n)"
  "returns_healthy u (pg_CatalogNeighborProductIds \<lparr>pg_cluster = ref_pg\<rparr> a n)"
  unfolding pg_method_defs pg_rhythm_data.simps
  by (intro healthy_branch healthy_quiet healthy_select castable_queries; (assumption | simp))+

lemma healthy_GetRecommendations: "returns_healthy u (GetRecommendations iter stack_recommend u)"
proof -
  have pg: "pg_data0 = \<lparr>pg_cluster = ref_pg\<rparr>" by (simp add: pg_data0_def)
  show ?thesis
    unfolding GetRecommendations_def rebuild_feed_def FetchSources_def fetch_popular_def fetch_gpt_def fetch_similar_def
      ShouldInvalidateFeed_call_def ClassifyVisit_call_def stack_recommend_def redis_recommend_simps redis_cache_port_def
      redis_side_port_def redis_visit_port_def cache_port.simps side_port.simps visit_port.simps pg_behavior_port_def
      behavior_port.simps stub_gpt_port_def gpt_port.simps redis_defs redis_TryGetGptRanked_def redis_TryGetSimilar_def
      redis_TryGetPopularGlobal_def redis_MarkSeenUtc_def redis_get_ids_def redis0_def redis_rhythm_data.simps pg Let_def
      try_catch_pure
    by (intro healthy_bindE healthy_try_catch healthy_branch healthy_quiet healthy_redis healthy_behavior)
qed

end
