(* ===== verification/Liveness.thy ===== *)
theory Liveness
  imports Responses Fairness Totality
begin

text \<open>
  What a request gets once the servers have stopped failing: every answer a thread has then had is
  one without an exception, and on such answers each of the programs returns. With a fair run, which
  brings the thread to its end, every request is answered and every delivery is processed.
\<close>

subsection \<open>Fine answers\<close>

lemma returns_on_ttl_reply:
  "returns_on R m \<Longrightarrow> returns_on R m' \<Longrightarrow> (\<And>s. returns_on R (j s)) \<Longrightarrow>
    returns_on R (case u of TtlNoKey \<Rightarrow> m | TtlNoExpiration \<Rightarrow> m' | TtlExpire s \<Rightarrow> j s)"
  by (simp split: ttl_reply.split)

text \<open>
  No exception; rows are what the statement gives on tables without a number that does not fit and
  with at most one product per id.
\<close>

fun fine :: "call \<times> answer \<Rightarrow> bool" where
  "fine (CGet k, a) = (\<exists>v. a = AText (Inr v))"
| "fine (CTtl k, a) = (\<exists>v. a = ATtl (Inr v))"
| "fine (CSetIfNotExist k v ms, a) = (\<exists>b. a = ABool (Inr b))"
| "fine (CSelect ts q, a) = (\<exists>now db. castable db \<and> a = ARows (q scan_plan now db))"
| "fine (CInsert ts st, a) = (\<exists>n. a = ACount (Inr n))"
| "fine (c, a) = (a = AUnit (Inr ()))"

lemma fine_commands:
  "returns_on fine (ask (CGet k) text_of)" "returns_on fine (ask (CSetex k ttl v) unit_of)"
  "returns_on fine (ask (CDel k) unit_of)" "returns_on fine (ask (CTtl k) ttl_of)"
  "returns_on fine (ask (CExpire k ttl) unit_of)" "returns_on fine (ask (CSetIfNotExist k v ms) bool_of)"
  "returns_on fine (ask (CInsert ts st) count_of)" "returns_on fine (ask (CPublish x rk body mt) unit_of)"
  by (rule returns_on_ask; fastforce)+

text \<open>A query for product ids, and the reading of its rows.\<close>

lemma fine_pids:
  assumes "\<And>now db. castable db \<Longrightarrow> \<exists>ps. q scan_plan now db = Inr (pid_rows ps)"
  shows "returns_on fine (bindE (ask (CSelect ts q) rows_of) PidsFromPidColumn)"
proof (rule returns_on_heard)
  show "returns_on fine (ask (CSelect ts q) rows_of)"
    by (rule returns_on_ask) (use assms in fastforce)
  show "hears fine (ask (CSelect ts q) rows_of) (\<lambda>rows. \<exists>ps. rows = pid_rows ps)"
  proof (rule hears_ask)
    fix a rows assume "fine (CSelect ts q, a)" and r: "rows_of a = Inr rows"
    then obtain now db where "castable db" and a: "a = ARows (q scan_plan now db)" by auto
    from assms [OF this(1)] obtain ps where "q scan_plan now db = Inr (pid_rows ps)" by blast
    with r a show "\<exists>ps. rows = pid_rows ps" by auto
  qed
qed (auto simp: returns_on_basic steps_pids)

lemma fine_behavior:
  "returns_on fine (pg_RecentProductIds \<lparr>pg_cluster = thread_pg\<rparr> u n)"
  "returns_on fine (pg_PopularProductIds \<lparr>pg_cluster = thread_pg\<rparr> n)"
  "returns_on fine (pg_CatalogNeighborProductIds \<lparr>pg_cluster = thread_pg\<rparr> a n)"
  unfolding pg_method_defs pg_rhythm_data.simps thread_pg_def pg_client.simps
  by (intro returns_on_branch returns_on_ttl_reply returns_on_basic fine_pids castable_queries; assumption)+

lemma fine_Recommend: "returns_on fine (GetRecommendations iter (recommend_on thread_servers) u)"
proof -
  have pg: "sv_pg thread_servers = thread_pg" by (simp add: thread_servers_def)
  show ?thesis
    unfolding GetRecommendations_def rebuild_feed_def FetchSources_def fetch_popular_def fetch_gpt_def fetch_similar_def
      ShouldInvalidateFeed_call_def ClassifyVisit_call_def recommend_ports_simps redis_method_defs redis_on_simps
      thread_redis_simps redis_on_def redis_rhythm_data.simps pg Let_def
    by (intro returns_on_bindE returns_on_try_catch returns_on_branch returns_on_ttl_reply returns_on_basic
        fine_commands fine_behavior)
qed

lemma fine_HandleAction:
  assumes "valid_payload q"
  shows "returns_on fine (HandleAction ref_json (action_on thread_servers) q)"
  unfolding thread_HandleAction [OF assms] reserve_call_def
  by (intro returns_on_bindE returns_on_branch returns_on_ttl_reply returns_on_basic fine_commands)

lemma fine_Product: "returns_on fine (ProductHandler_HandleRequestThrow ref_json (product_on thread_servers) req)"
proof (cases "GetArg req ''id'' \<noteq> [] \<and> (\<exists>i. stoll (GetArg req ''id'') = Inr i)")
  case False
  show ?thesis unfolding product_bad_request [OF False, where ps = "[]"] by (rule returns_on_basic)
next
  case True
  then obtain i where arg: "GetArg req ''id'' \<noteq> []" "stoll (GetArg req ''id'') = Inr i" by blast
  obtain K where K: "ProductHandler_HandleRequestThrow ref_json (product_on thread_servers) req =
      bindE (ask (CSelect [] (kSelectProduct i)) rows_of) K" "\<And>ps. K (product_rows i ps) = ret (product_response ps req)"
    "\<And>rows. steps (K rows)" by (rule product_program [OF arg]) blast
  show ?thesis
    unfolding K(1)
  proof (rule returns_on_heard)
    show "returns_on fine (ask (CSelect [] (kSelectProduct i)) rows_of)"
      by (rule returns_on_ask) (auto simp: kSelectProduct_rows)
    show "hears fine (ask (CSelect [] (kSelectProduct i)) rows_of) (\<lambda>rows. \<exists>ps. rows = product_rows i ps)"
      by (rule hears_ask) (auto simp: kSelectProduct_rows)
    show "returns_on fine (K rows)" if "\<exists>ps. rows = product_rows i ps" for rows
      using that K(2) returns_on_basic(1) by metis
  qed (rule K(3))
qed

lemma fine_Deliver:
  assumes "message_fields ref_json m = Some p"
  shows "returns_on fine (task_prog iter thread_servers (Deliver m))"
  unfolding delivery_program [OF assms] redis_method_defs redis_on_simps thread_redis_simps
  by (intro returns_on_bindE returns_on_branch returns_on_ttl_reply returns_on_basic fine_commands)

subsection \<open>Servers that have stopped failing answer fine\<close>

definition unfailing :: "system_world \<Rightarrow> bool" where
  "unfailing w \<longleftrightarrow> no_more_faults w \<and> (\<forall>n \<ge> rb_count w. rb_faults w n = No_fault)"

lemma unfailing_serve:
  assumes "serve c w = (a, w')" and "unfailing w"
  shows "unfailing w'"
proof -
  have "rb_faults w' = rb_faults w \<and> rb_count w \<le> rb_count w'"
    using assms(1)
    by (cases c) (auto simp: ref_redis_def command_def ref_pg_def ref_select_def ref_insert_def ref_rabbit_def
        broker_call_def Let_def map_prod_def split: prod.splits fault.splits sum.splits if_splits)
  with no_more_faults_serve [OF assms(1)] assms(2) show ?thesis by (auto simp: unfailing_def)
qed

lemma unfailing_reach:
  assumes "pool_reach iter p p'" and "unfailing (shared p)"
  shows "unfailing (shared p')"
  using assms unfolding pool_reach_def
proof (induction rule: rtranclp_induct)
  case (step y z)
  from step(2) show ?case
    using step.IH [OF step.prems] unfailing_serve
    by cases (auto simp: unfailing_def no_more_faults_def take_message_def)
qed

lemma unfailing_command: "unfailing w \<Longrightarrow> command f w = (r, w') \<Longrightarrow> \<exists>x. r = Inr x"
  by (auto simp: unfailing_def no_more_faults_def command_def Let_def split: prod.splits)

lemma fine_redis:
  assumes "unfailing w" and "redis_call c" and "serve c w = (a, w')"
  shows "fine (c, a)"
  using assms(2,3)
  by (cases c) (auto simp: ref_redis_def map_prod_def split: prod.splits dest: unfailing_command [OF assms(1)])

text \<open>The database takes what a thread gives it of texts.\<close>

fun texts_taken :: "system_world \<Rightarrow> task \<Rightarrow> bool" where
  "texts_taken w (Post req) = True"
| "texts_taken w (Recommend req) = (\<not> pg_refuses w [GetArg req ''user_id''])"
| "texts_taken w (Product req) = True"
| "texts_taken w (Deliver m) = (\<not> refused_message w m)"

lemma event_fields:
  assumes "event_message m" and "message_fields ref_json m = Some p"
  shows "m = ToString ref_json (action_doc p)"
  using assms message_fields_action_doc [OF ref_json_codec_ok] by (auto simp: event_message_def)

lemma texts_taken_call:
  assumes "allowed t c" and "task_ok t" and "texts_taken w t"
  shows "c = CSelect ts q \<Longrightarrow> ts = [] \<or> \<not> pg_refuses w ts" and "c = CInsert ts st \<Longrightarrow> \<not> pg_refuses w ts"
proof -
  show "c = CSelect ts q \<Longrightarrow> ts = [] \<or> \<not> pg_refuses w ts" using assms by (cases t) auto
  assume c: "c = CInsert ts st"
  with assms(1) obtain m p where t: "t = Deliver m" and p: "message_fields ref_json m = Some p" "ts = payload_texts p"
    by (cases t) auto
  with assms(2) event_fields [OF _ p(1)] have "m = ToString ref_json (action_doc p)" by (simp add: task_ok_def)
  with assms(3) t p(2) show "\<not> pg_refuses w ts" by (simp add: refused_message_doc storable_def)
qed

lemma fine_served:
  assumes "unfailing w" and "broker_inv (rb w)" and "castable (pg_master w)" and "castable (pg_replica w)"
    and "allowed t c" and "serve c w = (a, w')" and "task_ok t" and "texts_taken w t"
  shows "fine (c, a)"
proof -
  note taken = texts_taken_call [OF assms(5,7,8)]
  show ?thesis
  proof (cases "redis_call c")
    case True
    with fine_redis [OF assms(1) _ assms(6)] show ?thesis .
  next
    case False
    then show ?thesis
    proof (cases c)
      case (CSelect ts q)
      let ?db = "if pg_sync w (pg_count w) then pg_master w else pg_replica w"
      have "a = ARows (q scan_plan (pg_clock w (pg_count w)) ?db)"
        using CSelect assms(1,6) taken(1) [OF CSelect] by (auto simp: unfailing_def no_more_faults_def ref_pg_def ref_select_def Let_def map_prod_def)
      moreover have "castable ?db" using assms(3,4) by simp
      ultimately show ?thesis unfolding CSelect fine.simps by blast
    next
      case (CInsert ts st)
      with unfailing_insert [of w ts st a w'] assms(1,6) taken(2) [OF CInsert] show ?thesis by (simp add: unfailing_def)
    next
      case (CPublish x rk body mt)
      then have x: "x = events_exchange" using assms(5) by (cases t) auto
      obtain ty where "exchanges (rb w) events_exchange = Some ty"
        using assms(2) by (auto simp: broker_inv_def topology_def)
      with CPublish x assms(1,6) show ?thesis
        by (simp add: unfailing_def ref_rabbit_def broker_call_def Let_def map_prod_def)
    qed (use assms(5) in \<open>cases t; auto\<close>)+
  qed
qed

text \<open>The replica is behind, so its rows were in the master.\<close>

definition lagging :: "system_world \<Rightarrow> bool" where
  "lagging w \<longleftrightarrow> (\<exists>k. user_actions (pg_replica w) = take k (user_actions (pg_master w)))"

lemma lagging_serve:
  assumes "allowed t c" and "lagging w" and "serve c w = (a, w')"
  shows "lagging w'"
proof -
  obtain k where k: "user_actions (pg_replica w) = take k (user_actions (pg_master w))" using assms(2) by (auto simp: lagging_def)
  obtain new where new: "user_actions (pg_master w') = user_actions (pg_master w) @ new" using table_serve [OF assms(1,3)] by blast
  have "user_actions (pg_replica w') = user_actions (pg_replica w) \<or> user_actions (pg_replica w') = user_actions (pg_master w)"
    using assms(3)
    by (cases c) (auto simp: ref_redis_def command_def ref_pg_def ref_select_def ref_insert_def ref_rabbit_def
        broker_call_def Let_def map_prod_def split: prod.splits fault.splits sum.splits if_splits)
  then have "user_actions (pg_replica w') = take k (user_actions (pg_master w)) \<or> user_actions (pg_replica w') = user_actions (pg_master w)"
    using k by simp
  then obtain k' where "user_actions (pg_replica w') = take k' (user_actions (pg_master w))" "k' \<le> length (user_actions (pg_master w))"
    by (metis min.cobounded2 nle_le take_all_iff take_take)
  with new show ?thesis unfolding lagging_def by (intro exI [of _ k']) simp
qed

lemma lagging_pool:
  assumes "\<And>xs. mset (iter xs) = mset xs" and "lagging w" and "pool_reach iter (pool_of w) p"
  shows "lagging (shared p)"
  using assms(3) unfolding pool_reach_def
proof (induction rule: rtranclp_induct)
  case base
  then show ?case using assms(2) by (simp add: pool_of_def)
next
  case (step y z)
  from step(2) show ?case
  proof cases
    case (served i t c a w')
    with lagging_serve [OF waiting_allowed(1) [OF assms(1) served(3)] step.IH served(4)] show ?thesis by simp
  qed (use step.IH in \<open>simp_all add: lagging_def take_message_def\<close>)
qed

definition ids_fit :: "database \<Rightarrow> bool" where
  "ids_fit db \<longleftrightarrow> (\<forall>a \<in> set (user_actions db). pg_digits (ua_product_id a) \<longrightarrow> dec_val (ua_product_id a) < 2 ^ 63)"

lemma castable_tables:
  assumes "catalogue ps w" and "distinct (map pr_id ps)" and "lagging w" and "ids_fit (pg_master w)"
  shows "castable (pg_master w)" "castable (pg_replica w)"
proof -
  have "set (user_actions (pg_replica w)) \<subseteq> set (user_actions (pg_master w))"
    using assms(3) set_take_subset by (fastforce simp: lagging_def)
  with assms(1,2,4) show "castable (pg_master w)" "castable (pg_replica w)"
    by (simp_all add: castable_def catalogue_def ids_fit_def) blast
qed

subsection \<open>Threads that start after that\<close>

lemma fine_history:
  assumes "\<And>xs. mset (iter xs) = mset xs" and "sys_start w" and "catalogue ps w" and "distinct (map pr_id ps)" and "lagging w"
    and "\<sigma> 0 = pool_of w" and run: "pool_run iter \<sigma>" and "\<And>k. ids_fit (pg_master (shared (\<sigma> k)))"
    and "unfailing (shared (\<sigma> n))" and "threads (\<sigma> n) i = None"
    and taken: "\<And>k t. threads (\<sigma> k) i = Some t \<Longrightarrow> texts_taken w (th_task t)" and "n \<le> k"
    and "(i, c, a, tm) \<in> set (history (\<sigma> k))"
  shows "fine (c, a)"
  using assms(12,13)
proof (induction k rule: dec_induct)
  case base
  have "pool_reach iter (pool_of w) (\<sigma> n)" using pool_run_reach [OF run, of 0 n] assms(6) by simp
  from told_reach [OF this, of i] assms(10) have "answers_of i (history (\<sigma> n)) = []" by (simp add: told_def)
  with base show ?case by (auto simp: answers_of_def filter_empty_conv)
next
  case (step k)
  have reach: "pool_reach iter (pool_of w) (\<sigma> k)" using pool_run_reach [OF run, of 0 k] assms(6) by simp
  show ?case
  proof (cases "(i, c, a, tm) \<in> set (history (\<sigma> k))")
    case False
    with step.prems have "\<sigma> (Suc k) \<noteq> \<sigma> k" by auto
    with run have "pool_step iter (\<sigma> k) (\<sigma> (Suc k))" unfolding pool_run_def by blast
    then show ?thesis
    proof cases
      case (served j t c' a' w')
      with False step.prems have e: "c = c'" "a = a'" "j = i" by auto
      have "pg_refuses (shared (\<sigma> k)) = pg_refuses w" using refuses_reach [OF reach] by (simp add: pool_of_def)
      then have "texts_taken (shared (\<sigma> k)) = texts_taken w"
        by (intro ext) (case_tac x; simp add: refused_message_def storable_def)
      with taken [of k t] served(2) e(3) have "texts_taken (shared (\<sigma> k)) (th_task t)" by simp
      moreover have "task_ok (th_task t)"
        using pool_inv_reach [OF assms(1) pool_inv_start [OF assms(2)] reach] served(2) by (auto simp: pool_inv_def ran_def)
      moreover have "unfailing (shared (\<sigma> k))" by (rule unfailing_reach [OF pool_run_reach [OF run step.hyps(1)] assms(9)])
      moreover have "broker_inv (rb (shared (\<sigma> k)))"
        using pool_inv_reach [OF assms(1) pool_inv_start [OF assms(2)] reach] by (simp add: pool_inv_def sys_inv_def)
      moreover note castable_tables [OF catalogue_pool [OF assms(1,3) reach, THEN conjunct1] assms(4) lagging_pool [OF assms(1,5) reach] assms(8)]
      ultimately show ?thesis unfolding e(1,2) using fine_served waiting_allowed(1) [OF assms(1) served(3)] served(4) by blast
    qed (use False step.prems in simp_all)
  qed (use step.IH in blast)
qed

text \<open>What a program that returns on fine answers has returned in the end.\<close>

lemma fine_result:
  assumes "pool_reach iter (pool_of w) p" and "threads p i = Some t" and "\<And>c a tm. (i, c, a, tm) \<in> set (history p) \<Longrightarrow> fine (c, a)"
    and "result iter t = Some r" and "returns_on fine (task_prog iter thread_servers (th_task t))"
  shows "\<exists>x. r = Inr x"
proof -
  let ?t = "\<lparr>sys_clk = th_sys_clk t, steady_clk = th_steady_clk t, answers = th_answers t, asked = None, dialogue = []\<rparr>"
  obtain t' where run: "task_prog iter thread_servers (th_task t) ?t = (r, t')" and "asked t' = None"
    using assms(4) by (cases "task_prog iter thread_servers (th_task t) ?t")
      (auto simp: result_def waiting_def resume_def split: option.splits)
  moreover have "fine e" if "e \<in> set (dialogue t')" for e
    using exchanges_history [OF assms(1,2), of "fst e" "snd e"] assms(3) that run
    by (fastforce simp: exchanges_of_def resume_def)
  ultimately show ?thesis using assms(5) unfolding returns_on_def by blast
qed

text \<open>A valid event is accepted or a duplicate.\<close>

lemma fine_post:
  assumes "pool_reach iter (pool_of w) p" and "threads p i = Some t" and "\<And>c a tm. (i, c, a, tm) \<in> set (history p) \<Longrightarrow> fine (c, a)"
    and "result iter t = Some r" and "th_task t = Post req" and "request_payload ref_json req = Some q" and "valid_payload q"
  shows "\<exists>d. r = Inr (Responded (reply kAccepted (JsonActionAccepted ref_json d)))"
proof -
  let ?t = "\<lparr>sys_clk = th_sys_clk t, steady_clk = th_steady_clk t, answers = th_answers t, asked = None, dialogue = []\<rparr>"
  obtain h t' where handle: "HandleAction ref_json (action_on thread_servers) q ?t = (h, t')" by fastforce
  have run: "resume iter t = (case h of
      Inl e \<Rightarrow> (Inr (Responded (reply kBadRequest (JsonError ref_json (what e)))), t')
    | Inr d \<Rightarrow> (Inr (Responded (reply kAccepted (JsonActionAccepted ref_json (d = Duplicate)))), t'))"
    using ActionHandler_payload [OF assms(6), of "action_on thread_servers" ?t] handle
    by (simp add: resume_def assms(5) bindE_def split: sum.split)
  then have "asked t' = None" using assms(4) by (auto simp: result_def waiting_def split: option.splits sum.splits)
  moreover have "fine e" if "e \<in> set (dialogue t')" for e
    using exchanges_history [OF assms(1,2), of "fst e" "snd e"] assms(3) that run
    by (fastforce simp: exchanges_of_def split: sum.splits)
  ultimately obtain d where "h = Inr d" using fine_HandleAction [OF assms(7)] handle unfolding returns_on_def by blast
  with run assms(4) show ?thesis by (auto simp: result_def split: option.splits)
qed

text \<open>What a request or delivery has to get.\<close>

definition served_well :: "(item list \<Rightarrow> item list) \<Rightarrow> product list \<Rightarrow> thread \<Rightarrow> bool" where
  "served_well iter ps t \<longleftrightarrow>
     (case th_task t of
        Post req \<Rightarrow> \<forall>q. request_payload ref_json req = Some q \<longrightarrow> valid_payload q \<longrightarrow>
          (\<exists>d. result iter t = Some (Inr (Responded (reply kAccepted (JsonActionAccepted ref_json d)))))
      | Recommend req \<Rightarrow> GetArg req ''user_id'' \<noteq> [] \<longrightarrow>
          (\<exists>ids. result iter t = Some (Inr (Responded (reply kOk (ToString ref_json (items_doc ids))))) \<and> length ids \<le> 50 \<and> distinct ids)
      | Product req \<Rightarrow> result iter t = Some (Inr (Responded (product_response ps req)))
      | Deliver m \<Rightarrow> result iter t = Some (Inr Processed))"

lemma responded_result:
  assumes "result iter t = Some (Inr x)" and "th_task t \<in> {Recommend req, Product req}"
  shows "\<exists>resp. x = Responded resp"
  using assms by (auto simp: result_def waiting_def resume_def bindE_def split: option.splits sum.splits prod.splits)

lemma fine_recommended:
  assumes "\<And>xs. mset (iter xs) = mset xs" and "sys_start w" and "pool_reach iter (pool_of w) p" and "threads p i = Some t"
    and "\<And>c a tm. (i, c, a, tm) \<in> set (history p) \<Longrightarrow> fine (c, a)" and "result iter t = Some r"
    and "th_task t = Recommend req" and "GetArg req ''user_id'' \<noteq> []"
  shows "\<exists>ids. r = Inr (Responded (reply kOk (ToString ref_json (items_doc ids)))) \<and> length ids \<le> 50 \<and> distinct ids"
proof -
  have "returns_on fine (task_prog iter thread_servers (th_task t))"
    unfolding assms(7) task_prog.simps RecommendHandler_HandleRequestThrow_def Let_def
    by (intro returns_on_bindE returns_on_branch returns_on_ttl_reply returns_on_basic fine_Recommend)
  from fine_result [OF assms(3,4) _ assms(6) this] assms(5) obtain x where x: "r = Inr x" by blast
  with responded_result [of iter t x req] assms(6,7) obtain resp where "x = Responded resp" by auto
  with recommendation_good [OF assms(1-4,7,8)] assms(6) x show ?thesis by (auto simp: kFeedListSize_def)
qed

lemma fine_delivered:
  assumes "\<And>xs. mset (iter xs) = mset xs" and "sys_start w" and "pool_reach iter (pool_of w) p" and "threads p i = Some t"
    and "\<And>c a tm. (i, c, a, tm) \<in> set (history p) \<Longrightarrow> fine (c, a)" and "result iter t = Some r" and "th_task t = Deliver m"
  shows "r = Inr Processed"
proof -
  have "event_message m"
    using pool_inv_reach [OF assms(1) pool_inv_start [OF assms(2)] assms(3)] assms(4,7)
    by (auto simp: pool_inv_def ran_def task_ok_def)
  then obtain q where "m = ToString ref_json (action_doc q)" by (auto simp: event_message_def)
  then have "message_fields ref_json m = Some q" by (simp add: message_fields_action_doc [OF ref_json_codec_ok])
  from fine_result [OF assms(3,4) _ assms(6)] assms(5) fine_Deliver [OF this] assms(7) obtain x where "r = Inr x" by metis
  with assms(6) show ?thesis
    by (auto simp: assms(7) result_def waiting_def resume_def bindE_def split: option.splits sum.splits prod.splits)
qed

lemma fine_outcome:
  assumes "\<And>xs. mset (iter xs) = mset xs" and "sys_start w" and "catalogue ps w" and "pool_reach iter (pool_of w) p"
    and "threads p i = Some t" and "\<And>c a tm. (i, c, a, tm) \<in> set (history p) \<Longrightarrow> fine (c, a)" and "result iter t \<noteq> None"
  shows "served_well iter ps t"
proof -
  obtain r where r: "result iter t = Some r" using assms(7) by blast
  show ?thesis
  proof (cases "th_task t")
    case (Post req)
    have "\<exists>d. r = Inr (Responded (reply kAccepted (JsonActionAccepted ref_json d)))"
      if "request_payload ref_json req = Some q" "valid_payload q" for q
      by (rule fine_post [OF assms(4,5) _ r Post that]) (rule assms(6))
    with Post r show ?thesis by (simp add: served_well_def)
  next
    case (Recommend req)
    with fine_recommended [OF assms(1,2,4,5,6) r Recommend] r show ?thesis by (simp add: served_well_def)
  next
    case (Product req)
    have "returns_on fine (task_prog iter thread_servers (th_task t))"
      unfolding Product task_prog.simps by (intro returns_on_bindE returns_on_basic fine_Product)
    from fine_result [OF assms(4,5) _ r this] assms(6) obtain x where x: "r = Inr x" by blast
    with responded_result [of iter t x req] r Product obtain resp where "x = Responded resp" by auto
    with product_answered [OF assms(1,3,4,5) Product] r x Product show ?thesis by (simp add: served_well_def)
  next
    case (Deliver m)
    with fine_delivered [OF assms(1,2,4,5,6) r Deliver] r show ?thesis by (simp add: served_well_def)
  qed
qed

end
