(* ===== verification/Ranking.thy ===== *)
theory Ranking
  imports Liveness
begin

text \<open>
  What the recommendations are, while requests and deliveries run at the same time: every list of ids that
  Redis holds, and every list a request answers, is what the specification of its kind gives on
  tables that the master had at some time. The proof is by rely and guarantee: a thread that has only heard
  such answers puts only such lists into Redis, so all threads together keep Redis in order.
\<close>

subsection \<open>What the lists should be\<close>

text \<open>The catalogue with the rows the table of actions had at some time; it only grows.\<close>

definition snapshot :: "product list \<Rightarrow> user_action list \<Rightarrow> database \<Rightarrow> bool" where
  "snapshot ps rows db \<longleftrightarrow> products db = ps \<and> (\<exists>k. user_actions db = take k rows)"

text \<open>The ids are what the statement selects on a snapshot.\<close>

definition selected :: "product list \<Rightarrow> user_action list \<Rightarrow> select_stmt \<Rightarrow> int64 list \<Rightarrow> bool" where
  "selected ps rows q ids \<longleftrightarrow>
     (\<exists>plan now db. valid_plan plan \<and> snapshot ps rows db \<and> q plan now db = Inr (pid_rows ids))"

abbreviation popular_ids :: "product list \<Rightarrow> user_action list \<Rightarrow> int \<Rightarrow> int64 list \<Rightarrow> bool" where
  "popular_ids ps rows n \<equiv> selected ps rows (kPopularProductIds n kPopularWindowDays)"

text \<open>The neighbours of the anchor, and the popular products when it has none.\<close>

definition similar_ids :: "product list \<Rightarrow> user_action list \<Rightarrow> int64 \<Rightarrow> int64 list \<Rightarrow> bool" where
  "similar_ids ps rows anchor ids \<longleftrightarrow>
     (\<exists>ns. (if sint anchor \<le> 0 then ns = [] else selected ps rows (kCatalogNeighborIds anchor 60) ns) \<and>
       (if ns = [] then popular_ids ps rows 60 ids else ids = ns))"

definition sources_ok :: "product list \<Rightarrow> user_action list \<Rightarrow> string \<Rightarrow> recommendation_sources \<Rightarrow> bool" where
  "sources_ok ps rows u s \<longleftrightarrow>
     selected ps rows (kRecentProductIds u 120 kRecentHistoryDays) (src_history s) \<and>
     popular_ids ps rows 120 (src_popular s) \<and>
     src_gpt_ranked s = stub_RankProductIds u kGptRecommendationIds \<and>
     (let anchor = similar_anchor (src_history s) (src_popular s)
      in if anchor = 0 then src_similar s = [] else similar_ids ps rows anchor (src_similar s))"

text \<open>The ids of the sources, each once, in the order of their weights.\<close>

definition ranking :: "recommendation_sources \<Rightarrow> int64 list \<Rightarrow> bool" where
  "ranking s L \<longleftrightarrow> set L = source_ids s \<and> sorted_wrt (ranked_before s) L"

definition feed_ids :: "product list \<Rightarrow> user_action list \<Rightarrow> string \<Rightarrow> int64 list \<Rightarrow> bool" where
  "feed_ids ps rows u ids \<longleftrightarrow> (\<exists>s L. sources_ok ps rows u s \<and> ranking s L \<and> ids = take kGptRecommendationIds L)"

text \<open>More rows are no fewer snapshots.\<close>

lemma snapshot_grows:
  assumes "snapshot ps rows db"
  shows "snapshot ps (rows @ new) db"
proof -
  obtain k where "products db = ps" "user_actions db = take k rows" using assms by (auto simp: snapshot_def)
  then have "user_actions db = take (min k (length rows)) (rows @ new)" by (simp add: min_def)
  with \<open>products db = ps\<close> show ?thesis unfolding snapshot_def by blast
qed

lemma selected_grows: "selected ps rows q ids \<Longrightarrow> selected ps (rows @ new) q ids"
  unfolding selected_def by (blast intro: snapshot_grows)

lemma similar_grows: "similar_ids ps rows a ids \<Longrightarrow> similar_ids ps (rows @ new) a ids"
  unfolding similar_ids_def by (auto intro: selected_grows split: if_splits)

lemma sources_grow: "sources_ok ps rows u s \<Longrightarrow> sources_ok ps (rows @ new) u s"
  unfolding sources_ok_def Let_def by (auto intro: selected_grows similar_grows split: if_splits)

lemma feed_grows: "feed_ids ps rows u ids \<Longrightarrow> feed_ids ps (rows @ new) u ids"
  unfolding feed_ids_def by (blast intro: sources_grow)

subsection \<open>No overflow\<close>

lemma pid_rows_inj [simp]: "pid_rows xs = pid_rows ys \<longleftrightarrow> xs = ys"
proof
  assume "pid_rows xs = pid_rows ys"
  then have "map (\<lambda>p. [(''pid'', SqlBigint p)]) xs = map (\<lambda>p. [(''pid'', SqlBigint p)]) ys" by (simp add: pid_rows_def)
  then show "xs = ys" by (rule map_injective) (simp add: inj_def)
qed simp

lemma statement_rows:
  "kRecentProductIds u (int n) days plan now db = Inr res \<Longrightarrow> \<exists>ids. res = pid_rows ids \<and> length ids \<le> n"
  "kPopularProductIds (int n) days plan now db = Inr res \<Longrightarrow> \<exists>ids. res = pid_rows ids \<and> length ids \<le> n"
  "kCatalogNeighborIds a (int n) plan now db = Inr res \<Longrightarrow> \<exists>ids. res = pid_rows ids \<and> length ids \<le> n"
  by (fastforce dest: kRecentProductIds_rows kPopularProductIds_rows kCatalogNeighborIds_rows)+

lemma selected_length:
  "selected ps rows (kRecentProductIds u (int n) days) ids \<Longrightarrow> length ids \<le> n"
  "selected ps rows (kPopularProductIds (int n) days) ids \<Longrightarrow> length ids \<le> n"
  "selected ps rows (kCatalogNeighborIds a (int n)) ids \<Longrightarrow> length ids \<le> n"
  unfolding selected_def by (auto dest!: statement_rows)

text \<open>The four lists are far too short for the 32-bit scores to overflow.\<close>

lemma sources_length:
  assumes "sources_ok ps rows u s"
  shows "source_length s \<le> 400"
proof -
  have gpt: "length (src_gpt_ranked s) = 100"
    using assms by (simp add: sources_ok_def stub_RankProductIds_def kGptRecommendationIds_def Let_def)
  have sim: "length (src_similar s) \<le> 60"
    using assms selected_length(2) [of _ _ 60] selected_length(3) [of _ _ _ 60]
    by (auto simp: sources_ok_def similar_ids_def Let_def split: if_splits)
  show ?thesis
    using assms gpt sim selected_length(1) [of ps rows u 120] selected_length(2) [of ps rows 120]
    unfolding sources_ok_def source_length_def by fastforce
qed

lemma merge_ranks:
  assumes "\<And>xs. mset (iter xs) = mset xs" and "sources_ok ps rows u s"
  shows "ranking s (FanOutMerge iter s)"
proof -
  have "source_length s < 2 ^ 29" using sources_length [OF assms(2)] by simp
  from sorted_merge [OF this] set_merge_items [of s] show ?thesis
    unfolding ranking_def FanOutMerge_iter [OF assms(1)] by blast
qed

subsection \<open>Redis in order\<close>

text \<open>What a key that holds a list of ids may hold, and what a thread may have heard and may store.\<close>

definition cell_ok :: "product list \<Rightarrow> user_action list \<Rightarrow> string \<Rightarrow> int64 list \<Rightarrow> bool" where
  "cell_ok ps rows k ids \<longleftrightarrow>
     (\<forall>u. k = FeedKey u \<longrightarrow> feed_ids ps rows u ids) \<and>
     (k = PopularGlobalKey \<longrightarrow> popular_ids ps rows 120 ids) \<and>
     (\<forall>u. k = GptRankKey u \<longrightarrow> ids = stub_RankProductIds u kGptRecommendationIds) \<and>
     (\<forall>a. k = SimilarKey a \<longrightarrow> similar_ids ps rows a ids)"

lemma cell_ok_keys [simp]:
  "cell_ok ps rows (FeedKey u) ids \<longleftrightarrow> feed_ids ps rows u ids"
  "cell_ok ps rows PopularGlobalKey ids \<longleftrightarrow> popular_ids ps rows 120 ids"
  "cell_ok ps rows (GptRankKey u) ids \<longleftrightarrow> ids = stub_RankProductIds u kGptRecommendationIds"
  "cell_ok ps rows (SimilarKey a) ids \<longleftrightarrow> similar_ids ps rows a ids"
  "cell_ok ps rows (VisitLastKey u) ids"
  by (simp_all add: cell_ok_def)

lemma cell_ok_grows: "cell_ok ps rows k ids \<Longrightarrow> cell_ok ps (rows @ new) k ids"
  unfolding cell_ok_def by (blast intro: feed_grows selected_grows similar_grows)

definition text_ok :: "product list \<Rightarrow> user_action list \<Rightarrow> string \<Rightarrow> string \<Rightarrow> bool" where
  "text_ok ps rows k raw \<longleftrightarrow> (\<forall>ids. JsonToIds ref_json raw = Some ids \<longrightarrow> cell_ok ps rows k ids)"

fun put_ok :: "product list \<Rightarrow> user_action list \<Rightarrow> call \<Rightarrow> bool" where
  "put_ok ps rows (CSetex k ttl v) = text_ok ps rows k v"
| "put_ok ps rows c = True"

fun heard_ok :: "product list \<Rightarrow> user_action list \<Rightarrow> call \<times> answer \<Rightarrow> bool" where
  "heard_ok ps rows (CGet k, AText (Inr (Some raw))) = text_ok ps rows k raw"
| "heard_ok ps rows (CSelect ts q, ARows (Inr res)) = (\<exists>now db. snapshot ps rows db \<and> q scan_plan now db = Inr res)"
| "heard_ok ps rows e = True"

lemma text_ok_ids: "text_ok ps rows k (IdsToJson ref_json ids) \<longleftrightarrow> cell_ok ps rows k ids"
  by (simp add: text_ok_def JsonToIds_IdsToJson ref_json_codec_ok)

lemma text_ok_grows: "text_ok ps rows k raw \<Longrightarrow> text_ok ps (rows @ new) k raw"
  by (auto simp: text_ok_def intro: cell_ok_grows)

lemma heard_ok_grows: "heard_ok ps rows e \<Longrightarrow> heard_ok ps (rows @ new) e"
  by (cases "(ps, rows, e)" rule: heard_ok.cases) (auto intro: text_ok_grows snapshot_grows)

lemma heard_ok_Get: "heard_ok ps rows (CGet k, a) \<Longrightarrow> text_of a = Inr v \<Longrightarrow> v = Some raw \<Longrightarrow> text_ok ps rows k raw"
  by (cases a) (auto simp: no_answer_def)

lemma heard_ok_Select:
  "heard_ok ps rows (CSelect ts q, a) \<Longrightarrow> rows_of a = Inr res \<Longrightarrow> \<exists>now db. snapshot ps rows db \<and> q scan_plan now db = Inr res"
  by (cases a) (auto simp: no_answer_def)

subsection \<open>The program of a request\<close>

abbreviation (input) sound_for ::
  "product list \<Rightarrow> user_action list \<Rightarrow> ('a, thread_world) prog \<Rightarrow> ('a \<Rightarrow> bool) \<Rightarrow> bool" where
  "sound_for ps rows \<equiv> sound (heard_ok ps rows) (put_ok ps rows)"

lemma sound_pids:
  assumes "\<And>plan now db res. q plan now db = Inr res \<Longrightarrow> \<exists>ids. res = pid_rows ids"
  shows "sound_for ps rows (bindE (ask (CSelect ts q) rows_of) PidsFromPidColumn) (selected ps rows q)"
proof (rule sound_bindE [where Q = "\<lambda>res. \<exists>now db. snapshot ps rows db \<and> q scan_plan now db = Inr res"])
  show "sound_for ps rows (ask (CSelect ts q) rows_of) (\<lambda>res. \<exists>now db. snapshot ps rows db \<and> q scan_plan now db = Inr res)"
    by (rule sound_ask) (auto dest: heard_ok_Select)
  fix res assume "\<exists>now db. snapshot ps rows db \<and> q scan_plan now db = Inr res"
  then obtain now db where db: "snapshot ps rows db" "q scan_plan now db = Inr res" by blast
  from assms [OF db(2)] obtain ids where res: "res = pid_rows ids" by blast
  with db valid_scan_plan have "selected ps rows q ids" unfolding selected_def by blast
  then show "sound_for ps rows (PidsFromPidColumn res) (selected ps rows q)"
    unfolding res PidsFromPidColumn_pid_rows by (rule sound_ret)
qed (rule steps_pids)

lemma sound_behavior:
  "sound_for ps rows (pg_RecentProductIds \<lparr>pg_cluster = sv_pg thread_servers\<rparr> u 120)
    (selected ps rows (kRecentProductIds u 120 kRecentHistoryDays))"
  "sound_for ps rows (pg_PopularProductIds \<lparr>pg_cluster = sv_pg thread_servers\<rparr> 120) (popular_ids ps rows 120)"
  "sound_for ps rows (pg_PopularProductIds \<lparr>pg_cluster = sv_pg thread_servers\<rparr> 60) (popular_ids ps rows 60)"
  "sound_for ps rows (pg_CatalogNeighborProductIds \<lparr>pg_cluster = sv_pg thread_servers\<rparr> a 60)
    (\<lambda>ns. if sint a \<le> 0 then ns = [] else selected ps rows (kCatalogNeighborIds a 60) ns)"
proof -
  have lim: "IsReasonableLimit 120" "IsReasonableLimit 60" by (simp_all add: IsReasonableLimit_def)
  have q: "\<And>plan now db res. kRecentProductIds u 120 d plan now db = Inr res \<Longrightarrow> \<exists>ids. res = pid_rows ids"
    "\<And>plan now db res. kPopularProductIds 120 d plan now db = Inr res \<Longrightarrow> \<exists>ids. res = pid_rows ids"
    "\<And>plan now db res. kPopularProductIds 60 d plan now db = Inr res \<Longrightarrow> \<exists>ids. res = pid_rows ids"
    "\<And>plan now db res. kCatalogNeighborIds a 60 plan now db = Inr res \<Longrightarrow> \<exists>ids. res = pid_rows ids" for d
    by (metis of_nat_numeral statement_rows)+
  show "sound_for ps rows (pg_RecentProductIds \<lparr>pg_cluster = sv_pg thread_servers\<rparr> u 120)
    (selected ps rows (kRecentProductIds u 120 kRecentHistoryDays))"
    using sound_pids [OF q(1)] lim by (simp add: pg_RecentProductIds_def)
  show "sound_for ps rows (pg_PopularProductIds \<lparr>pg_cluster = sv_pg thread_servers\<rparr> 120) (popular_ids ps rows 120)"
    "sound_for ps rows (pg_PopularProductIds \<lparr>pg_cluster = sv_pg thread_servers\<rparr> 60) (popular_ids ps rows 60)"
    using sound_pids [OF q(2)] sound_pids [OF q(3)] lim by (simp_all add: pg_PopularProductIds_def)
  show "sound_for ps rows (pg_CatalogNeighborProductIds \<lparr>pg_cluster = sv_pg thread_servers\<rparr> a 60)
    (\<lambda>ns. if sint a \<le> 0 then ns = [] else selected ps rows (kCatalogNeighborIds a 60) ns)"
    using sound_pids [OF q(4)] lim
    by (cases "sint a \<le> 0") (simp_all add: pg_CatalogNeighborProductIds_def sound_ret del: ret_run)
qed

text \<open>A list read from Redis is as its key says.\<close>

lemma sound_get_ids:
  "sound_for ps rows (redis_get_ids (redis_on thread_servers) k) (\<lambda>v. \<forall>ids. v = Some ids \<longrightarrow> cell_ok ps rows k ids)"
  unfolding redis_get_ids_def redis_on_simps thread_redis_simps
proof (rule sound_bindE [where Q = "\<lambda>v. \<forall>raw. v = Some raw \<longrightarrow> text_ok ps rows k raw"])
  show "sound_for ps rows (ask (CGet k) text_of) (\<lambda>v. \<forall>raw. v = Some raw \<longrightarrow> text_ok ps rows k raw)"
    by (rule sound_ask) (auto dest: heard_ok_Get)
qed (auto simp: text_ok_def split: option.split
    intro!: sound_ret sound_seq [OF asks_basic(5)] steps_rules simp del: ret_run)

lemma sound_put:
  assumes "text_ok ps rows k v" and "\<And>x. sound_for ps rows (f x) S"
  shows "sound_for ps rows (bindE (ask (CSetex k ttl v) unit_of) f) S"
  by (rule sound_bindE [where Q = "\<lambda>_. True"])
    (use assms in \<open>auto simp: sound_def [where Q = S] intro: sound_ask\<close>)

lemma sound_cached:
  assumes "\<And>ids. cell_ok ps rows k ids \<Longrightarrow> Q ids" and "sound_for ps rows m Q"
  shows "sound_for ps rows (bindE (redis_get_ids (redis_on thread_servers) k) (\<lambda>cached. case cached of None \<Rightarrow> m | Some ids \<Rightarrow> ret ids)) Q"
proof (rule sound_bindE [OF sound_get_ids])
  fix v assume "\<forall>ids. v = Some ids \<longrightarrow> cell_ok ps rows k ids"
  with assms show "sound_for ps rows (case v of None \<Rightarrow> m | Some ids \<Rightarrow> ret ids) Q"
    by (cases v) (auto simp del: ret_run intro: sound_ret)
next
  fix v show "steps (case v of None \<Rightarrow> m | Some ids \<Rightarrow> ret ids)"
    using assms(2) by (intro steps_rules) (simp add: sound_def)
qed

text \<open>A list that was computed is stored and returned.\<close>

lemma sound_computed:
  assumes "sound_for ps rows m Q" and "\<And>ids. Q ids \<Longrightarrow> cell_ok ps rows k ids"
  shows "sound_for ps rows (bindE m (\<lambda>ids. bindE (ask (CSetex k ttl (IdsToJson ref_json ids)) unit_of) (\<lambda>_. ret ids))) Q"
  by (rule sound_bindE [OF assms(1)]) (auto simp: text_ok_ids assms(2) simp del: ret_run intro!: sound_put sound_ret steps_rules)

lemmas side_cache_defs = redis_TryGetPopularGlobal_def redis_TryGetGptRanked_def redis_TryGetSimilar_def
  redis_PutPopularGlobal_def redis_PutGptRanked_def redis_PutSimilar_def redis_on_simps thread_redis_simps

lemma sound_fetch_popular: "sound_for ps rows (fetch_popular (recommend_on thread_servers)) (popular_ids ps rows 120)"
  unfolding fetch_popular_def recommend_ports_simps side_cache_defs
  by (rule sound_cached [OF _ sound_computed [OF sound_behavior(2)]]) simp_all

lemma sound_fetch_gpt:
  "sound_for ps rows (fetch_gpt (recommend_on thread_servers) u) (\<lambda>ids. ids = stub_RankProductIds u kGptRecommendationIds)"
  unfolding fetch_gpt_def recommend_ports_simps side_cache_defs
  by (rule sound_cached [OF _ sound_computed [OF sound_ret]]) simp_all

lemma sound_fetch_similar:
  "sound_for ps rows (fetch_similar (recommend_on thread_servers) anchor)
    (\<lambda>ids. if anchor = 0 then ids = [] else similar_ids ps rows anchor ids)"
proof (cases "anchor = 0")
  case True
  then show ?thesis by (simp add: fetch_similar_def sound_ret del: ret_run)
next
  case False
  let ?neighbours = "pg_CatalogNeighborProductIds \<lparr>pg_cluster = sv_pg thread_servers\<rparr> anchor 60"
  let ?or_popular = "\<lambda>ns. if ns = [] then pg_PopularProductIds \<lparr>pg_cluster = sv_pg thread_servers\<rparr> 60 else ret ns"
  have steps: "steps (?or_popular ns)" for ns using sound_behavior(3) by (intro steps_rules) (simp add: sound_def)
  have both: "sound_for ps rows (bindE ?neighbours ?or_popular) (similar_ids ps rows anchor)"
  proof (rule sound_bindE [OF sound_behavior(4)])
    fix ns assume ns: "if sint anchor \<le> 0 then ns = [] else selected ps rows (kCatalogNeighborIds anchor 60) ns"
    show "sound_for ps rows (?or_popular ns) (similar_ids ps rows anchor)"
    proof (cases "ns = []")
      case True
      with ns show ?thesis
        by (auto simp: similar_ids_def intro!: sound_mono [OF sound_behavior(3)])
    next
      case False
      with ns have "similar_ids ps rows anchor ns" unfolding similar_ids_def by (intro exI [of _ ns]) (simp split: if_splits)
      with False show ?thesis by (simp add: sound_ret del: ret_run)
    qed
  qed (rule steps)
  have "sound_for ps rows (fetch_similar (recommend_on thread_servers) anchor) (similar_ids ps rows anchor)"
    unfolding fetch_similar_def recommend_ports_simps side_cache_defs if_not_P [OF False] bindE_assoc [symmetric]
    by (rule sound_cached [OF _ sound_computed [OF both]]) simp_all
  with False show ?thesis by simp
qed

lemma sound_FetchSources: "sound_for ps rows (FetchSources (recommend_on thread_servers) u) (sources_ok ps rows u)"
proof -
  have st: "steps (fetch_popular (recommend_on thread_servers))" "steps (fetch_gpt (recommend_on thread_servers) u)"
    "steps (fetch_similar (recommend_on thread_servers) a)" for a
    using sound_fetch_popular sound_fetch_gpt sound_fetch_similar by (simp_all add: sound_def)
  show ?thesis
    unfolding FetchSources_def recommend_on_simps pg_behavior_port_def behavior_port.simps
  proof (rule sound_bindE [OF sound_behavior(1)], rule sound_bindE [OF sound_fetch_popular],
      rule sound_bindE [OF sound_fetch_gpt], rule sound_bindE [OF sound_fetch_similar], rule sound_ret)
  qed (auto simp: sources_ok_def Let_def intro!: steps_rules st simp del: ret_run)
qed

text \<open>What a request answers.\<close>

definition top_ids :: "product list \<Rightarrow> user_action list \<Rightarrow> string \<Rightarrow> int64 list \<Rightarrow> bool" where
  "top_ids ps rows u ids \<longleftrightarrow> (\<exists>s L. sources_ok ps rows u s \<and> ranking s L \<and> ids = take kFeedListSize L)"

lemma top_of_feed: "feed_ids ps rows u built \<Longrightarrow> top_ids ps rows u (TakeTop built kFeedListSize)"
  by (fastforce simp: feed_ids_def top_ids_def kFeedListSize_def kGptRecommendationIds_def)

lemma sound_rebuild:
  assumes "\<And>xs. mset (iter xs) = mset xs"
  shows "sound_for ps rows (rebuild_feed iter (recommend_on thread_servers) u) (top_ids ps rows u)"
  unfolding rebuild_feed_def recommend_ports_simps Let_def redis_PutFeed_def redis_on_simps thread_redis_simps
proof (rule sound_bindE [OF sound_FetchSources])
  fix s assume "sources_ok ps rows u s"
  then have "feed_ids ps rows u (TakeTop (FanOutMerge iter s) kGptRecommendationIds)"
    using merge_ranks [OF assms] unfolding feed_ids_def TakeTop_take by blast
  then show "sound_for ps rows
      (bindE (ask (CSetex (FeedKey u) kFeedKeyTtl (IdsToJson ref_json (TakeTop (FanOutMerge iter s) kGptRecommendationIds))) unit_of)
        (\<lambda>_. ret (TakeTop (TakeTop (FanOutMerge iter s) kGptRecommendationIds) kFeedListSize))) (top_ids ps rows u)"
    by (intro sound_put sound_ret top_of_feed) (simp add: text_ok_ids)
qed (intro steps_rules)

lemma sound_TryGetFeed:
  "sound_for ps rows (redis_TryGetFeed (redis_on thread_servers) u) (\<lambda>v. \<forall>e. v = Some e \<longrightarrow> feed_ids ps rows u (product_ids e))"
  unfolding redis_TryGetFeed_def redis_on_simps thread_redis_simps Let_def
proof (rule sound_bindE [where Q = "\<lambda>v. \<forall>raw. v = Some raw \<longrightarrow> text_ok ps rows (FeedKey u) raw"])
  show "sound_for ps rows (ask (CGet (FeedKey u)) text_of) (\<lambda>v. \<forall>raw. v = Some raw \<longrightarrow> text_ok ps rows (FeedKey u) raw)"
    by (rule sound_ask) (auto dest: heard_ok_Get)
qed (auto simp: text_ok_def split: option.split ttl_reply.split
    intro!: sound_ret sound_seq [OF asks_basic(5)] steps_rules simp del: ret_run)

lemma sound_GetRecommendations:
  assumes "\<And>xs. mset (iter xs) = mset xs"
  shows "sound_for ps rows (GetRecommendations iter (recommend_on thread_servers) u) (top_ids ps rows u)"
proof -
  note st = steps_rules steps_redis steps_ttl_calls steps_rebuild
  let ?tail = "\<lambda>prev cached. case cached of
      Some entry \<Rightarrow> bindE (ClassifyVisit_call prev) (\<lambda>recency.
        bindE (redis_TouchFeed (redis_on thread_servers) u (ExtendFeedTtlOnHit recency)) (\<lambda>_.
        ret (TakeTop (product_ids entry) kFeedListSize)))
    | None \<Rightarrow> rebuild_feed iter (recommend_on thread_servers) u"
  have touch: "asks (put_ok ps rows) 2 (redis_TouchFeed (redis_on thread_servers) u e)"
    "asks (put_ok ps rows) 1 (redis_DropFeed (redis_on thread_servers) u)"
    "asks (put_ok ps rows) 3 (redis_LastSeenUtc (redis_on thread_servers) u)" for e
    by (rule asks_redis_methods; simp)+
  have drop: "asks (put_ok ps rows) (max 1 0) (if b then redis_DropFeed (redis_on thread_servers) u else ret ())" for b
    by (intro asks_if touch asks_pure)
  have mark: "sound_for ps rows (redis_MarkSeenUtc (redis_on thread_servers) u) (\<lambda>_. True)"
    unfolding redis_MarkSeenUtc_def redis_on_simps thread_redis_simps Let_def
    by (rule sound_seq [OF asks_basic(4)]) (auto intro!: steps_rules sound_ask simp: text_ok_def)
  have "sound_for ps rows (?tail prev cached) (top_ids ps rows u)"
    if "\<forall>e. cached = Some e \<longrightarrow> feed_ids ps rows u (product_ids e)" for prev cached
  proof (cases cached)
    case None
    then show ?thesis using sound_rebuild [OF assms] by simp
  next
    case (Some entry)
    with that have "top_ids ps rows u (TakeTop (product_ids entry) kFeedListSize)" by (intro top_of_feed) simp
    then show ?thesis unfolding Some option.case
      by (intro sound_seq [OF asks_ttl_calls(2)] sound_seq [OF touch(1)] sound_ret st)
  qed
  then have tail: "sound_for ps rows (bindE (redis_TryGetFeed (redis_on thread_servers) u) (?tail prev)) (top_ids ps rows u)" for prev
    by (rule sound_bindE [OF sound_TryGetFeed]) (assumption, intro st)
  show ?thesis
    unfolding GetRecommendations_def recommend_ports_simps
    by (rule sound_seq [OF touch(3)], rule st, rule sound_seq [OF asks_ttl_calls(1)], rule st,
        rule sound_seq [OF drop], intro st, rule sound_bindE [OF mark], rule tail, intro st)
qed

lemma sound_Recommend:
  assumes "\<And>xs. mset (iter xs) = mset xs"
  shows "sound_for ps rows (task_prog iter thread_servers (Recommend req)) (\<lambda>_. True)"
proof -
  have "sound_for ps rows (RecommendHandler_HandleRequestThrow ref_json iter (recommend_on thread_servers) req) (\<lambda>_. True)"
  proof (cases "GetArg req ''user_id'' = []")
    case True
    then show ?thesis by (simp add: RecommendHandler_HandleRequestThrow_def sound_ret del: ret_run)
  next
    case False
    then show ?thesis
      unfolding RecommendHandler_HandleRequestThrow_def Let_def if_not_P [OF False]
      by (intro sound_bindE [OF sound_GetRecommendations [OF assms]] sound_ret steps_rules TrueI)
  qed
  then show ?thesis unfolding task_prog.simps by (rule sound_bindE) (intro sound_ret steps_rules TrueI)+
qed

subsection \<open>All threads together\<close>

definition table :: "system_world \<Rightarrow> user_action list" where
  "table w = user_actions (pg_master w)"

definition redis_in_order :: "product list \<Rightarrow> system_world \<Rightarrow> bool" where
  "redis_in_order ps w \<longleftrightarrow> (\<forall>k raw d. kv w k = Some (raw, d) \<longrightarrow> text_ok ps (table w) k raw)"

definition all_heard_ok :: "product list \<Rightarrow> pool \<Rightarrow> bool" where
  "all_heard_ok ps p \<longleftrightarrow> (\<forall>(i, c, a, tm) \<in> set (history p). heard_ok ps (table (shared p)) (c, a))"

lemma table_grows:
  assumes "allowed t c" and "serve c w = (a, w')"
  obtains new where "table w' = table w @ new"
  using table_serve [OF assms] by (auto simp: table_def)

text \<open>What a thread stores is as its key says, if what it has heard was.\<close>

lemma waiting_put_ok:
  assumes "\<And>xs. mset (iter xs) = mset xs" and "pool_reach iter (pool_of w) p" and "all_heard_ok ps p"
    and "threads p i = Some t" and "waiting iter t = Some c"
  shows "put_ok ps (table (shared p)) c"
proof (cases "th_task t")
  case (Recommend req)
  let ?t = "\<lparr>sys_clk = th_sys_clk t, steady_clk = th_steady_clk t, answers = th_answers t, asked = None, dialogue = []\<rparr>"
  obtain r t' where run: "task_prog iter thread_servers (Recommend req) ?t = (r, t')" by fastforce
  then have "asked t' = Some c" and dlg: "exchanges_of iter t = dialogue t'"
    using assms(5) by (simp_all add: waiting_def resume_def exchanges_of_def Recommend)
  moreover have "heard_ok ps (table (shared p)) e" if "e \<in> set (dialogue t')" for e
    using exchanges_history [OF assms(2,4), of "fst e" "snd e"] assms(3) that
    by (fastforce simp: all_heard_ok_def dlg)
  ultimately show ?thesis
    using sound_Recommend [OF assms(1), of ps "table (shared p)" req] run
    unfolding sound_def guarded_def by (metis talk.select_convs(2))
qed (use waiting_allowed(1) [OF assms(1,5)] in \<open>cases c; auto\<close>)+

lemma redis_in_order_serve:
  assumes "redis_in_order ps w" and "allowed t c" and "put_ok ps (table w) c" and "serve c w = (a, w')"
  shows "redis_in_order ps w'"
proof -
  obtain new where new: "table w' = table w @ new" by (rule table_grows [OF assms(2,4)])
  have "text_ok ps (table w) k raw" if "kv w' k = Some (raw, d)" for k raw d
  proof (cases "kv w' = kv w")
    case True
    with that assms(1) show ?thesis by (auto simp: redis_in_order_def)
  next
    case False
    note old = assms(1) [unfolded redis_in_order_def]
    show ?thesis
    proof (cases c)
      case (CSetex k' ttl v)
      with kv_serve [OF assms(4) False] that assms(3) old show ?thesis by (auto split: if_splits)
    next
      case (CDel k')
      with kv_serve [OF assms(4) False] that old show ?thesis by (auto split: if_splits)
    next
      case (CExpire k' ttl)
      with kv_serve [OF assms(4) False] that old show ?thesis
        by (auto simp: visible_def split: if_splits option.splits)
    next
      case (CSetIfNotExist k' v ms)
      then have "v = ''1''" using assms(2) by (cases t) auto
      moreover have "text_ok ps (table w) k ''1''" by (simp add: text_ok_def JsonToIds_def ref_json_def)
      ultimately show ?thesis using CSetIfNotExist kv_serve [OF assms(4) False] that old by (auto split: if_splits)
    qed (use kv_serve [OF assms(4) False] in auto)
  qed
  then show ?thesis unfolding redis_in_order_def new by (blast intro: text_ok_grows)
qed

lemma served_heard_ok:
  assumes "redis_in_order ps w" and "catalogue ps w" and "lagging w" and "serve c w = (a, w')"
  shows "heard_ok ps (table w) (c, a)"
proof (cases c)
  case (CGet k)
  then obtain r where a: "a = AText r" and get: "r_Get ref_redis k w = (r, w')"
    using assms(4) by (auto simp: map_prod_def split: prod.splits)
  have "text_ok ps (table w) k raw" if "r = Inr (Some raw)" for raw
    using ref_redis.get_law [OF get] that assms(1)
    by (auto simp: redis_in_order_def visible_def split: option.splits if_splits)
  with a CGet show ?thesis by (cases r; cases "projr r") auto
next
  case (CSelect ts q)
  let ?db = "if pg_sync w (pg_count w) then pg_master w else pg_replica w"
  have db: "snapshot ps (table w) ?db"
    using assms(2,3) by (auto simp: snapshot_def catalogue_def lagging_def table_def intro: exI [of _ "length (user_actions (pg_master w))"])
  have now: "\<exists>now. q scan_plan now ?db = Inr res" if "a = ARows (Inr res)" for res
    using CSelect that assms(4)
    by (auto simp: ref_pg_def ref_select_def Let_def map_prod_def split: fault.splits prod.splits if_splits)
  obtain r where a: "a = ARows r" using CSelect assms(4) by (auto simp: map_prod_def split: prod.splits)
  show ?thesis
  proof (cases r)
    case (Inr res)
    with now a have "\<exists>now. q scan_plan now ?db = Inr res" by blast
    with db show ?thesis unfolding CSelect a Inr heard_ok.simps by blast
  qed (simp add: CSelect a)
qed simp_all

lemma ranked_pool:
  assumes "\<And>xs. mset (iter xs) = mset xs" and "sys_start w" and "catalogue ps w" and "lagging w"
    and "pool_reach iter (pool_of w) p"
  shows "redis_in_order ps (shared p) \<and> all_heard_ok ps p"
  using assms(5) unfolding pool_reach_def
proof (induction rule: rtranclp_induct)
  case base
  then show ?case using assms(2) by (simp add: redis_in_order_def all_heard_ok_def pool_of_def sys_start_def)
next
  case (step y z)
  have reach: "pool_reach iter (pool_of w) y" using step(1) by (simp add: pool_reach_def)
  from step(2) show ?case
  proof cases
    case (served i t c a w')
    note ok = waiting_allowed(1) [OF assms(1) served(3)]
    obtain new where new: "table w' = table (shared y) @ new" by (rule table_grows [OF ok served(4)])
    have "put_ok ps (table (shared y)) c"
      using waiting_put_ok [OF assms(1) reach _ served(2,3)] step.IH by blast
    with redis_in_order_serve [OF _ ok _ served(4)] step.IH have "redis_in_order ps w'" by blast
    moreover have "heard_ok ps (table (shared y)) (c, a)"
      using served_heard_ok [OF _ _ _ served(4)] step.IH catalogue_pool [OF assms(1,3) reach] lagging_pool [OF assms(1,4) reach]
      by blast
    ultimately show ?thesis
      using step.IH served(1) by (auto simp: all_heard_ok_def new intro: heard_ok_grows)
  qed (use step.IH in \<open>simp_all add: redis_in_order_def all_heard_ok_def table_def\<close>)
qed

lemma recommendations_top:
  assumes "\<And>xs. mset (iter xs) = mset xs" and "sys_start w" and "catalogue ps w" and "lagging w"
    and "pool_reach iter (pool_of w) p" and "threads p i = Some t" and "th_task t = Recommend req"
    and "GetArg req ''user_id'' \<noteq> []" and "result iter t = Some (Inr (Responded resp))"
  shows "\<exists>ids. top_ids ps (table (shared p)) (GetArg req ''user_id'') ids \<and> resp = reply kOk (ToString ref_json (items_doc ids))"
proof -
  let ?u = "GetArg req ''user_id''"
  let ?R = "heard_ok ps (table (shared p))"
  let ?Q = "\<lambda>r. \<exists>ids. top_ids ps (table (shared p)) ?u ids \<and> r = reply kOk (ToString ref_json (items_doc ids))"
  let ?handler = "RecommendHandler_HandleRequestThrow ref_json iter (recommend_on thread_servers) req"
  have "sound ?R (put_ok ps (table (shared p))) ?handler ?Q"
    unfolding RecommendHandler_HandleRequestThrow_def Let_def if_not_P [OF assms(8)]
    by (rule sound_bindE [OF sound_GetRecommendations [OF assms(1)]]) (blast intro: sound_ret, intro steps_rules)
  then have "hears ?R ?handler ?Q" by (simp add: sound_def)
  moreover have "task_prog iter thread_servers (th_task t) = bindE ?handler (\<lambda>r. ret (Responded r))"
    by (simp add: assms(7))
  moreover have "\<forall>(i, c, a, tm) \<in> set (history p). ?R (c, a)"
    using ranked_pool [OF assms(1-5)] by (simp add: all_heard_ok_def)
  ultimately show ?thesis using response_heard [OF assms(5,6)] assms(9) by blast
qed

end
