(* ===== verification/Races.thy ===== *)
theory Races
  imports Answers Totality
begin

text \<open>
  A race of the cache. A request builds a feed from sources it has read, and stores it with a
  command of its own: whatever ran in between, also the storing of new actions and the
  invalidation of what Redis keeps of the user, the old feed is what Redis then holds.
\<close>

subsection \<open>The request up to its last command\<close>

text \<open>What is answered from the cache, or the feed that is about to be stored.\<close>

definition until_put ::
  "(item list \<Rightarrow> item list) \<Rightarrow> 'x clocks_scheme recommendation_service \<Rightarrow> string \<Rightarrow>
   (int64 list + int64 list, 'x clocks_scheme) prog" where
  "until_put iter S user_id =
     bindE (LastSeenUtc (rs_visits S) user_id) (\<lambda>prev_seen.
     bindE (ShouldInvalidateFeed_call prev_seen) (\<lambda>invalidate.
     bindE (if invalidate then DropFeed (rs_cache S) user_id else ret ()) (\<lambda>_.
     bindE (MarkSeenUtc (rs_visits S) user_id) (\<lambda>_.
     bindE (TryGetFeed (rs_cache S) user_id) (\<lambda>cached.
     case cached of
       Some entry \<Rightarrow>
         bindE (ClassifyVisit_call prev_seen) (\<lambda>recency.
         bindE (TouchFeed (rs_cache S) user_id (ExtendFeedTtlOnHit recency)) (\<lambda>_.
         ret (Inl (TakeTop (product_ids entry) kFeedListSize))))
     | None \<Rightarrow>
         bindE (FetchSources S user_id) (\<lambda>sources.
         ret (Inr (TakeTop (FanOutMerge iter sources) kGptRecommendationIds))))))))"

definition put_rest :: "'w recommendation_service \<Rightarrow> string \<Rightarrow> int64 list + int64 list \<Rightarrow> (int64 list, 'w) prog" where
  "put_rest S user_id x =
     (case x of
        Inl ids \<Rightarrow> ret ids
      | Inr built \<Rightarrow> bindE (PutFeed (rs_cache S) user_id built kFeedKeyTtl) (\<lambda>_. ret (TakeTop built kFeedListSize)))"

lemma bindE_option: "bindE (case v of None \<Rightarrow> m | Some x \<Rightarrow> f x) g = (case v of None \<Rightarrow> bindE m g | Some x \<Rightarrow> bindE (f x) g)"
  by (cases v) simp_all

lemma GetRecommendations_until_put:
  "GetRecommendations iter S u = bindE (until_put iter S u) (put_rest S u)"
  unfolding GetRecommendations_def until_put_def rebuild_feed_def put_rest_def Let_def
  by (simp add: bindE_assoc bindE_option cong: option.case_cong del: ret_run)

lemma follows_until_put:
  "follows (until_put iter (recommend_on thread_servers) u) (until_put iter (recommend_on ref_servers) u)"
  unfolding until_put_def FetchSources_def fetch_popular_def fetch_gpt_def fetch_similar_def
    ShouldInvalidateFeed_call_def ClassifyVisit_call_def on_servers redis_method_defs pg_RecentProductIds_def
    pg_PopularProductIds_def pg_CatalogNeighborProductIds_def Let_def
  by (intro follows_rules)

lemma healthy_until_put: "returns_healthy u (until_put iter stack_recommend u)"
proof -
  have pg: "pg_data0 = \<lparr>pg_cluster = ref_pg\<rparr>" by (simp add: pg_data0_def)
  show ?thesis
    unfolding until_put_def FetchSources_def fetch_popular_def fetch_gpt_def fetch_similar_def
      ShouldInvalidateFeed_call_def ClassifyVisit_call_def stack_recommend_def redis_recommend_simps redis_cache_port_def
      redis_side_port_def redis_visit_port_def cache_port.simps side_port.simps visit_port.simps pg_behavior_port_def
      behavior_port.simps stub_gpt_port_def gpt_port.simps redis_defs redis_TryGetGptRanked_def redis_TryGetSimilar_def
      redis_TryGetPopularGlobal_def redis_MarkSeenUtc_def redis_get_ids_def redis0_def redis_rhythm_data.simps pg Let_def
      try_catch_pure
    by (intro healthy_bindE healthy_try_catch healthy_branch healthy_quiet healthy_redis healthy_behavior)
qed

subsection \<open>A request that has not stored its feed yet\<close>

definition feed_put :: "string \<Rightarrow> int64 list \<Rightarrow> call" where
  "feed_put u built = CSetex (FeedKey u) kFeedKeyTtl (IdsToJson ref_json built)"

lemma bindE_keeps_asked:
  assumes "\<And>x. steps (f x)" and "asked (snd (m t)) = Some c"
  shows "asked (snd (bindE m f t)) = Some c"
proof (cases "m t")
  case (Pair y t1)
  with assms(2) stepsD(2) [OF assms(1) prod.collapse [symmetric]] show ?thesis
    by (cases y) (auto simp: bindE_def)
qed

lemma recommend_task_until_put:
  assumes "GetArg req ''user_id'' = u" and "u \<noteq> []"
  shows "task_prog iter thread_servers (Recommend req) =
    bindE (until_put iter (recommend_on thread_servers) u) (\<lambda>x.
      bindE (bindE (put_rest (recommend_on thread_servers) u x) (\<lambda>items. ret (reply kOk (ToString ref_json (items_doc items)))))
        (\<lambda>r. ret (Responded r)))"
  using assms by (simp add: RecommendHandler_HandleRequestThrow_def Let_def GetRecommendations_until_put bindE_assoc)

lemma waits_to_put:
  assumes "idle p" and "GetArg req ''user_id'' = u" and "u \<noteq> []"
    and "until_put iter stack_recommend u (shared p) = (Inr (Inr built), w1)"
  shows "\<exists>p' i th. pool_reach iter p p' \<and> idle p' \<and> shared p' = w1 \<and> threads p' i = Some th \<and>
    waiting iter th = Some (feed_put u built)"
proof -
  obtain i where "i \<notin> dom (threads p)"
    using assms(1) ex_new_if_finite [OF infinite_UNIV_nat] unfolding idle_def by metis
  then have i: "threads p i = None" by auto
  let ?w = "shared p"
  let ?M = "until_put iter (recommend_on thread_servers) u"
  let ?R = "\<lambda>x. bindE (bindE (put_rest (recommend_on thread_servers) u x)
    (\<lambda>items. ret (reply kOk (ToString ref_json (items_doc items))))) (\<lambda>r. ret (Responded r))"
  note task = recommend_task_until_put [OF assms(2,3), of iter]
  have R: "steps (?R x)" for x
    unfolding put_rest_def recommend_ports_simps by (intro steps_rules steps_redis)
  have run: "until_put iter (recommend_on ref_servers) u (shared p) = (Inr (Inr built), w1)" using assms(4) by simp
  obtain ys v where ys: "serves ?w ys v" and v: "w1 = clocked v (sys_clk w1) (steady_clk w1)"
    and all: "\<And>rest es. ?M (thread_at (sys_clk ?w) (steady_clk ?w) (map snd ys @ rest) es) =
      (Inr (Inr built), thread_at (sys_clk w1) (steady_clk w1) rest (es @ ys))"
    and part: "\<And>i es. i < length ys \<Longrightarrow> asked (snd (?M
      (thread_at (sys_clk ?w) (steady_clk ?w) (take i (map snd ys)) es))) = Some (fst (ys ! i))"
    by (rule followsE [OF follows_until_put run]) blast
  let ?t = "fresh_thread (Recommend req) (sys_clk ?w) (steady_clk ?w)"
  let ?p = "p\<lparr>threads := (threads p)(i \<mapsto> ?t)\<rparr>"
  have resume: "resume iter (?t\<lparr>th_answers := as\<rparr>) =
      bindE ?M ?R (thread_at (sys_clk ?w) (steady_clk ?w) as [])" for as
    unfolding thread_at_resume by (simp only: fresh_thread_def thread.simps task)
  have ready: "waiting iter (?t\<lparr>th_answers := [] @ take j (map snd ys)\<rparr>) = Some (fst (ys ! j))" if "j < length ys" for j
    unfolding waiting_def resume append_Nil by (rule bindE_keeps_asked [where m = ?M and f = ?R, OF R part [OF that]])
  have "threads ?p i = Some (?t\<lparr>th_answers := []\<rparr>)" by (simp add: fresh_thread_def)
  from served_in_turn [OF ys this _ ready] obtain p1 where p1: "pool_reach iter ?p p1" "shared p1 = v"
    "acked p1 = acked p" "threads p1 = (threads p)(i \<mapsto> ?t\<lparr>th_answers := map snd ys\<rparr>)" by auto
  let ?p2 = "p1\<lparr>shared := (shared p1)\<lparr>sys_clk := sys_clk w1, steady_clk := steady_clk w1\<rparr>\<rparr>"
  have "pool_reach iter p ?p2"
    using p1(1) pool_step.start [of p i "Recommend req", OF i] pool_step.clock unfolding pool_reach_def
    by (meson converse_rtranclp_into_rtranclp rtranclp.rtrancl_into_rtrancl task.distinct)
  moreover have "shared ?p2 = w1" using v p1(2) by (simp add: clocked_def)
  moreover have "waiting iter (?t\<lparr>th_answers := map snd ys\<rparr>) = Some (feed_put u built)"
    using all [of "[]" "[]"] unfolding waiting_def resume
    by (simp add: bindE_def put_rest_def redis_cache_port_def redis_PutFeed_def ask_def thread_at_def feed_put_def Let_def)
  ultimately show ?thesis using p1(3,4) assms(1)
    by (intro exI [of _ ?p2] exI [of _ i] exI [of _ "?t\<lparr>th_answers := map snd ys\<rparr>"]) (simp add: idle_def)
qed

text \<open>The world goes on, and the feed is stored after all.\<close>

lemma late_put:
  assumes "threads p i = Some th" and "waiting iter th = Some (feed_put u built)" and "no_more_faults (shared p)"
  shows "\<exists>p'. pool_reach iter p p' \<and> kv (shared p') = (kv (shared p))(FeedKey u \<mapsto>
      (IdsToJson ref_json built, Some (srv_time (shared p') + ns_of_secs kFeedKeyTtl))) \<and>
    pg_master (shared p') = pg_master (shared p) \<and> rb (shared p') = rb (shared p)"
proof -
  obtain a w' where s: "serve (feed_put u built) (shared p) = (a, w')" by fastforce
  let ?p = "p\<lparr>shared := w', threads := (threads p)(i \<mapsto> hear a th), history := history p @ [(i, feed_put u built, a, srv_time w')]\<rparr>"
  have "pool_step iter p ?p" using pool_step.served [OF assms(1,2) s] .
  then have "pool_reach iter p ?p" by (simp add: pool_reach_def)
  with s assms(3) show ?thesis
    by (intro exI [of _ ?p]) (auto simp: feed_put_def ref_redis_def command_def Let_def no_more_faults_def map_prod_def srv_time_def)
qed

subsection \<open>What the request leaves alone, and what the delivery does\<close>

lemma until_put_call_apart:
  fixes f :: "system_world \<Rightarrow> 'b"
  assumes "beside_redis f" and "\<And>ts q. call_apart f (pg_select_slave ref_pg ts q)"
  shows "call_apart f (until_put iter stack_recommend u)"
proof -
  have c: "client_apart f (rr_client redis0)" using ref_redis_apart [OF assms(1)] by (simp add: redis0_def)
  have k: "f (w\<lparr>sys_clk := k\<rparr>) = f w" for w k using assms(1) by (simp add: beside_redis_def)
  note m = redis_methods_apart [OF c] redis_MarkSeenUtc_apart [OF c k] ttl_calls_apart [OF k]
  note src = pg_sources_apart [OF assms(2), unfolded sources_apart_def]
  show ?thesis
    unfolding until_put_def FetchSources_def fetch_popular_def fetch_gpt_def fetch_similar_def Let_def stack_recommend_def
      redis_recommend_simps redis_cache_port_def redis_side_port_def redis_visit_port_def cache_port.simps side_port.simps
      visit_port.simps redis_TryGetGptRanked_def redis_TryGetSimilar_def redis_TryGetPopularGlobal_def
    by (intro call_apart_bindE call_apart_cases m call_apart_basic) (use src in auto)
qed

lemma until_put_apart:
  fixes w :: system_world
  assumes "until_put iter stack_recommend u w = (r, w')"
  shows "rb w' = rb w" and "pg_master w' = pg_master w"
  using call_apartD [OF until_put_call_apart assms] beside_redis_parts ref_select_apart by blast+

lemma deliver_drops_feed:
  assumes "no_more_faults w" and "worker_queue w = ToString ref_json (action_doc q) # ms" and "\<not> has_row q (pg_master w)"
    and "storable w q"
  shows "\<exists>w'. sys_step iter w w' \<and> worker_queue w' = ms \<and> has_row q (pg_master w') \<and> no_more_faults w' \<and>
    redis_cached kv ref_json w' (ap_user_id q) = None"
proof -
  let ?m = "ToString ref_json (action_doc q)"
  have "?m \<in> set (worker_queue w)" using assms(2) by simp
  from deliver_one [OF assms(1) this assms(4)] obtain v where run: "store_action worker0 q w = (Inr (), v)"
    and v: "no_more_faults v" "sys_step iter w (take_message ?m v)" "has_row q (pg_master v)" by metis
  have "redis_server (rr_client redis0) kv srv_time" by (simp add: redis0_def ref_redis.redis_server_axioms)
  from store_action_invalidates [OF worker0_pg worker0_apart uc_worker0(2) this run assms(3)]
  have "kv v (FeedKey (ap_user_id q)) = None" by (auto simp: key_defs)
  moreover have "worker_queue v = worker_queue w" using store_action_parts(1) [OF run] by (simp add: worker_queue_def)
  ultimately show ?thesis using v assms(2)
    by (intro exI [of _ "take_message ?m v"]) (simp add: redis_cached_def feeds_of_def)
qed

text \<open>Without a feed in the cache a feed is built.\<close>

lemma until_put_builds:
  fixes w :: system_world
  assumes "redis_cached kv ref_json w u = None" and "until_put iter stack_recommend u w = (Inr x, w')"
  shows "\<exists>built. x = Inr built"
proof -
  note keeps = stack_recommend.frames [THEN keepsD]
  have none: "redis_cached kv ref_json b u = None"
    if "redis_cached kv ref_json b \<subseteq>\<^sub>m redis_cached kv ref_json a" "redis_cached kv ref_json a u = None"
    for a b :: system_world
    using that by (metis domIff map_le_def)
  from assms(2) obtain prev w1 inv w2 w3 w4 r w5 where
    a: "LastSeenUtc (rs_visits stack_recommend) u w = (Inr prev, w1)" "ShouldInvalidateFeed_call prev w1 = (Inr inv, w2)"
      "(if inv then DropFeed (rs_cache stack_recommend) u else ret ()) w2 = (Inr (), w3)"
      "MarkSeenUtc (rs_visits stack_recommend) u w3 = (Inr (), w4)"
    and g: "TryGetFeed (rs_cache stack_recommend) u w4 = (Inr r, w5)"
    and rest: "r = None \<Longrightarrow> \<exists>s w6. FetchSources stack_recommend u w5 = (Inr s, w6) \<and>
      x = Inr (TakeTop (FanOutMerge iter s) kGptRecommendationIds)"
    unfolding until_put_def by (elim bindE_InrE) (fastforce elim!: bindE_InrE split: option.splits)
  have "redis_cached kv ref_json w1 u = None" using none [OF _ assms(1)] keeps(1) [OF a(1)] by blast
  then have "redis_cached kv ref_json w2 u = None" using none keepsD [OF stack_recommend.keeps_ttl_calls(1) a(2)] by blast
  then have "redis_cached kv ref_json w3 u = None"
    using a(3) stack_recommend.drop_feed by (cases inv) auto
  then have "redis_cached kv ref_json w4 u = None" using none keeps(2) [OF a(4)] by blast
  with stack_recommend.get_feed [of u w4 _ w5] g have "r = None" by (cases r) auto
  with rest show ?thesis by blast
qed

end
