(* ===== verification/Stale_Feed.thy ===== *)
theory Stale_Feed
  imports Races
begin

text \<open>
  What becomes of the old feed that a late request has stored. A delivery deletes the feed of the user and
  the visit, and without a visit the next request drops whatever feed there is. But when another request of
  the user has marked a visit before the late one stores its feed, the requests after it are answered
  from the old feed. Here is that run: on servers that do not fail, with a clock that stands still.
\<close>

subsection \<open>Worlds without failures in which little time passes\<close>

text \<open>The clock reads \<open>now\<close>, and that of the Redis server stays below \<open>L\<close>.\<close>

definition lasting :: "time \<Rightarrow> time \<Rightarrow> system_world \<Rightarrow> bool" where
  "lasting now L w \<longleftrightarrow> no_more_faults w \<and> readings (sys_clk w) = (\<lambda>_. now) \<and> (\<forall>n. readings (srv_clk w) n < L)"

lemma srv_time_less: "(\<And>n. readings (srv_clk w) n < L) \<Longrightarrow> srv_time w < L"
  by (auto simp: srv_time_def)

lemma lasting_command:
  assumes "lasting now L w"
  shows "\<exists>w'. command f w = (Inr (fst (f (srv_time w') (kv w))), w') \<and> kv w' = snd (f (srv_time w') (kv w)) \<and>
    lasting now L w' \<and> srv_time w \<le> srv_time w' \<and> srv_time w' < L"
proof -
  let ?w1 = "w\<lparr>srv_clk := tick (srv_clk w), commands := Suc (commands w)\<rparr>"
  let ?w' = "?w1\<lparr>kv := snd (f (srv_time ?w1) (kv w))\<rparr>"
  have L: "lasting now L ?w'" using assms by (auto simp: lasting_def no_more_faults_def tick_def)
  have "command f w = (Inr (fst (f (srv_time ?w1) (kv w))), ?w')"
    using assms by (simp add: command_def lasting_def no_more_faults_def Let_def split: prod.split)
  moreover have "srv_time ?w' < L" using L by (intro srv_time_less) (simp add: lasting_def)
  ultimately show ?thesis using L srv_time_tick [of w "Suc (commands w)"] by (intro exI [of _ ?w']) simp
qed

text \<open>Programs that return there.\<close>

definition lasts :: "time \<Rightarrow> time \<Rightarrow> ('a, system_world) prog \<Rightarrow> bool" where
  "lasts now L m \<longleftrightarrow> (\<forall>w. lasting now L w \<longrightarrow>
     (\<exists>x w'. m w = (Inr x, w') \<and> lasting now L w' \<and> srv_time w \<le> srv_time w'))"

lemma lastsD: "lasts now L m \<Longrightarrow> lasting now L w \<Longrightarrow> \<exists>x w'. m w = (Inr x, w') \<and> lasting now L w' \<and> srv_time w \<le> srv_time w'"
  by (simp add: lasts_def)

lemma lasts_bindE: "lasts now L m \<Longrightarrow> (\<And>x. lasts now L (f x)) \<Longrightarrow> lasts now L (bindE m f)"
  unfolding lasts_def by (metis bindE_Inr order_trans)

lemma lasts_try_catch: "lasts now L m \<Longrightarrow> lasts now L (try_catch m h)"
  unfolding lasts_def by (metis try_catch_Inr)

lemma lasts_branch:
  "lasts now L m \<Longrightarrow> lasts now L m' \<Longrightarrow> lasts now L (if b then m else m')"
  "lasts now L m \<Longrightarrow> (\<And>x. lasts now L (f x)) \<Longrightarrow> lasts now L (case v of None \<Rightarrow> m | Some x \<Rightarrow> f x)"
  "(\<And>e. lasts now L (g e)) \<Longrightarrow> (\<And>y. lasts now L (k y)) \<Longrightarrow> lasts now L (case z of Inl e \<Rightarrow> g e | Inr y \<Rightarrow> k y)"
  "lasts now L m \<Longrightarrow> lasts now L m' \<Longrightarrow> (\<And>s. lasts now L (j s)) \<Longrightarrow>
    lasts now L (case l of TtlNoKey \<Rightarrow> m | TtlNoExpiration \<Rightarrow> m' | TtlExpire s \<Rightarrow> j s)"
  by (simp_all split: option.split sum.split ttl_reply.split)

lemma lasts_redis:
  "lasts now L (r_Get ref_redis k)" "lasts now L (r_Setex ref_redis k ttl v)" "lasts now L (r_Del ref_redis k)"
  "lasts now L (r_Ttl ref_redis k)" "lasts now L (r_Expire ref_redis k ttl)"
  unfolding lasts_def ref_redis_def redis_client.simps using lasting_command by blast+

lemma lasts_quiet: "lasts now L (ret x)" "lasts now L sys_now"
  by (auto simp: lasts_def lasting_def no_more_faults_def srv_time_def tick_def)

lemmas lasts_rules = lasts_bindE lasts_try_catch lasts_branch lasts_redis lasts_quiet

lemma lasts_methods:
  "lasts now L (redis_LastSeenUtc redis0 u)" "lasts now L (ShouldInvalidateFeed_call v)"
  "lasts now L (redis_DropFeed redis0 u)" "lasts now L (ClassifyVisit_call v)" "lasts now L (redis_TouchFeed redis0 u e)"
  unfolding redis_defs redis0_simps ShouldInvalidateFeed_call_def ClassifyVisit_call_def Let_def try_catch_pure
  by (intro lasts_rules)+

subsection \<open>The visit and the feed in Redis\<close>

definition visit_cell :: "time \<Rightarrow> time \<Rightarrow> cell" where
  "visit_cell now d = Some (int_to_string (now div ns_per_ms), Some d)"

lemma marks_visit:
  assumes "lasting now L w" and "0 \<le> now"
  shows "\<exists>w' d. redis_MarkSeenUtc redis0 u w = (Inr (), w') \<and> kv w' = (kv w)(VisitLastKey u := visit_cell now d) \<and>
    lasting now L w' \<and> srv_time w + ns_of_secs default_visit_ledger_ttl \<le> d"
proof -
  let ?w = "w\<lparr>sys_clk := tick (sys_clk w)\<rparr>"
  let ?f = "\<lambda>t m. ((), m(VisitLastKey u \<mapsto> (int_to_string (now div ns_per_ms), Some (t + ns_of_secs default_visit_ledger_ttl))))"
  have now: "peek (sys_clk w) = now" using assms(1) by (simp add: lasting_def peek_def)
  have L: "lasting now L ?w" using assms(1) by (simp add: lasting_def no_more_faults_def tick_def)
  have "redis_MarkSeenUtc redis0 u w = command ?f ?w"
    using assms(2) by (simp add: redis_MarkSeenUtc_def redis0_def ref_redis_def ms_of_time_def now Let_def)
  with lasting_command [OF L, of ?f] show ?thesis by (fastforce simp: visit_cell_def srv_time_def)
qed

lemma reads_visit:
  assumes "lasting now L w" and "0 \<le> now" and "now < 2 ^ 63" and "kv w (VisitLastKey u) = visit_cell now d" and "L \<le> d"
  shows "\<exists>w'. redis_LastSeenUtc redis0 u w = (Inr (Some (now div ns_per_ms * ns_per_ms)), w') \<and> kv w' = kv w \<and> lasting now L w'"
proof -
  obtain w' where g: "r_Get ref_redis (VisitLastKey u) w = (Inr (visible (srv_time w') (kv w (VisitLastKey u))), w')"
    and w': "kv w' = kv w" "lasting now L w'" "srv_time w' < L"
    using lasting_command [OF assms(1), of "\<lambda>t m. (visible t (m (VisitLastKey u)), m)"] by (auto simp: ref_redis_def)
  have "visible (srv_time w') (kv w (VisitLastKey u)) = Some (int_to_string (now div ns_per_ms))"
    using w'(3) assms(4,5) by (simp add: visit_cell_def)
  moreover have "0 \<le> now div ns_per_ms" using assms(2) by (simp add: ns_per_ms_def pos_imp_zdiv_nonneg_iff)
  ultimately show ?thesis using g w' visit_text [OF assms(2,3)]
    by (simp add: redis_LastSeenUtc_def Let_def)
qed

lemma reads_feed:
  assumes "lasting now L w" and "kv w (FeedKey u) = Some (IdsToJson ref_json ids, Some d)" and "L \<le> d"
  shows "\<exists>w' s. redis_TryGetFeed redis0 u w = (Inr (Some \<lparr>product_ids = ids, ttl_remaining = s\<rparr>), w') \<and> lasting now L w'"
proof -
  obtain w1 where g: "r_Get ref_redis (FeedKey u) w = (Inr (visible (srv_time w1) (kv w (FeedKey u))), w1)"
    and w1: "kv w1 = kv w" "lasting now L w1" "srv_time w1 < L"
    using lasting_command [OF assms(1), of "\<lambda>t m. (visible t (m (FeedKey u)), m)"] by (auto simp: ref_redis_def)
  obtain w2 where t: "r_Ttl ref_redis (FeedKey u) w1 = (Inr (ref_ttl (srv_time w2) (kv w1 (FeedKey u))), w2)"
    and w2: "lasting now L w2" "srv_time w2 < L"
    using lasting_command [OF w1(2), of "\<lambda>t m. (ref_ttl t (m (FeedKey u)), m)"] by (auto simp: ref_redis_def)
  obtain s where "ref_ttl (srv_time w2) (kv w1 (FeedKey u)) = TtlExpire s"
    using w1(1) w2(2) assms(2,3) by (auto simp: ref_ttl_def)
  moreover have "visible (srv_time w1) (kv w (FeedKey u)) = Some (IdsToJson ref_json ids)"
    using w1(3) assms(2,3) by simp
  ultimately show ?thesis using g t w2(1)
    by (simp add: redis_TryGetFeed_def JsonToIds_IdsToJson Let_def)
qed

subsection \<open>A request that marks the visit\<close>

text \<open>After its visit is marked, a request leaves the visit alone, whatever becomes of it.\<close>

lemma redis_beside_visit:
  fixes u
  defines "f \<equiv> \<lambda>w :: system_world. kv w (VisitLastKey u)"
  shows "call_apart f (r_Get ref_redis k)" "call_apart f (r_Ttl ref_redis k)"
    and "k \<noteq> VisitLastKey u \<Longrightarrow> call_apart f (r_Del ref_redis k)"
    and "k \<noteq> VisitLastKey u \<Longrightarrow> call_apart f (r_Setex ref_redis k ttl v)"
    and "k \<noteq> VisitLastKey u \<Longrightarrow> call_apart f (r_Expire ref_redis k ttl)"
    and "call_apart f (pg_select_slave ref_pg ts q)" and "call_apart f (ClassifyVisit_call x)"
proof -
  show "call_apart f (pg_select_slave ref_pg ts q)"
    unfolding call_apart_def f_def by (metis call_apartD ref_select_apart(1))
  show "call_apart f (ClassifyVisit_call x)" by (rule ttl_calls_apart) (simp add: f_def)
qed (auto simp: call_apart_def f_def ref_redis_def elim!: commandE split: option.splits)

lemma tail_beside_visit:
  "call_apart (\<lambda>w :: system_world. kv w (VisitLastKey u)) (case cached of
       Some entry \<Rightarrow>
         bindE (ClassifyVisit_call prev) (\<lambda>recency.
         bindE (TouchFeed (rs_cache stack_recommend) u (ExtendFeedTtlOnHit recency)) (\<lambda>_.
         ret (TakeTop (product_ids entry) kFeedListSize)))
     | None \<Rightarrow> rebuild_feed iter stack_recommend u)"
proof -
  note src = pg_sources_apart [OF redis_beside_visit(6), of u, unfolded sources_apart_def]
  have ttl: "call_apart f (case l of TtlNoKey \<Rightarrow> m | TtlNoExpiration \<Rightarrow> m' | TtlExpire s \<Rightarrow> j s)"
    if "call_apart f m" "call_apart f m'" "\<And>s. call_apart f (j s)" for f :: "system_world \<Rightarrow> cell" and l m m' j
    using that by (simp split: ttl_reply.split)
  show ?thesis
    unfolding rebuild_feed_def FetchSources_def fetch_popular_def fetch_gpt_def fetch_similar_def Let_def stack_recommend_def
      redis_recommend_simps redis_cache_port_def redis_side_port_def cache_port.simps side_port.simps redis_defs
      redis0_simps
    by (intro call_apart_bindE call_apart_cases ttl call_apart_basic redis_beside_visit key_neq similar_neq)
      (use src in auto)
qed

lemma request_marks:
  assumes "lasting now L w" and "0 \<le> now" and "GetArg req ''user_id'' = u" and "u \<noteq> []"
    and "RecommendHandler_HandleRequestThrow ref_json iter stack_recommend req w = (r, w')"
  shows "\<exists>d. kv w' (VisitLastKey u) = visit_cell now d \<and> srv_time w + ns_of_secs default_visit_ledger_ttl \<le> d"
proof -
  let ?S = "stack_recommend :: system_world recommendation_service"
  have S: "LastSeenUtc (rs_visits ?S) u = redis_LastSeenUtc redis0 u" "MarkSeenUtc (rs_visits ?S) u = redis_MarkSeenUtc redis0 u"
    "DropFeed (rs_cache ?S) u = redis_DropFeed redis0 u"
    by (simp_all add: stack_recommend_def redis_visit_port_def redis_cache_port_def)
  obtain prev w1 where a: "redis_LastSeenUtc redis0 u w = (Inr prev, w1)" "lasting now L w1" "srv_time w \<le> srv_time w1"
    using lastsD [OF lasts_methods(1) assms(1)] by blast
  obtain inv w2 where b: "ShouldInvalidateFeed_call prev w1 = (Inr inv, w2)" "lasting now L w2" "srv_time w1 \<le> srv_time w2"
    using lastsD [OF lasts_methods(2) a(2)] by blast
  have "lasts now L (if inv then redis_DropFeed redis0 u else ret ())" by (intro lasts_rules lasts_methods)
  from lastsD [OF this b(2)] obtain w3 where c: "(if inv then redis_DropFeed redis0 u else ret ()) w2 = (Inr (), w3)"
    "lasting now L w3" "srv_time w2 \<le> srv_time w3" by auto
  obtain w4 d where m: "redis_MarkSeenUtc redis0 u w3 = (Inr (), w4)" "kv w4 (VisitLastKey u) = visit_cell now d"
    "srv_time w3 + ns_of_secs default_visit_ledger_ttl \<le> d"
    using marks_visit [OF c(2) assms(2), of u] by auto
  let ?tail = "\<lambda>x. bindE (bindE (TryGetFeed (rs_cache ?S) u) (\<lambda>cached. case cached of
       Some entry \<Rightarrow>
         bindE (ClassifyVisit_call prev) (\<lambda>recency.
         bindE (TouchFeed (rs_cache ?S) u (ExtendFeedTtlOnHit recency)) (\<lambda>_.
         ret (TakeTop (product_ids entry) kFeedListSize)))
     | None \<Rightarrow> rebuild_feed iter ?S u)) (\<lambda>items. ret (reply kOk (ToString ref_json (items_doc items))))"
  have "call_apart (\<lambda>w :: system_world. kv w (VisitLastKey u)) (TryGetFeed (rs_cache ?S) u)"
    unfolding stack_recommend_def redis_recommend_simps redis_cache_port_def cache_port.simps redis_defs redis0_simps Let_def
    by (intro call_apart_bindE call_apart_cases call_apart_basic redis_beside_visit key_neq)
      (simp split: ttl_reply.split)
  then have "call_apart (\<lambda>w :: system_world. kv w (VisitLastKey u)) (?tail ())"
    by (intro call_apart_bindE tail_beside_visit call_apart_basic)
  moreover have "?tail () w4 = (r, w')"
    using assms(3-5) a(1) b(1) c(1) m(1)
    by (simp add: RecommendHandler_HandleRequestThrow_def GetRecommendations_def S bindE_assoc Let_def
        cong: if_cong option.case_cong)
  ultimately have "kv w' (VisitLastKey u) = visit_cell now d" using call_apartD m(2) by fastforce
  with m(3) a(3) b(3) c(3) show ?thesis by auto
qed

subsection \<open>A request that is answered from the feed\<close>

lemma served_from_feed:
  assumes "lasting now L w" and "0 \<le> now" and "now < 2 ^ 63" and "kv w (VisitLastKey u) = visit_cell now d" and "L \<le> d"
    and "kv w (FeedKey u) = Some (IdsToJson ref_json ids, Some d')" and "L \<le> d'"
  shows "\<exists>w'. GetRecommendations iter stack_recommend u w = (Inr (TakeTop ids kFeedListSize), w')"
proof -
  let ?S = "stack_recommend :: system_world recommendation_service"
  let ?prev = "now div ns_per_ms * ns_per_ms"
  have S: "LastSeenUtc (rs_visits ?S) u = redis_LastSeenUtc redis0 u" "MarkSeenUtc (rs_visits ?S) u = redis_MarkSeenUtc redis0 u"
    "TryGetFeed (rs_cache ?S) u = redis_TryGetFeed redis0 u" "TouchFeed (rs_cache ?S) u = redis_TouchFeed redis0 u"
    by (simp_all add: stack_recommend_def redis_visit_port_def redis_cache_port_def)
  obtain w1 where a: "redis_LastSeenUtc redis0 u w = (Inr (Some ?prev), w1)" "kv w1 = kv w" "lasting now L w1"
    using reads_visit [OF assms(1-5)] by blast
  let ?w2 = "w1\<lparr>sys_clk := tick (sys_clk w1)\<rparr>"
  have "now < ?prev + ns_per_day" by (simp add: ns_per_ms_def ns_per_day_def ns_of_secs_def ns_per_sec_def)
  then have b: "ShouldInvalidateFeed_call (Some ?prev) w1 = (Inr False, ?w2)"
    using a(3) by (simp add: ShouldInvalidateFeed_call_def bindE_def lasting_def peek_def)
  have "lasting now L ?w2" using a(3) by (simp add: lasting_def no_more_faults_def tick_def)
  from marks_visit [OF this assms(2), of u] obtain w3 e where c: "redis_MarkSeenUtc redis0 u ?w2 = (Inr (), w3)"
    "kv w3 = (kv w)(VisitLastKey u := visit_cell now e)" "lasting now L w3" using a(2) by auto
  then have "kv w3 (FeedKey u) = Some (IdsToJson ref_json ids, Some d')" using assms(6) by simp
  from reads_feed [OF c(3) this assms(7)] obtain w4 s where
    g: "redis_TryGetFeed redis0 u w3 = (Inr (Some \<lparr>product_ids = ids, ttl_remaining = s\<rparr>), w4)" "lasting now L w4" by blast
  have "lasts now L (bindE (ClassifyVisit_call (Some ?prev)) (\<lambda>recency.
      bindE (redis_TouchFeed redis0 u (ExtendFeedTtlOnHit recency)) (\<lambda>_. ret (TakeTop ids kFeedListSize))))"
    by (intro lasts_rules lasts_methods)
  from lastsD [OF this g(2)] obtain x w5 where t: "bindE (ClassifyVisit_call (Some ?prev)) (\<lambda>recency.
      bindE (redis_TouchFeed redis0 u (ExtendFeedTtlOnHit recency)) (\<lambda>_. ret (TakeTop ids kFeedListSize))) w4 = (Inr x, w5)"
    by blast
  then have "x = TakeTop ids kFeedListSize" by (auto elim!: bindE_InrE)
  with t a(1) c(1) g(1) show ?thesis by (simp add: GetRecommendations_def S
        bindE_Inr [of "ShouldInvalidateFeed_call (Some ?prev)" w1, OF b])
qed

subsection \<open>The run\<close>

lemma srv_clk_serve: "serve c w = (a, w') \<Longrightarrow> readings (srv_clk w') = readings (srv_clk w)"
  by (cases c) (auto simp: ref_redis_def command_def ref_pg_def ref_select_def ref_insert_def ref_rabbit_def
      broker_call_def Let_def map_prod_def tick_def split: prod.splits fault.splits sum.splits if_splits)

lemma srv_clk_step:
  assumes "pool_step iter p p'"
  shows "readings (srv_clk (shared p')) = readings (srv_clk (shared p)) \<and> srv_time (shared p) \<le> srv_time (shared p')"
  using assms
proof cases
  case (served i t c a w')
  with srv_clk_serve [OF served(4)] srv_time_serve [OF served(4)] show ?thesis by simp
qed (simp_all add: srv_time_def take_message_def)

lemma srv_clk_reach:
  assumes "pool_reach iter p p'"
  shows "readings (srv_clk (shared p')) = readings (srv_clk (shared p)) \<and> srv_time (shared p) \<le> srv_time (shared p')"
  using assms unfolding pool_reach_def
  by (induction rule: rtranclp_induct) (use srv_clk_step order_trans in \<open>(simp, metis)\<close>)

lemma pool_reach_trans: "pool_reach iter p q \<Longrightarrow> pool_reach iter q r \<Longrightarrow> pool_reach iter p r"
  unfolding pool_reach_def by (rule rtranclp_trans)

text \<open>The clock of the machine set to stand still.\<close>

definition stopped :: "time \<Rightarrow> pool \<Rightarrow> pool" where
  "stopped now p = p\<lparr>shared := (shared p)\<lparr>sys_clk := frozen now, steady_clk := steady_clk (shared p)\<rparr>\<rparr>"

lemma stopped_reach: "pool_reach iter p (stopped now p)"
  unfolding pool_reach_def stopped_def by (rule r_into_rtranclp) (rule pool_step.clock)

lemma stopped_simps [simp]:
  "threads (stopped now p) = threads p" "sys_clk (shared (stopped now p)) = frozen now" "kv (shared (stopped now p)) = kv (shared p)"
  "rb (shared (stopped now p)) = rb (shared p)" "pg_master (shared (stopped now p)) = pg_master (shared p)"
  "srv_time (shared (stopped now p)) = srv_time (shared p)" "idle (stopped now p) = idle p"
  by (simp_all add: stopped_def srv_time_def idle_def)

lemma stopped_lasting:
  assumes "pool_reach iter p p'" and "no_more_faults (shared p)" and "\<And>n. readings (srv_clk (shared p)) n < L"
  shows "lasting now L (shared (stopped now p'))"
  using no_more_faults_reach [OF assms(1,2)] srv_clk_reach [OF assms(1)] assms(3)
  by (simp add: lasting_def no_more_faults_def stopped_def)

text \<open>A request that runs by itself and marks the visit.\<close>

lemma visit_in_pool:
  assumes "idle p" and "lasting now L (shared p)" and "0 \<le> now" and "GetArg req ''user_id'' = u" and "u \<noteq> []"
  shows "\<exists>p' d. pool_reach iter p p' \<and> idle p' \<and> threads p \<subseteq>\<^sub>m threads p' \<and>
    pg_master (shared p') = pg_master (shared p) \<and> rb (shared p') = rb (shared p) \<and>
    kv (shared p') (VisitLastKey u) = visit_cell now d \<and> srv_time (shared p) + ns_of_secs default_visit_ledger_ttl \<le> d"
proof -
  obtain r w' where run: "RecommendHandler_HandleRequestThrow ref_json iter stack_recommend req (shared p) = (r, w')" by fastforce
  then have "sys_step iter (shared p) w'" by (rule sys_step.recommend)
  then obtain p' where p': "adds_settled iter p p'" "shared p' = w'"
    using reachable_in_pool [OF assms(1), of iter w'] by (auto simp: reachable_def)
  obtain x where "GetRecommendations iter stack_recommend u (shared p) = (x, w')"
    using run assms(4,5) by (auto simp: RecommendHandler_HandleRequestThrow_def bindE_def split: prod.splits sum.splits)
  note same = stack_recommend_apart [OF this]
  obtain d where "kv w' (VisitLastKey u) = visit_cell now d" "srv_time (shared p) + ns_of_secs default_visit_ledger_ttl \<le> d"
    using request_marks [OF assms(2-5) run] by blast
  with p' same show ?thesis by (intro exI [of _ p'] exI [of _ d]) (simp add: adds_settled_def)
qed

text \<open>The first request builds its feed, and the event is delivered.\<close>

lemma built_and_delivered:
  assumes "idle p" and "GetArg req ''user_id'' = ap_user_id q" and "ap_user_id q \<noteq> []"
    and put: "until_put iter stack_recommend (ap_user_id q) (shared p) = (Inr (Inr built), w1)"
    and "worker_queue (shared p) = ToString ref_json (action_doc q) # ms"
    and "\<not> has_row q (pg_master (shared p))" and "no_more_faults (shared p)" and "storable (shared p) q"
  shows "\<exists>p1 i th. pool_reach iter p p1 \<and> idle p1 \<and> threads p1 i = Some th \<and>
    waiting iter th = Some (feed_put (ap_user_id q) built) \<and> has_row q (pg_master (shared p1)) \<and>
    worker_queue (shared p1) = ms \<and> redis_cached kv ref_json (shared p1) (ap_user_id q) = None"
proof -
  note same = until_put_apart [OF put]
  obtain p0 i th where p0: "pool_reach iter p p0" "idle p0" "shared p0 = w1" "threads p0 i = Some th"
    "waiting iter th = Some (feed_put (ap_user_id q) built)" using waits_to_put [OF assms(1-3) put] by blast
  have "no_more_faults w1" "storable w1 q" using p0(1,3) no_more_faults_reach storable_reach assms(7,8) by blast+
  moreover have "worker_queue w1 = ToString ref_json (action_doc q) # ms" "\<not> has_row q (pg_master w1)"
    using same assms(5,6) by (simp_all add: worker_queue_def)
  ultimately obtain w2 where w2: "sys_step iter w1 w2" "worker_queue w2 = ms"
    "has_row q (pg_master w2)" "redis_cached kv ref_json w2 (ap_user_id q) = None"
    using deliver_drops_feed [of w1 q ms iter] by blast
  then obtain p1 where "adds_settled iter p0 p1" "shared p1 = w2"
    using reachable_in_pool [OF p0(2), of iter w2] p0(3) by (auto simp: reachable_def)
  with p0 w2 pool_reach_trans show ?thesis
    by (intro exI [of _ p1] exI [of _ i] exI [of _ th]) (auto simp: adds_settled_def map_le_def dom_def)
qed

text \<open>
  Another request of the user marks the visit, the first one stores its old feed, and a third one is answered
  from it.
\<close>

lemma stale_feed_served:
  assumes "idle p1" and "threads p1 i = Some th" and "waiting iter th = Some (feed_put u built)"
    and "GetArg req ''user_id'' = u" and "u \<noteq> []" and "0 \<le> now" and "now < 2 ^ 63"
    and "no_more_faults (shared p1)" and "\<And>n. readings (srv_clk (shared p1)) n < L"
    and "L \<le> srv_time (shared p1) + ns_of_secs kFeedKeyTtl"
  shows "\<exists>p2 p3 j t. pool_reach iter p1 p2 \<and> pg_master (shared p2) = pg_master (shared p1) \<and> rb (shared p2) = rb (shared p1) \<and>
    redis_cached kv ref_json (shared p2) u = Some built \<and> pool_reach iter p2 p3 \<and>
    threads p2 j = None \<and> threads p3 j = Some t \<and> th_task t = Recommend req \<and> readings (th_sys_clk t) = (\<lambda>_. now) \<and>
    result iter t = Some (Inr (Responded (reply kOk (ToString ref_json (items_doc (TakeTop built kFeedListSize))))))"
proof -
  have "pool_reach iter p1 p1" by (simp add: pool_reach_def)
  from stopped_lasting [OF this assms(8,9)] have last: "lasting now L (shared (stopped now p1))" .
  have "idle (stopped now p1)" using assms(1) by simp
  from visit_in_pool [OF this last assms(6,4,5), of iter] obtain pv d where
    v: "pool_reach iter (stopped now p1) pv" "idle pv" "threads p1 \<subseteq>\<^sub>m threads pv"
      "pg_master (shared pv) = pg_master (shared p1)" "rb (shared pv) = rb (shared p1)"
      "kv (shared pv) (VisitLastKey u) = visit_cell now d" "srv_time (shared p1) + ns_of_secs default_visit_ledger_ttl \<le> d"
    by auto
  have reach: "pool_reach iter p1 pv" using stopped_reach v(1) pool_reach_trans by blast
  have th: "threads pv i = Some th" using v(3) assms(2) by (auto simp: map_le_def dom_def)
  from late_put [OF th assms(3) no_more_faults_reach [OF reach assms(8)]] obtain p2 where
    p2: "pool_reach iter pv p2" "kv (shared p2) = (kv (shared pv))(FeedKey u \<mapsto>
      (IdsToJson ref_json built, Some (srv_time (shared p2) + ns_of_secs kFeedKeyTtl)))"
      "pg_master (shared p2) = pg_master (shared pv)" "rb (shared p2) = rb (shared pv)" by blast
  have r2: "pool_reach iter p1 p2" using pool_reach_trans [OF reach p2(1)] .
  have "ns_of_secs kFeedKeyTtl \<le> ns_of_secs default_visit_ledger_ttl"
    by (simp add: ns_of_secs_def ns_per_sec_def kFeedKeyTtl_def default_visit_ledger_ttl_def)
  then have d: "L \<le> d" using v(7) assms(10) by linarith
  have d': "L \<le> srv_time (shared p2) + ns_of_secs kFeedKeyTtl"
    using srv_clk_reach [OF r2] assms(10) by linarith
  have cells: "kv (shared (stopped now p2)) (VisitLastKey u) = visit_cell now d"
    "kv (shared (stopped now p2)) (FeedKey u) =
      Some (IdsToJson ref_json built, Some (srv_time (shared p2) + ns_of_secs kFeedKeyTtl))"
    using p2(2) v(6) by simp_all
  obtain w' where "GetRecommendations iter stack_recommend u (shared (stopped now p2)) = (Inr (TakeTop built kFeedListSize), w')"
    using served_from_feed [OF stopped_lasting [OF r2 assms(8,9)] assms(6,7) cells(1) d cells(2) d'] by blast
  then have "task_prog iter ref_servers (Recommend req) (shared (stopped now p2)) =
      (Inr (Responded (reply kOk (ToString ref_json (items_doc (TakeTop built kFeedListSize))))), w')"
    using assms(4,5) by (simp add: RecommendHandler_HandleRequestThrow_def bindE_def)
  moreover have "idle (stopped now p2)" using idle_reach [OF r2 assms(1)] by simp
  ultimately obtain p3 j t where p3: "pool_reach iter (stopped now p2) p3" "threads p2 j = None"
    "threads p3 = (threads p2)(j \<mapsto> t)" "th_task t = Recommend req"
    "result iter t = Some (Inr (Responded (reply kOk (ToString ref_json (items_doc (TakeTop built kFeedListSize))))))"
    "readings (th_sys_clk t) = (\<lambda>_. now)"
    using task_run [of "stopped now p2" "Recommend req" iter] by force
  have "pool_reach iter p2 p3" using stopped_reach p3(1) pool_reach_trans by blast
  moreover have "redis_cached kv ref_json (shared p2) u = Some built"
    using p2(2) by (simp add: redis_cached_def feeds_of_def JsonToIds_IdsToJson)
  ultimately show ?thesis using r2 p2(3,4) v(4,5) p3
    by (intro exI [of _ p2] exI [of _ p3] exI [of _ j] exI [of _ t]) simp
qed

end
