(* ===== verification/Static_Config.thy ===== *)
theory Static_Config
  imports App_Wiring Redis_Data
begin

text \<open>
  The static configuration of the components: the schemas they publish
  (\<^verbatim>\<open>GetStaticConfigSchema\<close> of \<^verbatim>\<open>src/infra/pg_rhythm_data.cpp\<close>,
  \<^verbatim>\<open>src/infra/redis_rhythm_data.cpp\<close>, \<^verbatim>\<open>src/infra/rabbitmq_event_publisher.cpp\<close>
  and \<^verbatim>\<open>src/workers/user_action_consumer.cpp\<close>) and the constructors that read it. How a
  scalar is read as an integer, and the options of the framework's base components, belong to
  the framework.
\<close>

subsection \<open>Schemas\<close>

datatype option_type = Type_string | Type_integer

record option_decl =
  od_name :: string
  od_type :: option_type
  od_default :: "string option"

abbreviation text_option :: "string \<Rightarrow> string option \<Rightarrow> option_decl" where
  "text_option k d \<equiv> \<lparr>od_name = k, od_type = Type_string, od_default = d\<rparr>"

definition PgRhythmData_schema :: "option_decl list" where
  "PgRhythmData_schema = [text_option ''postgres_name'' (Some ''rhythm-pg'')]"

definition RedisRhythmData_schema :: "option_decl list" where
  "RedisRhythmData_schema =
     [text_option ''redis_component'' (Some ''rhythm-redis''), text_option ''redis_db'' (Some ''rhythm-cache''),
      \<lparr>od_name = ''visit_ledger_ttl'', od_type = Type_integer, od_default = Some ''7776000''\<rparr>]"

definition RabbitMqEventPublisher_schema :: "option_decl list" where
  "RabbitMqEventPublisher_schema =
     [text_option ''rabbit_name'' None, text_option ''exchange'' None, text_option ''exchange_type'' (Some ''topic''),
      text_option ''queue'' None, text_option ''bind_routing_key'' (Some ''user.action'')]"

definition UserActionConsumer_schema :: "bool \<Rightarrow> option_decl list" where
  "UserActionConsumer_schema worker_with_redis =
     (if worker_with_redis
      then [text_option ''postgres_name'' None, text_option ''redis_cache_component'' (Some ''rhythm-redis-data'')]
      else [text_option ''postgres_name'' None])"

text \<open>
  A section read through a schema: what is declared, with the documented default where the
  section says nothing, and nothing else.
\<close>

fun documented :: "option_decl list \<Rightarrow> config \<Rightarrow> config" where
  "documented [] cfg k = None"
| "documented (d # ds) cfg k =
     (if k = od_name d then (case cfg k of None \<Rightarrow> od_default d | Some v \<Rightarrow> Some v) else documented ds cfg k)"

subsection \<open>The constructors\<close>

text \<open>\<open>as_int\<close> is the framework's conversion of a scalar to \<^verbatim>\<open>int\<close>.\<close>

definition cfg_As_int :: "(string \<Rightarrow> exn + int) \<Rightarrow> config \<Rightarrow> string \<Rightarrow> int \<Rightarrow> exn + int" where
  "cfg_As_int as_int cfg key d = (case cfg key of None \<Rightarrow> Inr d | Some v \<Rightarrow> as_int v)"

definition make_PgRhythmData :: "(string \<Rightarrow> exn + 'w pg_client) \<Rightarrow> config \<Rightarrow> exn + 'w pg_rhythm_data" where
  "make_PgRhythmData find_cluster cfg =
     bindS (find_cluster (cfg_As_default cfg ''postgres_name'' ''rhythm-pg'')) (\<lambda>cluster.
     Inr \<lparr>pg_cluster = cluster\<rparr>)"

text \<open>The component is found first, then its client for the group of the database.\<close>

definition make_RedisRhythmData ::
  "(string \<Rightarrow> exn + (string \<Rightarrow> exn + 'w redis_client)) \<Rightarrow> (string \<Rightarrow> exn + int) \<Rightarrow> json_lib \<Rightarrow> config \<Rightarrow>
   exn + 'w redis_rhythm_data" where
  "make_RedisRhythmData find_redis as_int J cfg =
     bindS (find_redis (cfg_As_default cfg ''redis_component'' ''rhythm-redis'')) (\<lambda>GetClient.
     bindS (GetClient (cfg_As_default cfg ''redis_db'' ''rhythm-cache'')) (\<lambda>client.
     bindS (cfg_As_int as_int cfg ''visit_ledger_ttl'' default_visit_ledger_ttl) (\<lambda>ttl.
     Inr \<lparr>rr_client = client, rr_visit_last_ttl = ttl, rr_json = J\<rparr>)))"

definition make_UserActionConsumer ::
  "bool \<Rightarrow> (string \<Rightarrow> exn + 'w pg_client) \<Rightarrow> (string \<Rightarrow> exn + 'w redis_rhythm_data) \<Rightarrow> config \<Rightarrow>
   exn + 'w user_action_consumer" where
  "make_UserActionConsumer worker_with_redis find_cluster find_cache cfg =
     bindS (cfg_As cfg ''postgres_name'') (\<lambda>name.
     bindS (find_cluster name) (\<lambda>cluster.
     if worker_with_redis
     then bindS (find_cache (cfg_As_default cfg ''redis_cache_component'' ''rhythm-redis-data'')) (\<lambda>cache.
          Inr \<lparr>uc_pg = cluster, uc_redis_cache = Some cache\<rparr>)
     else Inr \<lparr>uc_pg = cluster, uc_redis_cache = None\<rparr>))"

subsection \<open>Properties\<close>

lemmas schema_defs = PgRhythmData_schema_def RedisRhythmData_schema_def RabbitMqEventPublisher_schema_def
  UserActionConsumer_schema_def

text \<open>
  C40. The schemas tell what the constructors read: each of the four constructors builds the
  same component, or fails in the same way, when its section is replaced by what its schema
  declares of it with the documented defaults filled in. The two integers agree when the
  framework reads the numeral of the default as the number.
\<close>

theorem schema_documents_constructor:
  assumes "as_int ''7776000'' = Inr 7776000"
  shows "make_PgRhythmData find_pg (documented PgRhythmData_schema cfg) = make_PgRhythmData find_pg cfg \<and>
    make_RedisRhythmData find_redis as_int J (documented RedisRhythmData_schema cfg) =
      make_RedisRhythmData find_redis as_int J cfg \<and>
    make_RabbitMqEventPublisher find_rabbit (documented RabbitMqEventPublisher_schema cfg) =
      make_RabbitMqEventPublisher find_rabbit cfg \<and>
    make_UserActionConsumer b find_pg find_cache (documented (UserActionConsumer_schema b) cfg) =
      make_UserActionConsumer b find_pg find_cache cfg"
proof (intro conjI)
  let ?D = "documented RabbitMqEventPublisher_schema cfg"
  have reads: "cfg_As ?D ''rabbit_name'' = cfg_As cfg ''rabbit_name''" "cfg_As ?D ''exchange'' = cfg_As cfg ''exchange''"
    "cfg_As ?D ''queue'' = cfg_As cfg ''queue''"
    "cfg_As_default ?D ''exchange_type'' ''topic'' = cfg_As_default cfg ''exchange_type'' ''topic''"
    "cfg_As_default ?D ''bind_routing_key'' ''user.action'' = cfg_As_default cfg ''bind_routing_key'' ''user.action''"
    by (simp_all add: schema_defs cfg_As_def cfg_As_default_def split: option.split)
  show "make_RabbitMqEventPublisher find_rabbit ?D = make_RabbitMqEventPublisher find_rabbit cfg"
    unfolding make_RabbitMqEventPublisher_def reads ..
qed (simp_all add: schema_defs make_PgRhythmData_def make_RedisRhythmData_def make_UserActionConsumer_def cfg_As_def
    cfg_As_default_def cfg_As_int_def assms default_visit_ledger_ttl_def split: option.split)

theorem schema_documents_constructor_witness:
  "make_RedisRhythmData (\<lambda>n. Inr (\<lambda>db. Inr (ref_redis :: unit redis_world_scheme redis_client)))
     (\<lambda>v. if v = ''7776000'' then Inr 7776000 else Inl (Library_error v)) ref_json
     (documented RedisRhythmData_schema Map.empty) =
   Inr \<lparr>rr_client = ref_redis, rr_visit_last_ttl = 7776000, rr_json = ref_json\<rparr>"
  using schema_documents_constructor [of "\<lambda>v. if v = ''7776000'' then Inr 7776000 else Inl (Library_error v)"
      "\<lambda>_. Inl (Library_error [])" Map.empty
      "\<lambda>n. Inr (\<lambda>db. Inr (ref_redis :: unit redis_world_scheme redis_client))" ref_json "\<lambda>_. Inl (Library_error [])"
      True "\<lambda>_. Inl (Library_error [])", THEN conjunct2, THEN conjunct1]
  by (simp add: make_RedisRhythmData_def cfg_As_int_def cfg_As_default_def default_visit_ledger_ttl_def)

end
