(* ===== verification/Startup.thy ===== *)
theory Startup
  imports System Static_Config
begin

text \<open>
  The start of the programs: the framework constructs every component of the list from its
  section of the static configuration, then tells each that all are loaded; what one of them
  throws ends the program. Here the server is started with all three flags on the sections of
  \<^verbatim>\<open>configs/static_config_stack.yaml\<close> and the worker on those of
  \<^verbatim>\<open>configs/worker_static_config_with_redis.yaml\<close>: what comes up is the system of \<open>System\<close>.
\<close>

subsection \<open>When all components are loaded\<close>

datatype wait_mode = kNoWait | kMaster

text \<open>The argument of \<^verbatim>\<open>WaitConnectedOnce\<close>: for what, whether to throw, and how many milliseconds.\<close>

record redis_wait =
  wait_for :: wait_mode
  throw_on_fail :: bool
  wait_ms :: int

definition redis_OnAllComponentsLoaded :: "(redis_wait \<Rightarrow> (unit, 'w) prog) \<Rightarrow> (unit, 'w) prog" where
  "redis_OnAllComponentsLoaded WaitConnectedOnce =
     WaitConnectedOnce \<lparr>wait_for = kMaster, throw_on_fail = False, wait_ms = 8000\<rparr>"

text \<open>
  What the framework and the clients provide: a client of each server, the first of Redis for
  each group, the wait for Redis, the JSON library and the conversion of a scalar.
\<close>

record 'w outside =
  os_pg :: "'w pg_client"
  os_redis :: "string \<Rightarrow> exn + 'w redis_client"
  os_rabbit :: "'w rabbit_client"
  os_wait :: "redis_wait \<Rightarrow> (unit, 'w) prog"
  os_json :: json_lib
  os_as_int :: "string \<Rightarrow> exn + int"

definition on_loaded :: "'w outside \<Rightarrow> 'w process \<Rightarrow> component_type \<Rightarrow> (unit, 'w) prog" where
  "on_loaded E P c =
     (case c of
        RedisRhythmData \<Rightarrow> redis_OnAllComponentsLoaded (os_wait E)
      | RabbitMqEventPublisher \<Rightarrow> OnAllComponentsLoaded (pc_rabbit P)
      | _ \<Rightarrow> ret ())"

fun load_all :: "'w outside \<Rightarrow> 'w process \<Rightarrow> component_type list \<Rightarrow> (unit, 'w) prog" where
  "load_all E P [] = ret ()"
| "load_all E P (c # cs) = bindE (on_loaded E P c) (\<lambda>_. load_all E P cs)"

subsection \<open>Construction\<close>

text \<open>
  The components of the server behind the ports. What a flag switches off is not constructed, and the
  process keeps for it whatever it had, which no port looks at. \<open>sections\<close> gives the
  section of a component by its name.
\<close>

definition construct_server ::
  "build_flags \<Rightarrow> (string \<Rightarrow> config) \<Rightarrow> 'w outside \<Rightarrow> 'w process \<Rightarrow> exn + 'w process" where
  "construct_server flags sections E P =
     (let cl = pc_list P in
      bindS (if with_postgres flags
             then map_sum id (\<lambda>d. P\<lparr>pc_pg := d\<rparr>)
                    (make_PgRhythmData (\<lambda>n. found (FindComponent cl Postgres n) (os_pg E)) (sections ''rhythm-pg-data''))
             else Inr P) (\<lambda>P.
      bindS (if with_redis flags
             then map_sum id (\<lambda>d. P\<lparr>pc_redis := d\<rparr>)
                    (make_RedisRhythmData (\<lambda>n. found (FindComponent cl Redis n) (os_redis E)) (os_as_int E) (os_json E)
                      (sections ''rhythm-redis-data''))
             else Inr P) (\<lambda>P.
      if with_rabbitmq flags
      then map_sum id (\<lambda>d. P\<lparr>pc_rabbit := d\<rparr>)
             (make_RabbitMqEventPublisher (\<lambda>n. found (FindComponent cl RabbitMQ n) (os_rabbit E))
               (sections ''rhythm-event-publisher''))
      else Inr P)))"

text \<open>Then the handlers with their services.\<close>

definition construct_handlers ::
  "build_flags \<Rightarrow> 'x clocks_scheme process \<Rightarrow>
   exn + 'x clocks_scheme action_service \<times> 'x clocks_scheme recommendation_service \<times> 'x clocks_scheme product_service" where
  "construct_handlers flags P =
     bindS (ActionHandler_service flags P) (\<lambda>a.
     bindS (RecommendHandler_service flags P) (\<lambda>r.
     bindS (ProductHandler_service flags P) (\<lambda>p. Inr (a, r, p))))"

text \<open>\<open>order\<close> is the order in which the components are told that all are loaded.\<close>

definition server_start ::
  "build_flags \<Rightarrow> (string \<Rightarrow> config) \<Rightarrow> 'x clocks_scheme outside \<Rightarrow> 'x clocks_scheme process \<Rightarrow> component_type list \<Rightarrow>
   ('x clocks_scheme action_service \<times> 'x clocks_scheme recommendation_service \<times> 'x clocks_scheme product_service,
    'x clocks_scheme) prog" where
  "server_start flags sections E P0 order =
     bindE (pure_prog (bindS (construct_server flags sections E P0) (\<lambda>P.
       map_sum id (Pair P) (construct_handlers flags P)))) (\<lambda>(P, services).
     bindE (load_all E P order) (\<lambda>_. ret services))"

text \<open>The worker's consumer; its queue is an option that the framework's base class reads.\<close>

definition construct_worker ::
  "component_list \<Rightarrow> (string \<Rightarrow> config) \<Rightarrow> 'w outside \<Rightarrow> exn + 'w user_action_consumer \<times> string" where
  "construct_worker cl sections E =
     bindS (make_RedisRhythmData (\<lambda>n. found (FindComponent cl Redis n) (os_redis E)) (os_as_int E) (os_json E)
       (sections ''rhythm-redis-data'')) (\<lambda>cache.
     bindS (cfg_As (sections ''user-action-consumer'') ''queue'') (\<lambda>queue.
     bindS (make_UserActionConsumer True (\<lambda>n. found (FindComponent cl Postgres n) (os_pg E))
       (\<lambda>n. found (FindComponent cl RedisRhythmData n) cache) (sections ''user-action-consumer'')) (\<lambda>consumer.
     Inr (consumer, queue))))"

subsection \<open>The configurations\<close>

definition redis_section :: config where
  "redis_section = [''redis_component'' \<mapsto> ''rhythm-redis'', ''redis_db'' \<mapsto> ''rhythm-cache'',
     ''visit_ledger_ttl'' \<mapsto> ''7776000'']"

definition pg_section :: config where
  "pg_section = [''postgres_name'' \<mapsto> ''rhythm-pg'']"

definition publisher_section :: config where
  "publisher_section = [''rabbit_name'' \<mapsto> ''rhythm-rabbit'', ''exchange'' \<mapsto> ''rhythm.events'',
     ''exchange_type'' \<mapsto> ''topic'', ''queue'' \<mapsto> ''rhythm.user.action'', ''bind_routing_key'' \<mapsto> ''user.action'']"

definition consumer_section :: config where
  "consumer_section = [''rabbit_name'' \<mapsto> ''rhythm-rabbit'', ''queue'' \<mapsto> ''rhythm.user.action'',
     ''prefetch_count'' \<mapsto> ''4'', ''postgres_name'' \<mapsto> ''rhythm-pg'', ''redis_cache_component'' \<mapsto> ''rhythm-redis-data'']"

fun stack_sections :: "string \<Rightarrow> config" where
  "stack_sections name =
     (if name = ''rhythm-redis-data'' then redis_section
      else if name = ''rhythm-pg-data'' then pg_section
      else if name = ''rhythm-event-publisher'' then publisher_section
      else if name = ''user-action-consumer'' then consumer_section
      else Map.empty)"

definition stack_flags :: build_flags where
  "stack_flags = \<lparr>with_postgres = True, with_redis = True, with_rabbitmq = True\<rparr>"

subsection \<open>Loading on the reference servers\<close>

text \<open>The reference servers, with a wait for Redis and a conversion of scalars.\<close>

definition ref_outside ::
  "(redis_wait \<Rightarrow> (unit, system_world) prog) \<Rightarrow> (string \<Rightarrow> exn + int) \<Rightarrow> system_world outside" where
  "ref_outside wait as_int = \<lparr>os_pg = ref_pg, os_redis = (\<lambda>db. Inr ref_redis), os_rabbit = ref_rabbit, os_wait = wait,
     os_json = ref_json, os_as_int = as_int\<rparr>"

text \<open>What a start leaves alone: the tables, the store of Redis, what waits for the worker.\<close>

definition kept :: "system_world \<Rightarrow> database \<times> (string \<Rightarrow> cell) \<times> string list" where
  "kept w = (pg_master w, kv w, worker_queue w)"

abbreviation stack_publisher :: "system_world rabbit_publisher" where
  "stack_publisher \<equiv> publisher0 kTopic ''user.action''"

lemma broker_call_kept:
  assumes "\<And>b b'. f b = Inr b' \<Longrightarrow> case_option [] (\<lambda>ms. ms) (queues b' user_queue) = case_option [] (\<lambda>ms. ms) (queues b user_queue)"
  shows "call_apart kept (broker_call f)"
  by (auto simp: call_apart_def kept_def worker_queue_def broker_call_def Let_def dest: assms
      split: sum.splits fault.splits)

lemma declared_kept:
  "call_apart kept (DeclareExchange ref_rabbit x ty fl)" "call_apart kept (DeclareQueue ref_rabbit q fl)"
  "call_apart kept (BindQueue ref_rabbit x q k)"
  unfolding ref_rabbit_def rabbit_client.simps
  by (rule broker_call_kept; auto simp: queues_def split: if_splits option.splits)+

lemma publisher_kept: "call_apart kept (OnAllComponentsLoaded stack_publisher)"
  unfolding OnAllComponentsLoaded_def publisher0_simps by (intro call_apart_bindE declared_kept)

text \<open>A topology that was declared before is declared again without effect.\<close>

definition stays_declared :: "('a, system_world) prog \<Rightarrow> bool" where
  "stays_declared m \<longleftrightarrow> (\<forall>w r w'. topology stack_publisher (rb w) \<longrightarrow> m w = (r, w') \<longrightarrow> topology stack_publisher (rb w'))"

lemma stays_declared_bindE:
  assumes "stays_declared m" and "\<And>x. stays_declared (f x)"
  shows "stays_declared (bindE m f)"
proof (unfold stays_declared_def, intro allI impI)
  fix w r w' assume t: "topology stack_publisher (rb w)" and run: "bindE m f w = (r, w')"
  obtain x w1 where m: "m w = (x, w1)" by fastforce
  with assms(1) t have t1: "topology stack_publisher (rb w1)" unfolding stays_declared_def by blast
  show "topology stack_publisher (rb w')"
  proof (cases x)
    case (Inl e)
    with run m t1 show ?thesis by (simp add: bindE_def)
  next
    case (Inr y)
    with run m have "f y w1 = (r, w')" by (simp add: bindE_def)
    with assms(2) t1 show ?thesis unfolding stays_declared_def by blast
  qed
qed

lemma declarations_stay:
  "stays_declared (DeclareExchange ref_rabbit events_exchange kTopic [])" "stays_declared (DeclareQueue ref_rabbit q [])"
  "stays_declared (BindQueue ref_rabbit x q k)" "stays_declared (ret y)"
  by (auto simp: stays_declared_def topology_def ref_rabbit_def broker_call_def declared_durable_def queues_def Let_def
      split: fault.splits if_splits option.splits)

lemma publisher_stays: "stays_declared (OnAllComponentsLoaded stack_publisher)"
  unfolding OnAllComponentsLoaded_def publisher0_simps by (intro stays_declared_bindE declarations_stay)

text \<open>The program's own part of the start, for any order of loading and any wait that leaves the servers alone.\<close>

lemma on_loaded_keeps:
  assumes "pc_rabbit P = stack_publisher" and "\<And>x. call_apart kept (wait x)" and "\<And>x. call_apart rb (wait x)"
  shows "call_apart kept (on_loaded (ref_outside wait as_int) P c)" "stays_declared (on_loaded (ref_outside wait as_int) P c)"
proof -
  have "stays_declared (wait x)" for x using assms(3) unfolding stays_declared_def call_apart_def by metis
  then show "stays_declared (on_loaded (ref_outside wait as_int) P c)"
    by (cases c) (simp_all add: on_loaded_def redis_OnAllComponentsLoaded_def ref_outside_def assms(1) publisher_stays declarations_stay)
  show "call_apart kept (on_loaded (ref_outside wait as_int) P c)"
    by (cases c) (simp_all add: on_loaded_def redis_OnAllComponentsLoaded_def ref_outside_def assms(1,2) publisher_kept)
qed

lemma load_all_keeps:
  assumes "pc_rabbit P = stack_publisher" and "\<And>x. call_apart kept (wait x)" and "\<And>x. call_apart rb (wait x)"
  shows "call_apart kept (load_all (ref_outside wait as_int) P cs)" "stays_declared (load_all (ref_outside wait as_int) P cs)"
  by (induction cs) (auto intro: call_apart_bindE stays_declared_bindE on_loaded_keeps [OF assms] declarations_stay(4))

lemma load_all_declares:
  assumes "pc_rabbit P = stack_publisher" and "\<And>x. call_apart kept (wait x)" and "\<And>x. call_apart rb (wait x)"
    and "RabbitMqEventPublisher \<in> set cs" and "load_all (ref_outside wait as_int) P cs w = (Inr (), w')"
  shows "topology stack_publisher (rb w')"
  using assms(4,5)
proof (induction cs arbitrary: w)
  case (Cons c cs)
  then obtain w1 where c: "on_loaded (ref_outside wait as_int) P c w = (Inr (), w1)"
    and cs: "load_all (ref_outside wait as_int) P cs w1 = (Inr (), w')" by (auto elim!: bindE_InrE)
  show ?case
  proof (cases "c = RabbitMqEventPublisher")
    case True
    with c have "OnAllComponentsLoaded stack_publisher w = (Inr (), w1)" by (simp add: on_loaded_def assms(1))
    from ref_rabbit.topology_declared [OF _ this] have "topology stack_publisher (rb w1)" by simp
    moreover have "stays_declared (load_all (ref_outside wait as_int) P cs)" by (rule load_all_keeps(2) [OF assms(1-3)])
    ultimately show ?thesis using cs unfolding stays_declared_def by blast
  next
    case False
    with Cons cs show ?thesis by simp
  qed
qed simp

text \<open>A start that throws was stopped by the load of a component.\<close>

lemma load_all_throws:
  assumes "load_all E P cs w = (Inl e, w')"
  shows "\<exists>c \<in> {RedisRhythmData, RabbitMqEventPublisher} \<inter> set cs. \<exists>v v'. on_loaded E P c v = (Inl e, v')"
  using assms
proof (induction cs arbitrary: w)
  case (Cons c cs)
  show ?case
  proof (cases "on_loaded E P c w")
    case (Pair r w1)
    show ?thesis
    proof (cases r)
      case (Inl e')
      with Cons.prems Pair have "on_loaded E P c w = (Inl e, w1)" by (simp add: bindE_def)
      then show ?thesis by (cases c) (auto simp: on_loaded_def)
    next
      case (Inr x)
      with Cons Pair show ?thesis by (fastforce simp: bindE_def)
    qed
  qed
qed simp

subsection \<open>Construction from the configurations\<close>

lemma stack_constructed:
  assumes "as_int ''7776000'' = Inr 7776000" and "pc_list P = main_components (pc_fw P) minimal stack_flags"
    and "bp_gpt (pc_beans P) = stub_gpt_port"
  defines "P' \<equiv> P\<lparr>pc_pg := pg_data0, pc_redis := redis0, pc_rabbit := stack_publisher\<rparr>"
  shows "construct_server stack_flags stack_sections (ref_outside wait as_int) P = Inr P'"
    and "construct_handlers stack_flags P' = Inr (stack_action, stack_recommend, stack_product)"
proof -
  note c = make_PgRhythmData_def make_RedisRhythmData_def make_RabbitMqEventPublisher_def cfg_As_def cfg_As_default_def
    cfg_As_int_def redis_section_def pg_section_def publisher_section_def ParseExchangeType_def
  note l = assms(2) stack_flags_def list_defs found_def FindComponent_def
  show "construct_server stack_flags stack_sections (ref_outside wait as_int) P = Inr P'"
    by (simp add: construct_server_def ref_outside_def c l assms(1) P'_def pg_data0_def redis0_def publisher0_def
        default_visit_ledger_ttl_def Let_def)
  show "construct_handlers stack_flags P' = Inr (stack_action, stack_recommend, stack_product)"
    by (simp add: construct_handlers_def ActionHandler_service_def RecommendHandler_service_def ProductHandler_service_def
        port_defs l P'_def stack_action_def stack_recommend_def redis_recommend_def stack_product_def assms(3) Let_def)
qed

lemma stack_started:
  assumes "as_int ''7776000'' = Inr 7776000" and "pc_list P = main_components (pc_fw P) minimal stack_flags"
    and "bp_gpt (pc_beans P) = stub_gpt_port"
  shows "server_start stack_flags stack_sections (ref_outside wait as_int) P order =
    bindE (load_all (ref_outside wait as_int) (P\<lparr>pc_pg := pg_data0, pc_redis := redis0, pc_rabbit := stack_publisher\<rparr>) order)
      (\<lambda>_. ret (stack_action, stack_recommend, stack_product))"
  unfolding server_start_def stack_constructed(1) [where as_int = as_int, OF assms]
  by (simp add: fun_eq_iff stack_constructed(2) [where as_int = as_int, OF assms])

lemma worker_constructed:
  assumes "as_int ''7776000'' = Inr 7776000"
  shows "construct_worker (worker_components fw minimal True) stack_sections (ref_outside wait as_int) = Inr (worker0, user_queue)"
  by (simp add: construct_worker_def make_RedisRhythmData_def make_UserActionConsumer_def cfg_As_def cfg_As_default_def
      cfg_As_int_def redis_section_def consumer_section_def found_def FindComponent_def list_defs ref_outside_def assms
      worker0_def default_visit_ledger_ttl_def Let_def)

subsection \<open>Properties\<close>

text \<open>
  C11. The start of the programs as they are configured. On the sections of the repository the constructors
  never throw, whatever minimal list the framework has: the server gets its services on Redis,
  Postgres and RabbitMQ, the worker gets Postgres and the cache and consumes the queue the publisher
  declares. The start changes no table, no key and no waiting message, also when it fails or is a restart;
  when it returns, in whatever order the components are told that all are loaded, the
  topology is declared, so an empty system has come to the initial state of the properties of
  the system. Only the wait for Redis and the declarations can stop it. The wait is taken to leave the servers alone, and the
  framework to read the numeral 7776000 as the number.
\<close>

theorem stack_start_ready:
  assumes "as_int ''7776000'' = Inr 7776000" and "\<And>x. call_apart kept (wait x)" and "\<And>x. call_apart rb (wait x)"
    and "pc_list P = main_components (pc_fw P) minimal stack_flags" and "bp_gpt (pc_beans P) = stub_gpt_port"
    and "set order = fst ` set (pc_list P)"
    and "server_start stack_flags stack_sections (ref_outside wait as_int) P order w = (r, w')"
  shows "(pg_master w' = pg_master w \<and> kv w' = kv w \<and> worker_queue w' = worker_queue w) \<and>
    (\<forall>s. r = Inr s \<longrightarrow> s = (stack_action, stack_recommend, stack_product) \<and>
       topology (publisher0 kTopic ''user.action'' :: system_world rabbit_publisher) (rb w') \<and>
       (user_actions (pg_master w) = [] \<and> kv w = Map.empty \<and> worker_queue w = [] \<longrightarrow> sys_start w')) \<and>
    (\<forall>e. r = Inl e \<longrightarrow> (\<exists>c \<in> {RedisRhythmData, RabbitMqEventPublisher}. \<exists>P' v v'.
       on_loaded (ref_outside wait as_int) P' c v = (Inl e, v'))) \<and>
    construct_worker (worker_components (pc_fw P) minimal True) stack_sections (ref_outside wait as_int) =
      Inr (worker0, user_queue)"
proof -
  let ?E = "ref_outside wait as_int"
  let ?P = "P\<lparr>pc_pg := pg_data0, pc_redis := redis0, pc_rabbit := stack_publisher\<rparr>"
  have rabbit: "RabbitMqEventPublisher \<in> set order"
    by (simp add: assms(4,6) stack_flags_def list_defs)
  note start = stack_started [where as_int = as_int, OF assms(1,4,5), of wait order]
  obtain x where load: "load_all ?E ?P order w = (x, w')"
    and r: "r = map_sum id (\<lambda>_. (stack_action, stack_recommend, stack_product)) x"
    using assms(7) unfolding start by (auto simp: bindE_def split: sum.splits prod.splits)
  have "pc_rabbit ?P = stack_publisher" by simp
  note publisher = this
  have "kept w' = kept w" by (rule call_apartD [OF load_all_keeps(1) [OF publisher assms(2,3)] load])
  moreover have "topology stack_publisher (rb w')" if "x = Inr ()"
    by (rule load_all_declares [OF publisher assms(2,3) rabbit load [unfolded that]])
  moreover have "\<exists>c \<in> {RedisRhythmData, RabbitMqEventPublisher}. \<exists>v v'. on_loaded ?E ?P c v = (Inl e, v')" if "x = Inl e" for e
    using load_all_throws [of ?E ?P order w e w'] load that by blast
  ultimately show ?thesis
    using r worker_constructed [of as_int "pc_fw P" minimal wait] assms(1)
    by (cases x) (auto simp: kept_def sys_start_def)
qed

theorem stack_start_ready_witness:
  "\<forall>P :: system_world process. \<exists>w'.
     server_start stack_flags stack_sections (ref_outside (\<lambda>_. ret ()) (\<lambda>_. Inr 7776000))
       (P\<lparr>pc_list := main_components (pc_fw P) [] stack_flags, pc_beans := (pc_beans P)\<lparr>bp_gpt := stub_gpt_port\<rparr>\<rparr>)
       [Secdist, RabbitMqEventPublisher, RabbitMQ, RedisRhythmData, Redis, PgRhythmData, Postgres, DefaultSecdistProvider,
        DnsClient, ActionHandler, RecommendHandler, ProductHandler] (system_at [] [] 0 no_broker 0) =
     (Inr (stack_action, stack_recommend, stack_product), w') \<and> sys_start w'"
proof
  fix P :: "system_world process"
  let ?P = "P\<lparr>pc_list := main_components (pc_fw P) [] stack_flags, pc_beans := (pc_beans P)\<lparr>bp_gpt := stub_gpt_port\<rparr>\<rparr>"
  let ?w = "system_at [] [] 0 no_broker 0"
  let ?w' = "system_at [] [] 0 (broker0 kTopic ''user.action'' []) (Suc (Suc (Suc 0)))"
  let ?order = "[Secdist, RabbitMqEventPublisher, RabbitMQ, RedisRhythmData, Redis, PgRhythmData, Postgres,
    DefaultSecdistProvider, DnsClient, ActionHandler, RecommendHandler, ProductHandler]"
  have l: "pc_list ?P = main_components (pc_fw ?P) [] stack_flags" "bp_gpt (pc_beans ?P) = stub_gpt_port" by simp_all
  let ?E = "ref_outside (\<lambda>_. ret ()) (\<lambda>_. Inr 7776000)"
  note start = stack_started [where P = ?P and minimal = "[]" and as_int = "\<lambda>_. Inr 7776000", OF refl l]
  have run: "server_start stack_flags stack_sections ?E ?P ?order ?w =
      (Inr (stack_action, stack_recommend, stack_product), ?w')"
    unfolding start by (simp add: on_loaded_def redis_OnAllComponentsLoaded_def ref_outside_def publisher0_run bindE_def)
  have "set ?order = fst ` set (pc_list ?P)" by (auto simp: stack_flags_def list_defs)
  from stack_start_ready [OF _ _ _ l this run]
  have "sys_start ?w'" by (simp add: system_at_def worker_queue_def queues_def no_broker_def redis_world.defs)
  with run show "\<exists>w'. server_start stack_flags stack_sections (ref_outside (\<lambda>_. ret ()) (\<lambda>_. Inr 7776000)) ?P ?order ?w =
      (Inr (stack_action, stack_recommend, stack_product), w') \<and> sys_start w'" by blast
qed

end
