(* ===== verification/Broker_Restart.thy ===== *)
theory Broker_Restart
  imports Delivery
begin

text \<open>
  What a restart of the broker does to the system. The start of the publisher declares an exchange and
  a queue that are not durable and publishes transient messages, so the restart takes the topology
  away with every message that waits, and the running programs never declare it again: until the
  server is started anew no request is accepted and no delivery begins.
\<close>

subsection \<open>The restart\<close>

definition restart_broker :: "pool \<Rightarrow> pool" where
  "restart_broker p = p\<lparr>shared := (shared p)\<lparr>rb := broker_restart (rb (shared p))\<rparr>\<rparr>"

text \<open>Nothing left of what the publisher declared.\<close>

definition undeclared :: "system_world \<Rightarrow> bool" where
  "undeclared w \<longleftrightarrow> exchanges (rb w) events_exchange = None \<and> contents (rb w) user_queue = None"

lemma undeclared_queue: "undeclared w \<Longrightarrow> worker_queue w = []"
  by (simp add: undeclared_def worker_queue_def queues_def)

lemma restart_undeclared:
  assumes "sys_inv (shared p)"
  shows "undeclared (shared (restart_broker p))"
proof -
  have "topology (publisher0 kTopic ''user.action'' :: system_world rabbit_publisher) (rb (shared p))"
    using assms by (simp add: sys_inv_def broker_inv_def)
  from topology_lost [OF this] show ?thesis by (simp add: undeclared_def restart_broker_def)
qed

subsection \<open>What commands do to the broker and the tables\<close>

lemma broker_serve:
  assumes "allowed t c" and "serve c w = (a, w')"
  shows "rb w' = rb w \<and> (\<forall>q. (c, a) \<noteq> (publish_call q, AUnit (Inr ()))) \<or>
    (\<exists>ty rk body. exchanges (rb w) events_exchange = Some ty \<and>
      rb w' = deliver ref_matches ty events_exchange rk kTransient body (rb w)) \<or>
    rb w' = rb w \<and> exchanges (rb w) events_exchange \<noteq> None"
proof (cases c)
  case (CPublish x rk body mt)
  then have c: "x = events_exchange" "mt = kTransient" using assms(1) by (cases t; auto)+
  obtain r where "PublishReliable ref_rabbit x rk body mt w = (r, w')" and a: "a = AUnit r"
    using CPublish assms(2) by (auto simp: map_prod_def split: prod.splits)
  from ref_rabbit.publish_law [OF this(1)] c a show ?thesis by auto
next
  case (CInsert ts st)
  then show ?thesis using assms(2) ref_insert_apart(1) [THEN call_apartD]
    by (fastforce simp: publish_call_def map_prod_def split: prod.splits)
next
  case (CSelect ts q)
  then show ?thesis using assms(2) ref_select_apart(2) [THEN call_apartD]
    by (fastforce simp: publish_call_def map_prod_def split: prod.splits)
qed (use assms(1) serve_redis(2) [OF _ assms(2)] in \<open>cases t; auto simp: publish_call_def\<close>)+

lemma undeclared_serve:
  assumes "allowed t c" and "serve c w = (a, w')" and "undeclared w"
  shows "undeclared w'" and "(c, a) \<noteq> (publish_call q, AUnit (Inr ()))"
  using broker_serve [OF assms(1,2)] assms(3) by (auto simp: undeclared_def)

text \<open>Only a delivery changes the tables.\<close>

lemma tables_serve:
  assumes "allowed t c" and "serve c w = (a, w')" and "\<And>m. t \<noteq> Deliver m"
  shows "pg_master w' = pg_master w"
proof (cases c)
  case (CInsert ts st)
  then show ?thesis using assms(1,3) by (cases t) auto
next
  case (CSelect ts q)
  then show ?thesis using assms(2) ref_select_apart(3) [THEN call_apartD]
    by (auto simp: map_prod_def split: prod.splits)
next
  case (CPublish x rk body mt)
  then show ?thesis using assms(2)
    by (auto simp: map_prod_def ref_rabbit_def broker_call_def Let_def split: prod.splits sum.splits fault.splits)
qed (use assms(1) serve_redis(1) [OF _ assms(2)] in \<open>cases t; auto\<close>)+

subsection \<open>After the restart\<close>

text \<open>No delivery that is still to be answered.\<close>

definition none_delivers :: "(item list \<Rightarrow> item list) \<Rightarrow> pool \<Rightarrow> bool" where
  "none_delivers iter p \<longleftrightarrow> (\<forall>j d m. threads p j = Some d \<and> th_task d = Deliver m \<longrightarrow> waiting iter d = None)"

lemma undeclared_step:
  assumes "\<And>xs. mset (iter xs) = mset xs" and "pool_step iter p p'" and "undeclared (shared p)"
  shows "undeclared (shared p')"
    and "(i, publish_call q, AUnit (Inr ()), tm) \<in> set (history p') \<longleftrightarrow>
      (i, publish_call q, AUnit (Inr ()), tm) \<in> set (history p)"
    and "none_delivers iter p \<Longrightarrow> none_delivers iter p' \<and> pg_master (shared p') = pg_master (shared p)"
proof -
  have "undeclared (shared p') \<and> ((i, publish_call q, AUnit (Inr ()), tm) \<in> set (history p') \<longleftrightarrow>
      (i, publish_call q, AUnit (Inr ()), tm) \<in> set (history p)) \<and>
    (none_delivers iter p \<longrightarrow> none_delivers iter p' \<and> pg_master (shared p') = pg_master (shared p))"
    using assms(2)
  proof cases
    case (start j t c d)
    then have "t \<noteq> Deliver m" for m using undeclared_queue [OF assms(3)] by auto
    with start assms(3) show ?thesis by (auto simp: none_delivers_def)
  next
    case (served j t c a w')
    note ok = waiting_allowed(1) [OF assms(1) served(3)]
    have "th_task t \<noteq> Deliver m" if "none_delivers iter p" for m
      using that served(2,3) by (auto simp: none_delivers_def)
    with served tables_serve [OF ok served(4)] undeclared_serve [OF ok served(4) assms(3)] show ?thesis
      by (auto simp: none_delivers_def)
  next
    case (ack j t m x)
    with assms(3) show ?thesis by (simp add: undeclared_def none_delivers_def) (simp add: take_message_def)
  next
    case (clock c d)
    with assms(3) show ?thesis by (simp add: undeclared_def none_delivers_def)
  qed
  then show "undeclared (shared p')"
    and "(i, publish_call q, AUnit (Inr ()), tm) \<in> set (history p') \<longleftrightarrow>
      (i, publish_call q, AUnit (Inr ()), tm) \<in> set (history p)"
    and "none_delivers iter p \<Longrightarrow> none_delivers iter p' \<and> pg_master (shared p') = pg_master (shared p)" by blast+
qed

lemma undeclared_reach:
  assumes "\<And>xs. mset (iter xs) = mset xs" and "pool_reach iter p p'" and "undeclared (shared p)"
  shows "undeclared (shared p')"
    and "(i, publish_call q, AUnit (Inr ()), tm) \<in> set (history p') \<longleftrightarrow>
      (i, publish_call q, AUnit (Inr ()), tm) \<in> set (history p)"
    and "none_delivers iter p \<Longrightarrow> none_delivers iter p' \<and> pg_master (shared p') = pg_master (shared p)"
proof -
  have "undeclared (shared p') \<and> ((i, publish_call q, AUnit (Inr ()), tm) \<in> set (history p') \<longleftrightarrow>
      (i, publish_call q, AUnit (Inr ()), tm) \<in> set (history p)) \<and>
    (none_delivers iter p \<longrightarrow> none_delivers iter p' \<and> pg_master (shared p') = pg_master (shared p))"
    using assms(2) unfolding pool_reach_def
  proof (induction rule: rtranclp_induct)
    case (step y z)
    then have "undeclared (shared y)" by blast
    from undeclared_step [OF assms(1) step(2) this] step.IH show ?case by metis
  qed (simp add: assms(3))
  then show "undeclared (shared p')"
    and "(i, publish_call q, AUnit (Inr ()), tm) \<in> set (history p') \<longleftrightarrow>
      (i, publish_call q, AUnit (Inr ()), tm) \<in> set (history p)"
    and "none_delivers iter p \<Longrightarrow> none_delivers iter p' \<and> pg_master (shared p') = pg_master (shared p)" by blast+
qed

text \<open>No request that comes in after the restart is accepted.\<close>

lemma restart_accepts_nobody:
  assumes "\<And>xs. mset (iter xs) = mset xs" and "pool_reach iter (pool_of w) p" and "sys_inv (shared p)"
    and "pool_reach iter (restart_broker p) p'" and "threads p j = None" and "threads p' j = Some u"
  shows "\<not> accepted_post iter u q"
proof
  assume acc: "accepted_post iter u q"
  have same: "history (restart_broker p) = history p" "threads (restart_broker p) = threads p"
    by (simp_all add: restart_broker_def)
  have "told iter (history p') j (threads p' j)"
    by (rule told_kept [OF assms(4)]) (simp add: same told_reach [OF assms(2)])
  from accepted_told(2) [OF this [unfolded assms(6)] acc]
  obtain tm where "(j, publish_call q, AUnit (Inr ()), tm) \<in> set (history p')" by blast
  then have "(j, publish_call q, AUnit (Inr ()), tm) \<in> set (history p)"
    using undeclared_reach(2) [OF assms(1,4) restart_undeclared [OF assms(3)]] by (simp add: same)
  moreover have "answers_of j (history p) = []"
    using told_reach [OF assms(2), of j] by (simp add: told_def assms(5))
  ultimately show False by (auto simp: answers_of_def filter_empty_conv)
qed

subsection \<open>Transient messages\<close>

definition transient_queue :: "system_world \<Rightarrow> bool" where
  "transient_queue w \<longleftrightarrow> (\<forall>ms. contents (rb w) user_queue = Some ms \<longrightarrow> list_all (\<lambda>m. fst m = kTransient) ms)"

lemma transient_step:
  assumes "\<And>xs. mset (iter xs) = mset xs" and "pool_step iter p p'" and "transient_queue (shared p)"
  shows "transient_queue (shared p')"
  using assms(2)
proof cases
  case (served j t c a w')
  from broker_serve [OF waiting_allowed(1) [OF assms(1) served(3)] served(4)] assms(3) served(1)
  show ?thesis by (auto simp: transient_queue_def deliver_def split: if_splits)
next
  case (ack j t m x)
  with assms(3) set_remove_body [of m] show ?thesis
    by (auto simp: transient_queue_def take_message_def list_all_iff)
qed (use assms(3) in \<open>simp_all add: transient_queue_def\<close>)

lemma transient_reach:
  assumes "\<And>xs. mset (iter xs) = mset xs" and "sys_start w" and "pool_reach iter (pool_of w) p"
  shows "transient_queue (shared p)"
  using assms(3) unfolding pool_reach_def
proof (induction rule: rtranclp_induct)
  case base
  then show ?case using assms(2)
    by (auto simp: transient_queue_def sys_start_def worker_queue_def queues_def pool_of_def)
qed (rule transient_step [OF assms(1)])

text \<open>Were the queue durable, its messages would still be gone.\<close>

lemma restart_empties:
  assumes "transient_queue w"
  shows "queues (broker_restart ((rb w)\<lparr>durable_queues := D\<rparr>)) user_queue \<in> {None, Some []}"
proof (cases "contents (rb w) user_queue")
  case (Some ms)
  with assms have "filter (\<lambda>m. fst m = kPersistent) ms = []"
    by (auto simp: transient_queue_def list_all_iff filter_empty_conv)
  with Some show ?thesis by (simp add: broker_restart_def)
qed (simp add: broker_restart_def)

end
