(* ===== verification/Beans_Threads.thy ===== *)
theory Beans_Threads
  imports Dialogues Beans App_Wiring
begin

text \<open>
  The requests of the default build as threads. A binary without the flags keeps everything in the objects of
  \<^verbatim>\<open>app/beans.hpp\<close>, which all its requests share: an object with a mutex answers a call
  in one step, the stubs have no state, and between two calls other requests run. As in
  \<open>Threads\<close> the services run on ports that answer from a list.
\<close>

subsection \<open>Calls and answers\<close>

datatype beans_call =
    BLastSeen string | BMarkSeen string
  | BTryGetFeed string | BPutFeed string "int64 list" secs | BTouchFeed string secs | BDropFeed string
  | BTryGetGptRanked string | BPutGptRanked string "int64 list" secs
  | BTryGetSimilar int64 | BPutSimilar int64 "int64 list" secs
  | BTryGetPopularGlobal | BPutPopularGlobal "int64 list" secs
  | BInvalidateUserDerived string
  | BTryReserve string secs | BPublish string string

datatype beans_answer =
    RThrown exn | RSeen "time option" | RUnit unit | RFeed "feed_entry option" | RIds "int64 list option" | RBool bool

definition answered :: "('b \<Rightarrow> beans_answer) \<Rightarrow> (exn + 'b) \<times> 'w \<Rightarrow> beans_answer \<times> 'w" where
  "answered K x = (case x of (Inl e, w) \<Rightarrow> (RThrown e, w) | (Inr y, w) \<Rightarrow> (K y, w))"

text \<open>What the shared objects answer.\<close>

fun beans_serve :: "beans_call \<Rightarrow> beans_world \<Rightarrow> beans_answer \<times> beans_world" where
  "beans_serve (BLastSeen u) w = answered RSeen (LastSeenUtc ledger_port u w)"
| "beans_serve (BMarkSeen u) w = answered RUnit (MarkSeenUtc ledger_port u w)"
| "beans_serve (BTryGetFeed u) w = answered RFeed (TryGetFeed mem_cache_port u w)"
| "beans_serve (BPutFeed u ids ttl) w = answered RUnit (PutFeed mem_cache_port u ids ttl w)"
| "beans_serve (BTouchFeed u ext) w = answered RUnit (TouchFeed mem_cache_port u ext w)"
| "beans_serve (BDropFeed u) w = answered RUnit (DropFeed mem_cache_port u w)"
| "beans_serve (BTryGetGptRanked u) w = answered RIds (TryGetGptRanked mem_side_port u w)"
| "beans_serve (BPutGptRanked u ids ttl) w = answered RUnit (PutGptRanked mem_side_port u ids ttl w)"
| "beans_serve (BTryGetSimilar a) w = answered RIds (TryGetSimilar mem_side_port a w)"
| "beans_serve (BPutSimilar a ids ttl) w = answered RUnit (PutSimilar mem_side_port a ids ttl w)"
| "beans_serve BTryGetPopularGlobal w = answered RIds (TryGetPopularGlobal mem_side_port w)"
| "beans_serve (BPutPopularGlobal ids ttl) w = answered RUnit (PutPopularGlobal mem_side_port ids ttl w)"
| "beans_serve (BInvalidateUserDerived u) w = answered RUnit (InvalidateUserDerived mem_side_port u w)"
| "beans_serve (BTryReserve tok ttl) w = answered RBool (TryReserve mem_idempotency_port tok ttl w)"
| "beans_serve (BPublish rk body) w = answered RUnit (PublishJson log_queue_port rk body w)"

text \<open>An answer of the wrong kind, which no object gives, reads as an error.\<close>

definition odd_answer :: "beans_answer \<Rightarrow> exn + 'b" where
  "odd_answer a = (case a of RThrown e \<Rightarrow> Inl e | _ \<Rightarrow> Inl (Library_error ''answer of another kind''))"

fun seen_in :: "beans_answer \<Rightarrow> exn + time option" where
  "seen_in (RSeen x) = Inr x" | "seen_in a = odd_answer a"

fun unit_in :: "beans_answer \<Rightarrow> exn + unit" where
  "unit_in (RUnit x) = Inr x" | "unit_in a = odd_answer a"

fun feed_in :: "beans_answer \<Rightarrow> exn + feed_entry option" where
  "feed_in (RFeed x) = Inr x" | "feed_in a = odd_answer a"

fun ids_in :: "beans_answer \<Rightarrow> exn + int64 list option" where
  "ids_in (RIds x) = Inr x" | "ids_in a = odd_answer a"

fun bool_in :: "beans_answer \<Rightarrow> exn + bool" where
  "bool_in (RBool x) = Inr x" | "bool_in a = odd_answer a"

subsection \<open>The objects of the process as ports\<close>

definition global_beans :: "'x beans_world_scheme bean_ports" where
  "global_beans = \<lparr>bp_cache = mem_cache_port, bp_side = mem_side_port, bp_idempotency = mem_idempotency_port,
     bp_event_queue = log_queue_port, bp_product_catalog = stub_catalog_port demo_rows, bp_gpt = stub_gpt_port,
     bp_behavior_store = stub_behavior_port, bp_visit_ledger = ledger_port\<rparr>"

type_synonym beans_talk = "(beans_call, beans_answer) talk"

definition talk_cache :: "beans_talk cache_port" where
  "talk_cache = \<lparr>TryGetFeed = (\<lambda>u. ask (BTryGetFeed u) feed_in),
     PutFeed = (\<lambda>u ids ttl. ask (BPutFeed u ids ttl) unit_in),
     TouchFeed = (\<lambda>u ext. ask (BTouchFeed u ext) unit_in), DropFeed = (\<lambda>u. ask (BDropFeed u) unit_in)\<rparr>"

definition talk_side :: "beans_talk side_port" where
  "talk_side = \<lparr>TryGetGptRanked = (\<lambda>u. ask (BTryGetGptRanked u) ids_in),
     PutGptRanked = (\<lambda>u ids ttl. ask (BPutGptRanked u ids ttl) unit_in),
     TryGetSimilar = (\<lambda>a. ask (BTryGetSimilar a) ids_in),
     PutSimilar = (\<lambda>a ids ttl. ask (BPutSimilar a ids ttl) unit_in),
     TryGetPopularGlobal = ask BTryGetPopularGlobal ids_in,
     PutPopularGlobal = (\<lambda>ids ttl. ask (BPutPopularGlobal ids ttl) unit_in),
     InvalidateUserDerived = (\<lambda>u. ask (BInvalidateUserDerived u) unit_in)\<rparr>"

definition talk_beans :: "beans_talk bean_ports" where
  "talk_beans = \<lparr>bp_cache = talk_cache, bp_side = talk_side,
     bp_idempotency = \<lparr>TryReserve = (\<lambda>tok ttl. ask (BTryReserve tok ttl) bool_in)\<rparr>,
     bp_event_queue = \<lparr>PublishJson = (\<lambda>rk body. ask (BPublish rk body) unit_in)\<rparr>,
     bp_product_catalog = stub_catalog_port demo_rows, bp_gpt = stub_gpt_port, bp_behavior_store = stub_behavior_port,
     bp_visit_ledger = \<lparr>LastSeenUtc = (\<lambda>u. ask (BLastSeen u) seen_in), MarkSeenUtc = (\<lambda>u. ask (BMarkSeen u) unit_in)\<rparr>\<rparr>"

subsection \<open>The services of the default build\<close>

definition action_of :: "'w bean_ports \<Rightarrow> 'w action_service" where
  "action_of B = \<lparr>as_queue = bp_event_queue B, as_idempotency = bp_idempotency B\<rparr>"

definition recommend_of :: "'x clocks_scheme bean_ports \<Rightarrow> 'x clocks_scheme recommendation_service" where
  "recommend_of B = \<lparr>rs_cache = bp_cache B, rs_side_cache = bp_side B, rs_gpt = bp_gpt B,
     rs_behavior = bp_behavior_store B, rs_visits = bp_visit_ledger B\<rparr>"

definition product_of :: "'w bean_ports \<Rightarrow> 'w product_service" where
  "product_of B = \<lparr>ps_catalog = bp_product_catalog B\<rparr>"

text \<open>They are what the constructors of the handlers build without flags, and on the objects the services of \<open>Beans\<close>.\<close>

lemma default_services:
  assumes "\<not> with_postgres flags" and "\<not> with_redis flags" and "\<not> with_rabbitmq flags"
  shows "ActionHandler_service flags P = Inr (action_of (pc_beans P))"
    and "RecommendHandler_service flags P = Inr (recommend_of (pc_beans P))"
    and "ProductHandler_service flags P = Inr (product_of (pc_beans P))"
  using assms by (simp_all add: ActionHandler_service_def RecommendHandler_service_def ProductHandler_service_def
      EventQueue_def Idempotency_def RecommendationCache_def SideRecommendationCache_def VisitLedgerPort_def GptRecommend_def
      BehaviorStore_def ProductCatalog_def action_of_def recommend_of_def product_of_def)

lemma global_services:
  "action_of global_beans = beans_action" "recommend_of global_beans = beans_recommend"
  by (simp_all add: action_of_def recommend_of_def global_beans_def beans_action_def beans_recommend_def)

datatype beans_task = BPost http_request | BRecommend http_request | BProduct http_request

fun beans_prog ::
  "(item list \<Rightarrow> item list) \<Rightarrow> 'x clocks_scheme bean_ports \<Rightarrow> beans_task \<Rightarrow> (http_response, 'x clocks_scheme) prog" where
  "beans_prog iter B (BPost req) = ActionHandler_HandleRequestThrow ref_json (action_of B) req"
| "beans_prog iter B (BRecommend req) = RecommendHandler_HandleRequestThrow ref_json iter (recommend_of B) req"
| "beans_prog iter B (BProduct req) = ProductHandler_HandleRequestThrow ref_json (product_of B) req"

record beans_thread =
  bt_task :: beans_task
  bt_answers :: "beans_answer list"
  bt_sys_clk :: clock
  bt_steady_clk :: clock

definition talk_of :: "beans_thread \<Rightarrow> beans_talk" where
  "talk_of t = \<lparr>sys_clk = bt_sys_clk t, steady_clk = bt_steady_clk t, answers = bt_answers t, asked = None, dialogue = []\<rparr>"

definition beans_resume :: "(item list \<Rightarrow> item list) \<Rightarrow> beans_thread \<Rightarrow> (exn + http_response) \<times> beans_talk" where
  "beans_resume iter t = beans_prog iter talk_beans (bt_task t) (talk_of t)"

definition beans_waiting :: "(item list \<Rightarrow> item list) \<Rightarrow> beans_thread \<Rightarrow> beans_call option" where
  "beans_waiting iter t = asked (snd (beans_resume iter t))"

definition beans_result :: "(item list \<Rightarrow> item list) \<Rightarrow> beans_thread \<Rightarrow> (exn + http_response) option" where
  "beans_result iter t =
     (case beans_waiting iter t of None \<Rightarrow> Some (fst (beans_resume iter t)) | Some c \<Rightarrow> None)"

subsection \<open>Which calls a request makes, and how many\<close>

fun calls_bound :: "beans_task \<Rightarrow> nat" where
  "calls_bound (BPost req) = 2"
| "calls_bound (BRecommend req) = 11"
| "calls_bound (BProduct req) = 0"

fun lookup_call :: "beans_call \<Rightarrow> bool" where
  "lookup_call (BTryReserve tok ttl) = False"
| "lookup_call (BPublish rk body) = False"
| "lookup_call c = True"

fun beans_allowed :: "beans_task \<Rightarrow> beans_call \<Rightarrow> bool" where
  "beans_allowed (BPost req) c = (\<exists>p. request_payload ref_json req = Some p \<and> valid_payload p \<and>
     c \<in> {BTryReserve (ap_idempotency_key p) kIdempotencyHold, BPublish ''user.action'' (ToString ref_json (action_doc p))})"
| "beans_allowed (BRecommend req) c = lookup_call c"
| "beans_allowed (BProduct req) c = False"

lemmas talk_ports = recommend_of_def recommendation_service.simps talk_beans_def bean_ports.simps talk_cache_def talk_side_def
  cache_port.simps side_port.simps visit_port.simps stub_gpt_port_def gpt_port.simps stub_behavior_port_def behavior_port.simps

lemmas asks_branches = asks_bindE asks_try_catch asks_if asks_option asks_sum asks_list

lemma asks_beans_FetchSources: "asks lookup_call 6 (FetchSources (recommend_of talk_beans) u)"
proof -
  have "asks lookup_call (0 + (Suc 0 + max (0 + (Suc 0 + 0)) 0 + (Suc 0 + max (0 + (Suc 0 + 0)) 0 +
      (max 0 (Suc 0 + max (0 + (max 0 0 + (Suc 0 + 0))) 0) + 0)))) (FetchSources (recommend_of talk_beans) u)"
    unfolding FetchSources_def fetch_popular_def fetch_gpt_def fetch_similar_def talk_ports
    by (intro asks_branches asks_basic lookup_call.simps [THEN iffD2] TrueI)
  then show ?thesis by (simp add: eval_nat_numeral)
qed

lemma asks_beans_Recommend: "asks lookup_call 11 (GetRecommendations iter (recommend_of talk_beans) u)"
proof -
  note src = asks_beans_FetchSources [of u, unfolded talk_ports]
  have "asks lookup_call (Suc 0 + (0 + (max (Suc 0) 0 + (Suc 0 + (Suc 0 + max (6 + (Suc 0 + 0)) (0 + (Suc 0 + 0)))))))
      (GetRecommendations iter (recommend_of talk_beans) u)"
    unfolding GetRecommendations_def rebuild_feed_def Let_def talk_ports
    by (intro asks_branches asks_basic asks_ttl_calls src lookup_call.simps [THEN iffD2] TrueI)
  then show ?thesis by simp
qed

lemma talk_HandleAction:
  assumes "valid_payload p"
  shows "HandleAction ref_json (action_of talk_beans) p =
    bindE (ask (BTryReserve (ap_idempotency_key p) kIdempotencyHold) bool_in) (\<lambda>reserved.
      if \<not> reserved then ret Duplicate
      else bindE (ask (BPublish ''user.action'' (ToString ref_json (action_doc p))) unit_in) (\<lambda>_. ret Accepted))"
  unfolding HandleAction_valid [OF assms] action_of_def talk_beans_def bean_ports.simps action_service.simps
    idempotency_port.simps queue_port.simps ..

lemma asks_beans_Post: "asks (beans_allowed (BPost req)) 2 (ActionHandler_HandleRequestThrow ref_json (action_of talk_beans) req)"
proof (cases "request_payload ref_json req")
  case None
  show ?thesis by (rule asks_quiet) (use ActionHandler_no_payload [OF None, of "action_of talk_beans"] in blast)
next
  case (Some p)
  let ?H = "HandleAction ref_json (action_of talk_beans) p"
  have H: "asks (beans_allowed (BPost req)) 2 ?H"
  proof (cases "valid_payload p")
    case True
    have "asks (beans_allowed (BPost req)) (Suc 0 + max 0 (Suc 0 + 0)) ?H"
      unfolding talk_HandleAction [OF True] by (intro asks_branches asks_basic) (use Some True in simp_all)
    then show ?thesis by (simp add: numeral_2_eq_2)
  next
    case False
    show ?thesis by (rule asks_quiet) (simp add: HandleAction_invalid [OF False])
  qed
  let ?ok = "\<lambda>r. reply kAccepted (JsonActionAccepted ref_json (r = Duplicate))"
  let ?bad = "\<lambda>e. reply kBadRequest (JsonError ref_json (what e))"
  have "ActionHandler_HandleRequestThrow ref_json (action_of talk_beans) req =
      (\<lambda>t. case ?H t of (Inl e, t1) \<Rightarrow> ret (?bad e) t1 | (Inr x, t1) \<Rightarrow> ret (?ok x) t1)"
    using ActionHandler_payload [OF Some, of "action_of talk_beans"]
    by (simp add: fun_eq_iff split: prod.split sum.split)
  with asks_then [OF H asks_basic(1) asks_basic(1)] show ?thesis by simp
qed

lemma beans_commands: "asks (beans_allowed t) (calls_bound t) (beans_prog iter talk_beans t)"
proof (cases t)
  case (BPost req)
  then show ?thesis using asks_beans_Post by simp
next
  case (BRecommend req)
  have "asks lookup_call (max 0 (11 + 0)) (beans_prog iter talk_beans t)"
    unfolding BRecommend beans_prog.simps RecommendHandler_HandleRequestThrow_def Let_def
    by (intro asks_branches asks_basic asks_beans_Recommend)
  then show ?thesis by (simp add: BRecommend beans_allowed.simps(2) [abs_def])
next
  case (BProduct req)
  have "asks (beans_allowed t) (max 0 (max 0 (0 + max 0 0 + max 0 0))) (beans_prog iter talk_beans t)"
    unfolding BProduct beans_prog.simps ProductHandler_HandleRequestThrow_def Let_def GetProductJson_def product_of_def
      talk_beans_def bean_ports.simps product_service.simps stub_catalog_port_def catalog_port.simps
    by (intro asks_branches asks_basic)
  then show ?thesis by (simp add: BProduct)
qed

lemma steps_beans_FetchSources: "steps (FetchSources (recommend_of talk_beans) u)"
  unfolding FetchSources_def fetch_popular_def fetch_gpt_def fetch_similar_def talk_ports
  by (intro steps_bindE steps_branch steps_basic)

lemma steps_beans: "steps (beans_prog iter talk_beans t)"
proof (cases t)
  case (BPost req)
  show ?thesis
    unfolding BPost beans_prog.simps ActionHandler_HandleRequestThrow_def action_payload_of_def HandleAction_def
      action_of_def talk_beans_def bean_ports.simps action_service.simps idempotency_port.simps queue_port.simps Let_def
    by (intro steps_bindE steps_try_catch steps_branch steps_basic)
next
  case (BRecommend req)
  note src = steps_beans_FetchSources [unfolded talk_ports]
  show ?thesis
    unfolding BRecommend beans_prog.simps RecommendHandler_HandleRequestThrow_def GetRecommendations_def rebuild_feed_def
      talk_ports Let_def
    by (intro steps_bindE steps_branch steps_basic steps_ttl_calls src)
next
  case (BProduct req)
  show ?thesis
    unfolding BProduct beans_prog.simps ProductHandler_HandleRequestThrow_def GetProductJson_def product_of_def
      talk_beans_def bean_ports.simps product_service.simps stub_catalog_port_def catalog_port.simps Let_def
    by (intro steps_bindE steps_branch steps_basic)
qed

end
