(* ===== verification/Beans_Pool.thy ===== *)
theory Beans_Pool
  imports Beans_Threads
begin

text \<open>
  The default build under any interleaving: a pool of requests over the shared objects. A step starts a
  request, serves one call, or sets the clocks to anything; so the clock that a call reads can have any reading,
  also one that was taken before the mutex was locked.
\<close>

subsection \<open>Steps\<close>

text \<open>\<open>calls\<close> records what was served: the request, the call, the answer and the reading of the steady clock.\<close>

record beans_pool =
  objects :: beans_world
  requests :: "nat \<rightharpoonup> beans_thread"
  calls :: "(nat \<times> beans_call \<times> beans_answer \<times> time) list"

definition fresh_request :: "beans_task \<Rightarrow> clock \<Rightarrow> clock \<Rightarrow> beans_thread" where
  "fresh_request t c d = \<lparr>bt_task = t, bt_answers = [], bt_sys_clk = c, bt_steady_clk = d\<rparr>"

definition hear_beans :: "beans_answer \<Rightarrow> beans_thread \<Rightarrow> beans_thread" where
  "hear_beans a t = t\<lparr>bt_answers := bt_answers t @ [a]\<rparr>"

inductive beans_step :: "(item list \<Rightarrow> item list) \<Rightarrow> beans_pool \<Rightarrow> beans_pool \<Rightarrow> bool" for iter where
  start: "requests p i = None \<Longrightarrow> beans_step iter p (p\<lparr>requests := (requests p)(i \<mapsto> fresh_request t c d)\<rparr>)"
| served: "requests p i = Some t \<Longrightarrow> beans_waiting iter t = Some c \<Longrightarrow> beans_serve c (objects p) = (a, w') \<Longrightarrow>
    beans_step iter p (p\<lparr>objects := w', requests := (requests p)(i \<mapsto> hear_beans a t),
      calls := calls p @ [(i, c, a, peek (steady_clk (objects p)))]\<rparr>)"
| clock: "beans_step iter p (p\<lparr>objects := (objects p)\<lparr>sys_clk := c, steady_clk := d\<rparr>\<rparr>)"

definition beans_reach :: "(item list \<Rightarrow> item list) \<Rightarrow> beans_pool \<Rightarrow> beans_pool \<Rightarrow> bool" where
  "beans_reach iter = (beans_step iter)\<^sup>*\<^sup>*"

text \<open>The pool of a process that has just started.\<close>

definition beans_start :: "clock \<Rightarrow> clock \<Rightarrow> beans_pool" where
  "beans_start c d = \<lparr>objects = beans_init c d, requests = Map.empty, calls = []\<rparr>"

lemma hear_beans_simps [simp]:
  "bt_task (hear_beans a t) = bt_task t" "bt_answers (hear_beans a t) = bt_answers t @ [a]"
  "bt_task (fresh_request k c d) = k" "bt_answers (fresh_request k c d) = []"
  by (simp_all add: hear_beans_def fresh_request_def)

subsection \<open>What a request has heard is in the calls\<close>

definition beans_dialogue :: "(item list \<Rightarrow> item list) \<Rightarrow> beans_thread \<Rightarrow> (beans_call \<times> beans_answer) list" where
  "beans_dialogue iter t = dialogue (snd (beans_resume iter t))"

lemma beans_dialogue_fresh: "beans_dialogue iter (fresh_request t c d) = []"
  using steps_silent [OF steps_beans prod.collapse [symmetric], of "talk_of (fresh_request t c d)" iter t]
  by (simp add: beans_dialogue_def beans_resume_def talk_of_def fresh_request_def)

lemma beans_dialogue_hear:
  assumes "beans_waiting iter t = Some c"
  shows "beans_dialogue iter (hear_beans a t) = beans_dialogue iter t @ [(c, a)]"
proof -
  have "beans_resume iter (hear_beans a t) = beans_prog iter talk_beans (bt_task t) ((talk_of t)\<lparr>answers := answers (talk_of t) @ [a]\<rparr>)"
    by (simp add: beans_resume_def hear_beans_def talk_of_def)
  from stepsD(4) [OF steps_beans prod.collapse [symmetric] _ _ prod.collapse [symmetric], of "talk_of t" iter "bt_task t" c a]
    this assms
  show ?thesis by (simp add: beans_dialogue_def beans_waiting_def beans_resume_def talk_of_def)
qed

lemma beans_dialogue_calls:
  assumes "beans_reach iter (beans_start c0 d0) p" and "requests p i = Some t" and "(c, a) \<in> set (beans_dialogue iter t)"
  shows "\<exists>tm. (i, c, a, tm) \<in> set (calls p)"
  using assms unfolding beans_reach_def
proof (induction arbitrary: t rule: rtranclp_induct)
  case base
  then show ?case by (simp add: beans_start_def)
next
  case (step y z)
  from step(2) show ?case
  proof cases
    case (start j k cl d)
    with step.prems step.IH show ?thesis by (cases "i = j") (auto simp: beans_dialogue_fresh)
  next
    case (served j th c' a' w')
    show ?thesis
    proof (cases "i = j")
      case True
      with served step.prems have "t = hear_beans a' th" by simp
      with beans_dialogue_hear [OF served(3)] step.prems(2)
      have "(c, a) \<in> set (beans_dialogue iter th) \<or> (c, a) = (c', a')" by auto
      with step.IH [of th] served True show ?thesis by auto
    next
      case False
      with served step.prems step.IH show ?thesis by fastforce
    qed
  qed (use step in auto)
qed

subsection \<open>Requests end\<close>

lemma beans_waiting_allowed:
  assumes "beans_waiting iter t = Some c"
  shows "beans_allowed (bt_task t) c" and "length (bt_answers t) < calls_bound (bt_task t)"
proof -
  obtain r t' where run: "beans_prog iter talk_beans (bt_task t) (talk_of t) = (r, t')" by fastforce
  then have "asked t' = Some c" using assms by (simp add: beans_waiting_def beans_resume_def)
  with asksD(2,3) [OF beans_commands run] show "beans_allowed (bt_task t) c" "length (bt_answers t) < calls_bound (bt_task t)"
    by (auto simp: talk_of_def not_le [symmetric])
qed

lemma beans_run_on:
  assumes "requests p i = Some t"
  shows "\<exists>p' t'. beans_reach iter p p' \<and> requests p' i = Some t' \<and> bt_task t' = bt_task t \<and> beans_result iter t' \<noteq> None"
  using assms
proof (induction "calls_bound (bt_task t) - length (bt_answers t)" arbitrary: p t rule: less_induct)
  case less
  show ?case
  proof (cases "beans_result iter t")
    case (Some r)
    with less.prems show ?thesis by (intro exI [of _ p] exI [of _ t]) (simp add: beans_reach_def)
  next
    case None
    then obtain c where c: "beans_waiting iter t = Some c" by (auto simp: beans_result_def split: option.splits)
    obtain a w' where s: "beans_serve c (objects p) = (a, w')" by fastforce
    let ?p = "p\<lparr>objects := w', requests := (requests p)(i \<mapsto> hear_beans a t),
      calls := calls p @ [(i, c, a, peek (steady_clk (objects p)))]\<rparr>"
    have "requests ?p i = Some (hear_beans a t)" by simp
    moreover have "calls_bound (bt_task (hear_beans a t)) - length (bt_answers (hear_beans a t)) <
        calls_bound (bt_task t) - length (bt_answers t)" using beans_waiting_allowed(2) [OF c] by simp
    ultimately obtain p' t' where "beans_reach iter ?p p'" "requests p' i = Some t'" "bt_task t' = bt_task t"
      "beans_result iter t' \<noteq> None" using less.hyps [of "hear_beans a t" ?p] by auto
    with beans_step.served [OF less.prems c s] show ?thesis
      unfolding beans_reach_def by (metis converse_rtranclp_into_rtranclp)
  qed
qed

subsection \<open>The lists of the default build\<close>

text \<open>The sources are the same for everybody, and so is the merge.\<close>

definition demo_ranking :: "nat \<Rightarrow> int64 list" where
  "demo_ranking n = map (\<lambda>i. 9000 + of_nat i) [0..<n]"

definition demo_sources :: recommendation_sources where
  "demo_sources = \<lparr>src_history = [101, 202, 303], src_popular = [10, 20, 30, 40, 50],
     src_gpt_ranked = demo_ranking 100, src_similar = [10, 20, 30, 40, 50]\<rparr>"

definition demo_feed :: "nat \<Rightarrow> int64 list" where
  "demo_feed n = [10, 20, 30, 40, 50] @ demo_ranking n"

lemma sint_ranking:
  assumes "i < 100"
  shows "sint (9000 + of_nat i :: int64) = 9000 + int i"
  using sint_word_of_int_i64 [of "9000 + int i"] assms by simp

lemma count_list_distinct: "distinct xs \<Longrightarrow> count_list xs x = (if x \<in> set xs then 1 else 0)"
  by (induction xs) auto

lemma set_demo_ranking: "set (demo_ranking n) = (\<lambda>i. 9000 + of_nat i) ` {..<n}"
  by (simp add: demo_ranking_def atLeast0LessThan)

lemma length_demo_ranking [simp]: "length (demo_ranking n) = n"
  by (simp add: demo_ranking_def)

lemma distinct_demo_ranking: "distinct (demo_ranking 100)"
  unfolding demo_ranking_def distinct_map inj_on_def using sint_ranking
  by (metis add_left_cancel atLeastLessThan_iff distinct_upt of_nat_eq_iff set_upt)

lemma small_not_ranked: "sint x < 9000 \<Longrightarrow> x \<notin> set (demo_ranking 100)"
  unfolding set_demo_ranking using sint_ranking by fastforce

lemma small_id: "x \<in> {10, 20, 30, 40, 50, 101, 202, 303 :: int64} \<Longrightarrow> sint x < 9000"
  by (elim insertE emptyE) simp_all

lemma weight_demo: "weight demo_sources x =
    3 * int (count_list [101, 202, 303] x) + 5 * int (count_list [10, 20, 30, 40, 50] x) + 4 * int (count_list (demo_ranking 100) x)"
  unfolding weight_def demo_sources_def recommendation_sources.simps by simp

lemma demo_weights:
  "i < 100 \<Longrightarrow> weight demo_sources (9000 + of_nat i) = 4"
  "x \<in> {10, 20, 30, 40, 50} \<Longrightarrow> weight demo_sources x = 5"
  "x \<in> {101, 202, 303} \<Longrightarrow> weight demo_sources x = 3"
proof -
  show "weight demo_sources (9000 + of_nat i) = 4" if i: "i < 100"
  proof -
    have "9000 + of_nat i \<notin> {10, 20, 30, 40, 50, 101, 202, 303 :: int64}"
      using small_id sint_ranking [OF i] by (metis add_less_same_cancel1 of_nat_less_0_iff)
    then have "count_list [101, 202, 303] (9000 + of_nat i :: int64) = 0" "count_list [10, 20, 30, 40, 50] (9000 + of_nat i :: int64) = 0"
      unfolding count_list_0_iff by simp_all
    moreover have "9000 + of_nat i \<in> set (demo_ranking 100)" unfolding set_demo_ranking using i by blast
    ultimately show ?thesis unfolding weight_demo count_list_distinct [OF distinct_demo_ranking] by simp
  qed
  have w: "weight demo_sources x = 3 * int (count_list [101, 202, 303] x) + 5 * int (count_list [10, 20, 30, 40, 50] x)"
    if "x \<in> {10, 20, 30, 40, 50, 101, 202, 303}" for x
    using small_not_ranked [OF small_id [OF that]]
    unfolding weight_demo count_list_distinct [OF distinct_demo_ranking] by simp
  show "weight demo_sources x = 5" if "x \<in> {10, 20, 30, 40, 50}"
    using that by (elim insertE emptyE) (simp_all add: w)
  show "weight demo_sources x = 3" if "x \<in> {101, 202, 303}"
    using that by (elim insertE emptyE) (simp_all add: w)
qed

lemma demo_merge:
  assumes "\<And>xs. mset (iter xs) = mset xs"
  shows "FanOutMerge iter demo_sources = demo_feed 100 @ [101, 202, 303]"
proof -
  let ?L = "demo_feed 100 @ [101, 202, 303]"
  have "source_length demo_sources < 2 ^ 29" by (simp add: source_length_def demo_sources_def)
  note sorted = sorted_merge [OF this] and set = set_merge_items [of demo_sources]
  have "sorted_wrt (ranked_before demo_sources) ?L"
  proof -
    have hi: "sorted_wrt (ranked_before demo_sources) [10, 20, 30, 40, 50]"
      and lo: "sorted_wrt (ranked_before demo_sources) [101, 202, 303]"
      using demo_weights(2,3) by (simp_all add: ranked_before_def)
    have "ranked_before demo_sources (9000 + of_nat i) (9000 + of_nat j)" if "i < j" "j < 100" for i j
      using that sint_ranking demo_weights(1) by (simp add: ranked_before_def)
    then have mid: "sorted_wrt (ranked_before demo_sources) (demo_ranking 100)"
      unfolding demo_ranking_def sorted_wrt_map by (intro sorted_wrt_mono_rel [OF _ sorted_wrt_upt]) auto
    have "ranked_before demo_sources x y" if "weight demo_sources y < weight demo_sources x" for x y
      using that by (simp add: ranked_before_def)
    moreover have "weight demo_sources x = 4" if "x \<in> set (demo_ranking 100)" for x
      using that demo_weights(1) by (auto simp: set_demo_ranking)
    ultimately show ?thesis using hi mid lo demo_weights(2,3)
      unfolding demo_feed_def sorted_wrt_append set_append by auto
  qed
  moreover have "set ?L = source_ids demo_sources" by (auto simp: demo_feed_def source_ids_def demo_sources_def)
  ultimately show ?thesis
    using ranked_unique [OF sorted] set FanOutMerge_iter [OF assms] by metis
qed

lemma demo_feed_cut:
  assumes "\<And>xs. mset (iter xs) = mset xs"
  shows "TakeTop (FanOutMerge iter demo_sources) kGptRecommendationIds = demo_feed 95" "TakeTop (demo_feed 95) kFeedListSize = demo_feed 45"
  by (simp_all add: demo_merge [OF assms] demo_feed_def demo_ranking_def kGptRecommendationIds_def kFeedListSize_def take_map take_upt
      del: upt_Suc upt_rec_numeral)

subsection \<open>What the objects hold, what requests hear and store\<close>

abbreviation demo_popular :: "int64 list" where
  "demo_popular \<equiv> [10, 20, 30, 40, 50]"

definition data_demo :: "rhythm_data \<Rightarrow> bool" where
  "data_demo d \<longleftrightarrow> (\<forall>u c. feed d u = Some c \<longrightarrow> fc_ids c = demo_feed 95) \<and>
     (\<forall>u c. gpt d u = Some c \<longrightarrow> ti_ids c = demo_ranking 100) \<and>
     (\<forall>a c. similar d a = Some c \<longrightarrow> ti_ids c = demo_popular) \<and>
     (popular_inited d \<longrightarrow> ti_ids (popular d) = demo_popular)"

fun demo_put :: "beans_call \<Rightarrow> bool" where
  "demo_put (BPutFeed u ids ttl) = (ids = demo_feed 95)"
| "demo_put (BPutGptRanked u ids ttl) = (ids = demo_ranking 100)"
| "demo_put (BPutSimilar a ids ttl) = (ids = demo_popular)"
| "demo_put (BPutPopularGlobal ids ttl) = (ids = demo_popular)"
| "demo_put c = True"

fun demo_heard :: "beans_call \<times> beans_answer \<Rightarrow> bool" where
  "demo_heard (BLastSeen u, a) = (\<exists>v. a = RSeen v)"
| "demo_heard (BTryGetFeed u, a) = (\<exists>v. a = RFeed v \<and> (\<forall>e. v = Some e \<longrightarrow> product_ids e = demo_feed 95))"
| "demo_heard (BTryGetGptRanked u, a) = (\<exists>v. a = RIds v \<and> (\<forall>ids. v = Some ids \<longrightarrow> ids = demo_ranking 100))"
| "demo_heard (BTryGetSimilar k, a) = (\<exists>v. a = RIds v \<and> (\<forall>ids. v = Some ids \<longrightarrow> ids = demo_popular))"
| "demo_heard (BTryGetPopularGlobal, a) = (\<exists>v. a = RIds v \<and> (\<forall>ids. v = Some ids \<longrightarrow> ids = demo_popular))"
| "demo_heard (BTryReserve tok ttl, a) = (\<exists>b. a = RBool b)"
| "demo_heard (c, a) = (a = RUnit ())"

lemma answered_mem [simp]:
  "answered K (mem_call f w) = (K (fst (f (peek (steady_clk w)) (bw_data w))),
     w\<lparr>steady_clk := tick (steady_clk w), bw_data := snd (f (peek (steady_clk w)) (bw_data w))\<rparr>)"
  "answered K' (mem_do g w) = (K' (), w\<lparr>steady_clk := tick (steady_clk w), bw_data := g (peek (steady_clk w)) (bw_data w)\<rparr>)"
  "answered K'' (Inr x, w) = (K'' x, w)"
  by (simp_all add: answered_def mem_call_def mem_do_def split: prod.split)

lemmas beans_serve_defs = mem_cache_port_def mem_side_port_def mem_idempotency_port_def ledger_port_def log_queue_port_def

lemma data_demo_get:
  assumes "data_demo d"
  shows "data_demo (snd (mem_TryGetFeed now u d))" "data_demo (snd (mem_TryGetGptRanked now u d))"
    "data_demo (snd (mem_TryGetSimilar now k d))" "data_demo (snd (mem_TryGetPopularGlobal now d))"
    "data_demo (snd (mem_TryReserve now tok ttl d))"
    "\<And>e. fst (mem_TryGetFeed now u d) = Some e \<Longrightarrow> product_ids e = demo_feed 95"
    "\<And>ids. fst (mem_TryGetGptRanked now u d) = Some ids \<Longrightarrow> ids = demo_ranking 100"
    "\<And>ids. fst (mem_TryGetSimilar now k d) = Some ids \<Longrightarrow> ids = demo_popular"
    "\<And>ids. fst (mem_TryGetPopularGlobal now d) = Some ids \<Longrightarrow> ids = demo_popular"
  using assms by (auto simp: data_demo_def mem_TryGetFeed_def mem_TryGetGptRanked_def mem_TryGetSimilar_def
      mem_TryGetPopularGlobal_def mem_TryReserve_def Let_def split: option.splits if_splits)

lemma data_demo_do:
  assumes "data_demo d"
  shows "data_demo (mem_PutFeed now u (demo_feed 95) ttl d)" "data_demo (mem_PutGptRanked now u (demo_ranking 100) ttl d)"
    "data_demo (mem_PutSimilar now k demo_popular ttl d)" "data_demo (mem_PutPopularGlobal now demo_popular ttl d)"
    "data_demo (mem_TouchFeed now u ext d)" "data_demo (mem_DropFeed u d)" "data_demo (mem_InvalidateUserDerived u d)"
  using assms by (auto simp: data_demo_def mem_PutFeed_def mem_PutGptRanked_def mem_PutSimilar_def mem_PutPopularGlobal_def
      mem_TouchFeed_def mem_DropFeed_def mem_InvalidateUserDerived_def split: option.splits)

lemma demo_serve:
  assumes "data_demo (bw_data w)" and "demo_put c" and "beans_serve c w = (a, w')"
  shows "data_demo (bw_data w')" and "demo_heard (c, a)"
proof -
  note ops = data_demo_get [OF assms(1)] data_demo_do [OF assms(1)]
  have w: "w' = snd (beans_serve c w)" and a: "a = fst (beans_serve c w)" using assms(3) by simp_all
  show "data_demo (bw_data w')"
    unfolding w using assms(1,2) ops by (cases c) (simp_all add: beans_serve_defs)
  show "demo_heard (c, a)"
    unfolding a by (cases c) (auto simp: beans_serve_defs dest: data_demo_get(6-9) [OF assms(1)])
qed

abbreviation (input) demo_sound :: "('b, beans_talk) prog \<Rightarrow> ('b \<Rightarrow> bool) \<Rightarrow> bool" where
  "demo_sound \<equiv> sound demo_heard demo_put"

lemma demo_sound_unit: "demo_put c \<Longrightarrow> demo_sound (ask c unit_in) (\<lambda>_. True)"
  by (rule sound_ask) simp_all

lemma demo_sound_get:
  "demo_sound (ask (BTryGetFeed u) feed_in) (\<lambda>v. \<forall>e. v = Some e \<longrightarrow> product_ids e = demo_feed 95)"
  "demo_sound (ask (BTryGetGptRanked u) ids_in) (\<lambda>v. \<forall>ids. v = Some ids \<longrightarrow> ids = demo_ranking 100)"
  "demo_sound (ask (BTryGetSimilar k) ids_in) (\<lambda>v. \<forall>ids. v = Some ids \<longrightarrow> ids = demo_popular)"
  "demo_sound (ask BTryGetPopularGlobal ids_in) (\<lambda>v. \<forall>ids. v = Some ids \<longrightarrow> ids = demo_popular)"
  "demo_sound (ask (BLastSeen u) seen_in) (\<lambda>_. True)"
  by (rule sound_ask; force)+

text \<open>A cached list, or the computed one, which is stored.\<close>

lemma demo_cached:
  assumes "demo_sound get (\<lambda>v. \<forall>ids. v = Some ids \<longrightarrow> ids = xs)" and "\<And>ids. demo_put (put ids) \<longleftrightarrow> ids = xs"
    and "m = ret xs"
  shows "demo_sound (bindE get (\<lambda>cached. case cached of
      Some ids \<Rightarrow> ret ids
    | None \<Rightarrow> bindE m (\<lambda>ids. bindE (ask (put ids) unit_in) (\<lambda>_. ret ids)))) (\<lambda>ids. ids = xs)"
proof (rule sound_bindE [OF assms(1)])
  fix v assume v: "\<forall>ids. v = Some ids \<longrightarrow> ids = xs"
  show "demo_sound (case v of Some ids \<Rightarrow> ret ids
    | None \<Rightarrow> bindE m (\<lambda>ids. bindE (ask (put ids) unit_in) (\<lambda>_. ret ids))) (\<lambda>ids. ids = xs)"
  proof (cases v)
    case None
    have "demo_sound (bindE m (\<lambda>ids. bindE (ask (put ids) unit_in) (\<lambda>_. ret ids))) (\<lambda>ids. ids = xs)"
    proof (rule sound_bindE [where Q = "\<lambda>ids. ids = xs"])
      show "demo_sound m (\<lambda>ids. ids = xs)" unfolding assms(3) by (rule sound_ret) simp
      fix ids assume "ids = xs"
      then show "demo_sound (bindE (ask (put ids) unit_in) (\<lambda>_. ret ids)) (\<lambda>ids. ids = xs)"
        by (intro sound_bindE [OF demo_sound_unit] sound_ret steps_basic) (simp_all add: assms(2))
    qed (intro steps_bindE steps_basic)
    with None show ?thesis by simp
  next
    case (Some ids)
    with v show ?thesis by (simp add: sound_ret del: ret_run)
  qed
next
  fix v show "steps (case v of Some ids \<Rightarrow> ret ids
    | None \<Rightarrow> bindE m (\<lambda>ids. bindE (ask (put ids) unit_in) (\<lambda>_. ret ids)))"
    unfolding assms(3) by (intro steps_bindE steps_branch steps_basic)
qed

lemma demo_stubs:
  "stub_RecentProductIds u 120 = [101, 202, 303]" "stub_PopularProductIds 120 = demo_popular"
  "stub_CatalogNeighborProductIds a 60 = demo_popular" "stub_RankProductIds u kGptRecommendationIds = demo_ranking 100"
  by (simp_all add: stub_RecentProductIds_def stub_PopularProductIds_def stub_CatalogNeighborProductIds_def cap_vec_def
      stub_RankProductIds_def kGptRecommendationIds_def demo_ranking_def)

lemma demo_FetchSources: "demo_sound (FetchSources (recommend_of talk_beans) u) (\<lambda>s. s = demo_sources)"
proof -
  have pop: "demo_sound (fetch_popular (recommend_of talk_beans)) (\<lambda>ids. ids = demo_popular)"
    unfolding fetch_popular_def talk_ports by (rule demo_cached [OF demo_sound_get(4)]) (simp_all add: demo_stubs)
  have gpt: "demo_sound (fetch_gpt (recommend_of talk_beans) u) (\<lambda>ids. ids = demo_ranking 100)"
    unfolding fetch_gpt_def talk_ports by (rule demo_cached [OF demo_sound_get(2)]) (simp_all add: demo_stubs)
  have anchor: "(101 :: int64) \<noteq> 0" by simp
  have sim: "demo_sound (fetch_similar (recommend_of talk_beans) 101) (\<lambda>ids. ids = demo_popular)"
    unfolding fetch_similar_def talk_ports if_not_P [OF anchor] bindE_assoc [symmetric]
    by (rule demo_cached [OF demo_sound_get(3)]) (simp_all add: demo_stubs fun_eq_iff)
  have st: "steps (fetch_popular (recommend_of talk_beans))" "steps (fetch_gpt (recommend_of talk_beans) u)"
    "steps (fetch_similar (recommend_of talk_beans) a)" for a
    unfolding fetch_popular_def fetch_gpt_def fetch_similar_def talk_ports by (intro steps_bindE steps_branch steps_basic)+
  have rec: "RecentProductIds (rs_behavior (recommend_of talk_beans)) u 120 = ret [101, 202, 303]"
    by (simp add: talk_ports demo_stubs)
  show ?thesis
    unfolding FetchSources_def rec
  proof (rule sound_bindE [OF sound_ret, where Q = "\<lambda>h. h = [101, 202, 303]"], rule refl)
    fix h :: "int64 list" assume h: "h = [101, 202, 303]"
    show "demo_sound (bindE (fetch_popular (recommend_of talk_beans)) (\<lambda>popular.
        bindE (fetch_gpt (recommend_of talk_beans) u) (\<lambda>gpt_ranked.
        bindE (fetch_similar (recommend_of talk_beans) (similar_anchor h popular)) (\<lambda>similar.
        ret \<lparr>src_history = h, src_popular = popular, src_gpt_ranked = gpt_ranked, src_similar = similar\<rparr>))))
      (\<lambda>s. s = demo_sources)"
    proof (rule sound_bindE [OF pop], rule sound_bindE [OF gpt], goal_cases)
      case (1 p g)
      have "similar_anchor h p = 101" by (simp add: h similar_anchor_def)
      with 1 sim show ?case
        by (auto intro!: sound_bindE [OF sim] sound_ret steps_basic simp: h demo_sources_def simp del: ret_run)
    qed (intro steps_bindE steps_basic st)+
  qed (intro steps_bindE steps_basic st)
qed

lemma recommend_calls:
  "LastSeenUtc (rs_visits (recommend_of talk_beans)) u = ask (BLastSeen u) seen_in"
  "MarkSeenUtc (rs_visits (recommend_of talk_beans)) u = ask (BMarkSeen u) unit_in"
  "TryGetFeed (rs_cache (recommend_of talk_beans)) u = ask (BTryGetFeed u) feed_in"
  "TouchFeed (rs_cache (recommend_of talk_beans)) u ext = ask (BTouchFeed u ext) unit_in"
  "DropFeed (rs_cache (recommend_of talk_beans)) u = ask (BDropFeed u) unit_in"
  by (simp_all add: talk_ports)

lemma demo_sound_Recommend:
  assumes "\<And>xs. mset (iter xs) = mset xs"
  shows "demo_sound (GetRecommendations iter (recommend_of talk_beans) u) (\<lambda>ids. ids = demo_feed 45)"
proof -
  note st = steps_bindE steps_branch steps_basic steps_ttl_calls steps_beans_FetchSources [unfolded talk_ports]
  let ?feed = "\<lambda>v :: feed_entry option. \<forall>e. v = Some e \<longrightarrow> product_ids e = demo_feed 95"
  have unit: "demo_sound (ask (BDropFeed u) unit_in) (\<lambda>_. True)" "demo_sound (ask (BMarkSeen u) unit_in) (\<lambda>_. True)"
    "demo_sound (ask (BPutFeed u (demo_feed 95) ttl) unit_in) (\<lambda>_. True)" "demo_sound (ask (BTouchFeed u ext) unit_in) (\<lambda>_. True)"
    for ttl ext by (rule demo_sound_unit; simp)+
  have drop: "demo_sound (if b then ask (BDropFeed u) unit_in else ret ()) (\<lambda>_. True)" for b
    using unit(1) by (cases b) (simp_all add: sound_ret del: ret_run)
  have rebuild: "demo_sound (rebuild_feed iter (recommend_of talk_beans) u) (\<lambda>ids. ids = demo_feed 45)"
    unfolding rebuild_feed_def Let_def
  proof (rule sound_bindE [OF demo_FetchSources])
    fix s assume s: "s = demo_sources"
    show "demo_sound (bindE (PutFeed (rs_cache (recommend_of talk_beans)) u (TakeTop (FanOutMerge iter s) kGptRecommendationIds) kFeedKeyTtl)
        (\<lambda>_. ret (TakeTop (TakeTop (FanOutMerge iter s) kGptRecommendationIds) kFeedListSize))) (\<lambda>ids. ids = demo_feed 45)"
      unfolding s demo_feed_cut [OF assms] talk_ports
      by (rule sound_bindE [OF unit(3)]) (simp_all add: sound_ret steps_basic del: ret_run)
  qed (unfold talk_ports, intro st)
  have tail: "demo_sound (case cached of
        Some entry \<Rightarrow> bindE (ClassifyVisit_call prev) (\<lambda>recency. bindE (ask (BTouchFeed u (ExtendFeedTtlOnHit recency)) unit_in)
          (\<lambda>_. ret (TakeTop (product_ids entry) kFeedListSize)))
      | None \<Rightarrow> rebuild_feed iter (recommend_of talk_beans) u) (\<lambda>ids. ids = demo_feed 45)" if "?feed cached" for prev cached
  proof (cases cached)
    case None
    with rebuild show ?thesis by simp
  next
    case (Some entry)
    with that have "TakeTop (product_ids entry) kFeedListSize = demo_feed 45" using demo_feed_cut(2) [OF assms] by simp
    then show ?thesis unfolding Some option.case
      by (intro sound_seq [OF asks_ttl_calls(2)] sound_bindE [OF unit(4)] sound_ret st)
  qed
  have str: "steps (rebuild_feed iter (recommend_of talk_beans) u)" using rebuild by (simp add: sound_def)
  show ?thesis
    unfolding GetRecommendations_def recommend_calls
  proof (rule sound_bindE [OF demo_sound_get(5)], rule sound_seq [OF asks_ttl_calls(1)], rule steps_ttl_calls,
      rule sound_bindE [OF drop], rule sound_bindE [OF unit(2)], rule sound_bindE [OF demo_sound_get(1)], rule tail)
  qed (assumption | intro st str)+
qed

subsection \<open>Every response\<close>

text \<open>A product of the stub catalogue.\<close>

definition demo_product :: "http_request \<Rightarrow> http_response" where
  "demo_product req =
     (if GetArg req ''id'' = [] then reply kBadRequest (JsonError ref_json ''missing_query_id'')
      else case stoll (GetArg req ''id'') of
        Inl _ \<Rightarrow> reply kBadRequest (JsonError ref_json ''invalid_id'')
      | Inr i \<Rightarrow>
          (case find (\<lambda>r. row_id r = i) demo_rows of
             None \<Rightarrow> reply kNotFound (JsonError ref_json ''not_found'')
           | Some r \<Rightarrow> reply kOk (ToString ref_json (product_doc r))))"

fun demo_response :: "beans_task \<Rightarrow> http_response \<Rightarrow> bool" where
  "demo_response (BPost req) resp = (rsp_status resp \<in> {kAccepted, kBadRequest})"
| "demo_response (BRecommend req) resp =
     (resp = (if GetArg req ''user_id'' = [] then reply kBadRequest (JsonError ref_json ''missing_user_id'')
              else reply kOk (ToString ref_json (items_doc (demo_feed 45)))))"
| "demo_response (BProduct req) resp = (resp = demo_product req)"

lemma stub_catalog_find: "stub_GetById (StubProductCatalog demo_rows) i = find (\<lambda>r. row_id r = i) demo_rows"
  by (auto simp: stub_GetById_def StubProductCatalog_def demo_rows_def)

lemma demo_product_run: "beans_prog iter talk_beans (BProduct req) = ret (demo_product req)"
  by (auto simp: fun_eq_iff ProductHandler_HandleRequestThrow_def GetProductJson_def product_of_def talk_beans_def
      stub_catalog_port_def stub_catalog_find demo_product_def bindE_def split: sum.split option.split)

lemma sound_of_asks:
  assumes "asks A n m" and "\<And>c. A c \<Longrightarrow> P c" and "steps m" and "\<And>t r t'. m t = (r, t') \<Longrightarrow> \<exists>x. r = Inr x \<and> Q x"
  shows "sound R P m Q"
proof -
  have "hears R m Q"
  proof (unfold hears_def, intro allI impI)
    fix t r t' assume run: "m t = (r, t')"
    show "set (dialogue t) \<subseteq> set (dialogue t') \<and> ((\<forall>e \<in> set (dialogue t'). R e) \<longrightarrow> (\<forall>x. r = Inr x \<longrightarrow> Q x))"
      using stepsD(1) [OF assms(3) run] assms(4) [OF run] by auto
  qed
  moreover have "guarded R P m"
    unfolding guarded_def using asksD(2) [OF assms(1)] assms(2) by (metis option.distinct(1) option.inject)
  ultimately show ?thesis using assms(3) by (simp add: sound_def)
qed

lemma demo_sound_task:
  assumes "\<And>xs. mset (iter xs) = mset xs"
  shows "demo_sound (beans_prog iter talk_beans t) (demo_response t)"
proof (cases t)
  case (BPost req)
  have put: "demo_put c" if "beans_allowed (BPost req) c" for c using that by auto
  show ?thesis
    unfolding BPost beans_prog.simps
  proof (rule sound_of_asks [OF asks_beans_Post put])
    show "steps (ActionHandler_HandleRequestThrow ref_json (action_of talk_beans) req)"
      using steps_beans [of iter "BPost req"] by simp
    fix w r w' assume "ActionHandler_HandleRequestThrow ref_json (action_of talk_beans) req w = (r, w')"
    from ActionHandler_status [OF this] show "\<exists>x. r = Inr x \<and> demo_response (BPost req) x" by auto
  qed
next
  case (BRecommend req)
  show ?thesis
  proof (cases "GetArg req ''user_id'' = []")
    case True
    then show ?thesis by (simp add: BRecommend RecommendHandler_HandleRequestThrow_def sound_ret del: ret_run)
  next
    case False
    then show ?thesis
      unfolding BRecommend beans_prog.simps RecommendHandler_HandleRequestThrow_def Let_def if_not_P [OF False]
      by (intro sound_bindE [OF demo_sound_Recommend [OF assms]]) (auto simp: sound_ret steps_basic simp del: ret_run)
  qed
next
  case (BProduct req)
  show ?thesis unfolding BProduct demo_product_run by (rule sound_ret) simp
qed

text \<open>No request throws.\<close>

lemma demo_returns_ask:
  "returns_on demo_heard (ask (BLastSeen u) seen_in)" "returns_on demo_heard (ask (BMarkSeen u) unit_in)"
  "returns_on demo_heard (ask (BTryGetFeed u) feed_in)" "returns_on demo_heard (ask (BPutFeed u ids ttl) unit_in)"
  "returns_on demo_heard (ask (BTouchFeed u ttl) unit_in)" "returns_on demo_heard (ask (BDropFeed u) unit_in)"
  "returns_on demo_heard (ask (BTryGetGptRanked u) ids_in)" "returns_on demo_heard (ask (BPutGptRanked u ids ttl) unit_in)"
  "returns_on demo_heard (ask (BTryGetSimilar k) ids_in)" "returns_on demo_heard (ask (BPutSimilar k ids ttl) unit_in)"
  "returns_on demo_heard (ask BTryGetPopularGlobal ids_in)" "returns_on demo_heard (ask (BPutPopularGlobal ids ttl) unit_in)"
  by (rule returns_on_ask; force)+

lemma demo_returns: "returns_on demo_heard (beans_prog iter talk_beans t)"
proof (cases t)
  case (BPost req)
  have "\<exists>x. r = Inr x" if "beans_prog iter talk_beans (BPost req) w = (r, w')" for w r w'
    using that ActionHandler_status [of ref_json "action_of talk_beans" req w r w'] by auto
  then show ?thesis unfolding BPost returns_on_def by blast
next
  case (BRecommend req)
  show ?thesis
    unfolding BRecommend beans_prog.simps RecommendHandler_HandleRequestThrow_def GetRecommendations_def rebuild_feed_def
      FetchSources_def fetch_popular_def fetch_gpt_def fetch_similar_def ShouldInvalidateFeed_call_def ClassifyVisit_call_def
      talk_ports Let_def
    by (intro returns_on_bindE returns_on_branch returns_on_basic demo_returns_ask)
next
  case (BProduct req)
  show ?thesis unfolding BProduct demo_product_run by (rule returns_on_basic)
qed

text \<open>The invariant of the pool.\<close>

definition demo_inv :: "beans_pool \<Rightarrow> bool" where
  "demo_inv p \<longleftrightarrow> data_demo (bw_data (objects p)) \<and> (\<forall>(i, c, a, tm) \<in> set (calls p). demo_heard (c, a))"

lemma demo_heard_dialogue:
  assumes "beans_reach iter (beans_start c0 d0) p" and "demo_inv p" and "requests p i = Some t"
    and "e \<in> set (beans_dialogue iter t)"
  shows "demo_heard e"
  using beans_dialogue_calls [OF assms(1,3), of "fst e" "snd e"] assms(2,4) by (fastforce simp: demo_inv_def)

lemma demo_inv_reach:
  assumes "\<And>xs. mset (iter xs) = mset xs" and "beans_reach iter (beans_start c0 d0) p"
  shows "demo_inv p"
  using assms(2) unfolding beans_reach_def
proof (induction rule: rtranclp_induct)
  case base
  show ?case by (simp add: demo_inv_def beans_start_def beans_init_def rhythm_data_init_def data_demo_def)
next
  case (step y z)
  have reach: "beans_reach iter (beans_start c0 d0) y" using step(1) by (simp add: beans_reach_def)
  from step(2) show ?case
  proof cases
    case (served i t c a w')
    obtain r t' where run: "beans_prog iter talk_beans (bt_task t) (talk_of t) = (r, t')" by fastforce
    have "demo_heard e" if "e \<in> set (dialogue t')" for e
      using demo_heard_dialogue [OF reach step.IH served(2)] that run by (simp add: beans_dialogue_def beans_resume_def)
    then have "demo_put c"
      using demo_sound_task [OF assms(1)] run served(3)
      unfolding sound_def guarded_def beans_waiting_def beans_resume_def by (metis snd_conv talk.select_convs(2) talk_of_def)
    from demo_serve [OF _ this served(4)] step.IH served(1) show ?thesis by (auto simp: demo_inv_def)
  qed (use step.IH in \<open>simp_all add: demo_inv_def\<close>)
qed

lemma demo_run:
  assumes "\<And>xs. mset (iter xs) = mset xs" and "beans_reach iter (beans_start c0 d0) p"
    and "requests p i = Some t" and "beans_result iter t = Some r"
  obtains t' where "beans_prog iter talk_beans (bt_task t) (talk_of t) = (r, t')" and "asked t' = None"
    and "\<forall>e \<in> set (dialogue t'). demo_heard e"
proof -
  obtain t' where run: "beans_prog iter talk_beans (bt_task t) (talk_of t) = (r, t')" and "asked t' = None"
    using assms(4) by (cases "beans_prog iter talk_beans (bt_task t) (talk_of t)")
      (auto simp: beans_result_def beans_waiting_def beans_resume_def split: option.splits)
  moreover have "\<forall>e \<in> set (dialogue t'). demo_heard e"
    using demo_heard_dialogue [OF assms(2) demo_inv_reach [OF assms(1,2)] assms(3)] run
    by (simp add: beans_dialogue_def beans_resume_def)
  ultimately show thesis by (rule that)
qed

lemma demo_result:
  assumes "\<And>xs. mset (iter xs) = mset xs" and "beans_reach iter (beans_start c0 d0) p"
    and "requests p i = Some t" and "beans_result iter t = Some r"
  shows "\<exists>resp. r = Inr resp \<and> demo_response (bt_task t) resp"
proof -
  from demo_run [OF assms] obtain t' where run: "beans_prog iter talk_beans (bt_task t) (talk_of t) = (r, t')"
    "asked t' = None" and heard: "\<forall>e \<in> set (dialogue t'). demo_heard e" .
  with demo_returns obtain resp where r: "r = Inr resp" unfolding returns_on_def by blast
  have "hears demo_heard (beans_prog iter talk_beans (bt_task t)) (demo_response (bt_task t))"
    using demo_sound_task [OF assms(1)] by (simp add: sound_def)
  from hearsD(2) [OF this run(1) _ r] heard r show ?thesis by blast
qed

text \<open>A well-formed action is never refused.\<close>

lemma demo_post:
  assumes "\<And>xs. mset (iter xs) = mset xs" and "beans_reach iter (beans_start c0 d0) p"
    and "requests p i = Some t" and "beans_result iter t = Some (Inr resp)" and "bt_task t = BPost req"
  shows "rsp_status resp = (case request_payload ref_json req of None \<Rightarrow> kBadRequest
    | Some q \<Rightarrow> if valid_payload q then kAccepted else kBadRequest)"
proof -
  obtain t' where run: "ActionHandler_HandleRequestThrow ref_json (action_of talk_beans) req (talk_of t) = (Inr resp, t')"
    and over: "asked t' = None" and heard: "\<forall>e \<in> set (dialogue t'). demo_heard e"
    by (rule demo_run [OF assms(1-4)]) (use assms(5) in simp)
  show ?thesis
  proof (cases "request_payload ref_json req")
    case None
    from ActionHandler_no_payload [OF None, of "action_of talk_beans" "talk_of t"] run show ?thesis by (auto simp: None reply_def)
  next
    case (Some q)
    note handle = run [unfolded ActionHandler_payload [OF Some]]
    show ?thesis
    proof (cases "valid_payload q")
      case False
      with handle Some show ?thesis by (auto simp: HandleAction_invalid reply_def)
    next
      case True
      have "returns_on demo_heard (HandleAction ref_json (action_of talk_beans) q)"
        unfolding talk_HandleAction [OF True]
        by (intro returns_on_bindE returns_on_branch returns_on_basic; rule returns_on_ask; force)
      with handle over heard True Some show ?thesis
        unfolding returns_on_def by (fastforce simp: reply_def split: prod.splits sum.splits)
    qed
  qed
qed

subsection \<open>Accepted events\<close>

definition reserve_key :: "string \<Rightarrow> beans_call" where
  "reserve_key k = BTryReserve k kIdempotencyHold"

text \<open>A call touches the tokens only as the reservation of one, with the hold time of the service.\<close>

lemma beans_token:
  assumes "beans_allowed t c" and "beans_serve c w = (a, w')"
  shows "idempotency (bw_data w') k = idempotency (bw_data w) k \<or>
    c = reserve_key k \<and> a = RBool True \<and> idempotency (bw_data w') k = Some (peek (steady_clk w) + ns_of_secs kIdempotencyHold)"
    and "c = reserve_key k \<Longrightarrow> a = RBool True \<Longrightarrow>
      idempotency (bw_data w') k = Some (peek (steady_clk w) + ns_of_secs kIdempotencyHold) \<and>
      (\<forall>u. idempotency (bw_data w) k = Some u \<longrightarrow> u \<le> peek (steady_clk w))"
proof -
  have w: "w' = snd (beans_serve c w)" and a: "a = fst (beans_serve c w)" using assms(2) by simp_all
  have keep: "idempotency (snd (mem_TryGetFeed now u d)) = idempotency d" "idempotency (snd (mem_TryGetGptRanked now u d)) = idempotency d"
    "idempotency (snd (mem_TryGetSimilar now i d)) = idempotency d" "idempotency (snd (mem_TryGetPopularGlobal now d)) = idempotency d"
    "idempotency (mem_TouchFeed now u ext d) = idempotency d" "idempotency (mem_DropFeed u d) = idempotency d"
    "idempotency (mem_InvalidateUserDerived u d) = idempotency d" "idempotency (mem_PutFeed now u ids ttl d) = idempotency d"
    "idempotency (mem_PutGptRanked now u ids ttl d) = idempotency d" "idempotency (mem_PutSimilar now i ids ttl d) = idempotency d"
    "idempotency (mem_PutPopularGlobal now ids ttl d) = idempotency d" for now u d i ext ids ttl
    by (simp_all add: mem_defs split: option.split)
  have ttl: "ttl = kIdempotencyHold" if "c = BTryReserve tok ttl" for tok ttl
    using assms(1) that by (cases t) auto
  show "idempotency (bw_data w') k = idempotency (bw_data w) k \<or>
    c = reserve_key k \<and> a = RBool True \<and> idempotency (bw_data w') k = Some (peek (steady_clk w) + ns_of_secs kIdempotencyHold)"
    unfolding w a using ttl
    by (cases c) (auto simp: beans_serve_defs keep reserve_key_def mem_TryReserve_def Let_def split: option.split)
  show "idempotency (bw_data w') k = Some (peek (steady_clk w) + ns_of_secs kIdempotencyHold) \<and>
      (\<forall>u. idempotency (bw_data w) k = Some u \<longrightarrow> u \<le> peek (steady_clk w))" if "c = reserve_key k" "a = RBool True"
    using that(2) unfolding w a that(1)
    by (auto simp: beans_serve_defs reserve_key_def mem_TryReserve_def Let_def split: option.splits if_splits)
qed

text \<open>Two grants of a token are the hold time apart, and the token holds at least as long as any of them.\<close>

definition grants_apart :: "string \<Rightarrow> beans_pool \<Rightarrow> bool" where
  "grants_apart k p \<longleftrightarrow>
     (\<forall>i s. (i, reserve_key k, RBool True, s) \<in> set (calls p) \<longrightarrow>
       (\<exists>u. idempotency (bw_data (objects p)) k = Some u \<and> s + ns_of_secs kIdempotencyHold \<le> u)) \<and>
     (\<forall>i j s s'. i \<noteq> j \<longrightarrow> (i, reserve_key k, RBool True, s) \<in> set (calls p) \<longrightarrow> (j, reserve_key k, RBool True, s') \<in> set (calls p) \<longrightarrow>
       s + ns_of_secs kIdempotencyHold \<le> s' \<or> s' + ns_of_secs kIdempotencyHold \<le> s)"

lemma grants_apart_reach:
  assumes "beans_reach iter (beans_start c0 d0) p"
  shows "grants_apart k p"
  using assms unfolding beans_reach_def
proof (induction rule: rtranclp_induct)
  case base
  show ?case by (simp add: grants_apart_def beans_start_def)
next
  case (step y z)
  from step(2) show ?case
  proof cases
    case (served i t c a w')
    note token = beans_token [OF beans_waiting_allowed(1) [OF served(3)] served(4), of k]
    let ?now = "peek (steady_clk (objects y))"
    show ?thesis
    proof (cases "c = reserve_key k \<and> a = RBool True")
      case True
      note new = token(2) [OF True [THEN conjunct1] True [THEN conjunct2]]
      have pos: "0 < ns_of_secs kIdempotencyHold" by simp
      have old: "s + ns_of_secs kIdempotencyHold \<le> ?now" if "(j, reserve_key k, RBool True, s) \<in> set (calls y)" for j s
        using step.IH that new unfolding grants_apart_def by (meson order_trans)
      moreover have "s \<le> ?now" if "(j, reserve_key k, RBool True, s) \<in> set (calls y)" for j s
        using old [OF that] pos by linarith
      ultimately show ?thesis
        using step.IH new served(1) True unfolding grants_apart_def by auto
    next
      case False
      with token(1) have "idempotency (bw_data w') k = idempotency (bw_data (objects y)) k" by blast
      with False step.IH served(1) show ?thesis by (auto simp: grants_apart_def)
    qed
  qed (use step.IH in \<open>simp_all add: grants_apart_def\<close>)
qed

text \<open>The log is what was published.\<close>

definition published :: "(nat \<times> beans_call \<times> beans_answer \<times> time) list \<Rightarrow> event_log" where
  "published h = concat (map (\<lambda>(i, c, a, tm). case c of BPublish rk body \<Rightarrow> [(rk, body)] | _ \<Rightarrow> []) h)"

lemma log_reach:
  assumes "beans_reach iter (beans_start c0 d0) p"
  shows "bw_log (objects p) = published (calls p)"
  using assms unfolding beans_reach_def
proof (induction rule: rtranclp_induct)
  case base
  show ?case by (simp add: published_def beans_start_def beans_init_def)
next
  case (step y z)
  from step(2) show ?case
  proof cases
    case (served i t c a w')
    have w: "w' = snd (beans_serve c (objects y))" using served(4) by simp
    have "bw_log w' = bw_log (objects y) @ (case c of BPublish rk body \<Rightarrow> [(rk, body)] | _ \<Rightarrow> [])"
      unfolding w by (cases c) (simp_all add: beans_serve_defs log_PublishJson_def)
    with step.IH served(1) show ?thesis by (simp add: published_def)
  qed (use step.IH in simp_all)
qed

text \<open>A request answered as accepted was granted its token and has published its event.\<close>

definition beans_accepted :: "(item list \<Rightarrow> item list) \<Rightarrow> beans_thread \<Rightarrow> action_payload \<Rightarrow> bool" where
  "beans_accepted iter t q \<longleftrightarrow> (\<exists>req. bt_task t = BPost req \<and> request_payload ref_json req = Some q \<and>
     beans_result iter t = Some (Inr (reply kAccepted (JsonActionAccepted ref_json False))))"

definition publish_event :: "action_payload \<Rightarrow> beans_call" where
  "publish_event q = BPublish ''user.action'' (ToString ref_json (action_doc q))"

lemma accepted_body: "JsonActionAccepted ref_json True \<noteq> JsonActionAccepted ref_json False"
proof
  assume "JsonActionAccepted ref_json True = JsonActionAccepted ref_json False"
  then have "FromString ref_json (JsonActionAccepted ref_json True) = FromString ref_json (JsonActionAccepted ref_json False)"
    by simp
  then show False using ref_json_codec_ok unfolding codec_ok_def JsonActionAccepted_def by simp
qed

lemma accepted_dialogue:
  assumes "beans_accepted iter t q"
  shows "(reserve_key (ap_idempotency_key q), RBool True) \<in> set (beans_dialogue iter t)"
    and "(publish_event q, RUnit ()) \<in> set (beans_dialogue iter t)"
proof -
  obtain req where req: "bt_task t = BPost req" "request_payload ref_json req = Some q"
    and res: "beans_result iter t = Some (Inr (reply kAccepted (JsonActionAccepted ref_json False)))"
    using assms by (auto simp: beans_accepted_def)
  obtain h t' where H: "HandleAction ref_json (action_of talk_beans) q (talk_of t) = (h, t')" by fastforce
  have run: "beans_resume iter t = (case h of
      Inl e \<Rightarrow> (Inr (reply kBadRequest (JsonError ref_json (what e))), t')
    | Inr r \<Rightarrow> (Inr (reply kAccepted (JsonActionAccepted ref_json (r = Duplicate))), t'))"
    using ActionHandler_payload [OF req(2), of "action_of talk_beans" "talk_of t"] H
    by (simp add: beans_resume_def req(1) split: sum.split)
  have h: "h = Inr Accepted"
  proof (cases h)
    case (Inl e)
    with run res show ?thesis by (auto simp: beans_result_def reply_def split: option.splits)
  next
    case (Inr r)
    with run res accepted_body show ?thesis by (cases r) (auto simp: beans_result_def reply_def split: option.splits)
  qed
  have valid: "valid_payload q" by (rule HandleAction_returns_valid [OF H [unfolded h]])
  have d: "beans_dialogue iter t = dialogue t'" using run h by (simp add: beans_dialogue_def)
  have b: "bool_in a = Inr r \<longleftrightarrow> a = RBool r" and u: "unit_in a = Inr () \<longleftrightarrow> a = RUnit ()" for a r
    by (cases a; simp add: odd_answer_def)+
  have "(reserve_key (ap_idempotency_key q), RBool True) \<in> set (dialogue t') \<and> (publish_event q, RUnit ()) \<in> set (dialogue t')"
    using H [unfolded talk_HandleAction [OF valid]] h
    by (auto simp: bindE_def ask_def b u reserve_key_def publish_event_def talk_of_def split: list.splits sum.splits if_splits prod.splits)
  then show "(reserve_key (ap_idempotency_key q), RBool True) \<in> set (beans_dialogue iter t)"
    and "(publish_event q, RUnit ()) \<in> set (beans_dialogue iter t)" by (simp_all add: d)
qed

text \<open>A request whose token is free can be served without interruption, and is accepted.\<close>

definition post_thread :: "http_request \<Rightarrow> clock \<Rightarrow> beans_answer list \<Rightarrow> beans_thread" where
  "post_thread req c as = \<lparr>bt_task = BPost req, bt_answers = as, bt_sys_clk = c, bt_steady_clk = c\<rparr>"

lemma post_thread_run:
  assumes "request_payload ref_json req = Some q" and "valid_payload q"
  shows "beans_waiting iter (post_thread req c []) = Some (reserve_key (ap_idempotency_key q))"
    and "beans_waiting iter (post_thread req c [RBool True]) = Some (publish_event q)"
    and "beans_accepted iter (post_thread req c [RBool True, RUnit ()]) q"
proof -
  have run: "beans_resume iter (post_thread req c as) =
      (case HandleAction ref_json (action_of talk_beans) q (talk_of (post_thread req c as)) of
        (Inl e, w') \<Rightarrow> (Inr (reply kBadRequest (JsonError ref_json (what e))), w')
      | (Inr r, w') \<Rightarrow> (Inr (reply kAccepted (JsonActionAccepted ref_json (r = Duplicate))), w'))" for as
    using ActionHandler_payload [OF assms(1), of "action_of talk_beans" "talk_of (post_thread req c as)"]
    by (simp add: beans_resume_def post_thread_def)
  note handle = beans_result_def beans_waiting_def run [unfolded talk_HandleAction [OF assms(2)]]
    and ports = bindE_def ask_def talk_of_def post_thread_def reserve_key_def publish_event_def
  show "beans_waiting iter (post_thread req c []) = Some (reserve_key (ap_idempotency_key q))"
    "beans_waiting iter (post_thread req c [RBool True]) = Some (publish_event q)" unfolding handle by (simp_all add: ports)
  have "beans_result iter (post_thread req c [RBool True, RUnit ()]) =
    Some (Inr (reply kAccepted (JsonActionAccepted ref_json False)))" unfolding handle by (simp add: ports)
  then show "beans_accepted iter (post_thread req c [RBool True, RUnit ()]) q"
    using assms(1) unfolding beans_accepted_def by (auto simp: post_thread_def)
qed

lemma hear_post_thread [simp]: "hear_beans a (post_thread req c as) = post_thread req c (as @ [a])"
  by (simp add: hear_beans_def post_thread_def)

text \<open>A free token is granted, with the hold time from now.\<close>

lemma reserve_free:
  assumes "ap_idempotency_key q \<noteq> []" and "\<And>u. idempotency (bw_data w) (ap_idempotency_key q) = Some u \<Longrightarrow> u \<le> now"
    and "steady_clk w = \<lparr>readings = \<lambda>_. now, pos = 0\<rparr>"
  obtains w' where "beans_serve (reserve_key (ap_idempotency_key q)) w = (RBool True, w')"
    and "idempotency (bw_data w') (ap_idempotency_key q) = Some (now + ns_of_secs kIdempotencyHold)"
proof -
  let ?c = "reserve_key (ap_idempotency_key q)"
  have "idempotency (bw_data w) (ap_idempotency_key q) = None \<or>
      (\<exists>u. idempotency (bw_data w) (ap_idempotency_key q) = Some u \<and> u \<le> now)"
    using assms(2) by (cases "idempotency (bw_data w) (ap_idempotency_key q)") auto
  with assms(1,3) have "fst (beans_serve ?c w) = RBool True \<and>
      idempotency (bw_data (snd (beans_serve ?c w))) (ap_idempotency_key q) = Some (now + ns_of_secs kIdempotencyHold)"
    by (auto simp: reserve_key_def beans_serve_defs mem_TryReserve_def peek_def Let_def)
  then show thesis using that by (metis prod.collapse)
qed

lemma accept_post:
  assumes "requests p i = None" and req: "request_payload ref_json req = Some q" and valid: "valid_payload q"
    and free: "\<And>u. idempotency (bw_data (objects p)) (ap_idempotency_key q) = Some u \<Longrightarrow> u \<le> now"
  shows "\<exists>p' t. beans_reach iter p p' \<and> requests p' = (requests p)(i \<mapsto> t) \<and> beans_accepted iter t q \<and>
    idempotency (bw_data (objects p')) (ap_idempotency_key q) = Some (now + ns_of_secs kIdempotencyHold)"
proof -
  let ?c = "\<lparr>readings = \<lambda>_. now, pos = 0\<rparr>" and ?k = "ap_idempotency_key q"
  note run = post_thread_run [OF req valid, where c = ?c and iter = iter]
  let ?p0 = "p\<lparr>objects := (objects p)\<lparr>sys_clk := ?c, steady_clk := ?c\<rparr>\<rparr>"
  let ?p1 = "?p0\<lparr>requests := (requests p)(i \<mapsto> post_thread req ?c [])\<rparr>"
  have s0: "beans_step iter p ?p0" by (rule beans_step.clock)
  have s1: "beans_step iter ?p0 ?p1"
    using beans_step.start [of ?p0 i iter "BPost req" ?c ?c] assms(1) by (simp add: fresh_request_def post_thread_def)
  have key: "?k \<noteq> []" using valid by (simp add: valid_payload_def)
  obtain w2 where r: "beans_serve (reserve_key ?k) (objects ?p1) = (RBool True, w2)"
    and w2: "idempotency (bw_data w2) ?k = Some (now + ns_of_secs kIdempotencyHold)"
    by (rule reserve_free [OF key, of "objects ?p1" now]) (use free in simp_all)
  let ?p2 = "?p1\<lparr>objects := w2, requests := (requests p)(i \<mapsto> post_thread req ?c [RBool True]),
    calls := calls p @ [(i, reserve_key ?k, RBool True, peek (steady_clk (objects ?p1)))]\<rparr>"
  have s2: "beans_step iter ?p1 ?p2" using beans_step.served [of ?p1 i _ iter, OF _ run(1) r] by simp
  obtain w3 where pub: "beans_serve (publish_event q) (objects ?p2) = (RUnit (), w3)" and w3: "bw_data w3 = bw_data w2"
    by (simp add: publish_event_def beans_serve_defs)
  let ?p3 = "?p2\<lparr>objects := w3, requests := (requests p)(i \<mapsto> post_thread req ?c [RBool True, RUnit ()]),
    calls := calls ?p2 @ [(i, publish_event q, RUnit (), peek (steady_clk (objects ?p2)))]\<rparr>"
  have s3: "beans_step iter ?p2 ?p3" using beans_step.served [of ?p2 i _ iter, OF _ run(2) pub] by simp
  have "beans_reach iter p ?p3"
    unfolding beans_reach_def using s0 s1 s2 s3 by (meson rtranclp.rtrancl_refl rtranclp.rtrancl_into_rtrancl)
  with run(3) w2 w3 show ?thesis by (intro exI [of _ ?p3] exI [of _ "post_thread req ?c [RBool True, RUnit ()]"]) simp
qed

end
