(* ===== verification/Spec2Isabelle.thy ===== *)
theory Spec2Isabelle
  imports Ranking Stale_Feed Startup Broker_Restart Beans_Pool
begin

text \<open>
  Rhythm-service-base is a recommendation service in C++: an HTTP server and a worker around
  Redis, Postgres and RabbitMQ, on the userver framework. This library models all the C++ of
  \<^verbatim>\<open>src/\<close> that decides anything, and proves it correct up to documented behaviour of the
  three servers.

  \<^bold>\<open>The program.\<close> \<^verbatim>\<open>POST /action\<close> checks a user action, reserves its
  idempotency key for 48 hours and publishes it as JSON. The worker takes the messages from
  the queue, inserts each into the table \<^verbatim>\<open>user_actions\<close>, unless the table has the key of the
  user already, and invalidates what Redis keeps of the user. \<^verbatim>\<open>GET /recommend\<close> answers
  from a feed cached in Redis, or merges the history of the user, the popular products, a
  ranking and the neighbours of a product into a new feed, caches it and answers its first
  fifty ids. \<^verbatim>\<open>GET /product\<close> answers a row of the catalogue. Without a server, its part
  is played by an object in the process. Build flags choose.

  \<^bold>\<open>Theories, bottom up.\<close>

  \<^item> \<open>Prelude\<close>: 64-bit and 32-bit words, time in nanoseconds, exceptions, programs that
    read and change a world and may throw (an exception keeps what was done before it), the two clocks,
    \<^verbatim>\<open>std::to_string\<close> and \<^verbatim>\<open>std::stoll\<close>.
  \<^item> \<open>Ports\<close> (\<^verbatim>\<open>infra/ports.hpp\<close>): every interface as a record of operations and
    its contract as a locale: a cache with time-to-live, an idempotency store, a visit ledger.
  \<^item> \<open>Ttl_Policy\<close> (\<^verbatim>\<open>domain/ttl_policy\<close>), \<open>Visit_Ledger\<close>
    (\<^verbatim>\<open>infra/visit_ledger\<close>), \<open>In_Memory\<close> (\<^verbatim>\<open>infra/in_memory_stubs\<close>):
    each method a function of the reading of the clock it makes and of the object's state.
  \<^item> \<open>Json_Model\<close> (\<^verbatim>\<open>handlers/http_json_helpers.hpp\<close>): values of the JSON library,
    which is the argument \<open>json_lib\<close>; \<open>Json_Codec\<close> is one library that keeps what is relied on,
    with the length of the text as fuel, which is enough since a value nests less deep.
  \<^item> \<open>Redis_Keyspace\<close> (\<^verbatim>\<open>infra/redis_keyspace.hpp\<close>), \<open>Redis_Server\<close> (the laws
    of the commands as a locale and a reference server with injected faults), \<open>Redis_Data\<close>
    (\<^verbatim>\<open>infra/redis_rhythm_data\<close>: a method is the sequence of its commands).
  \<^item> \<open>Pg_Server\<close> and \<open>Pg_Data\<close> (\<^verbatim>\<open>infra/pg_rhythm_data\<close>): the tables, the client, and
    each SQL statement by its meaning, a function of plan, clock and tables that may fail.
  \<^item> \<open>Rabbit_Publisher\<close> (\<^verbatim>\<open>infra/rabbitmq_event_publisher\<close>): broker, start, publication, with the
    durability of what is declared and the type of what is published.
  \<^item> \<open>Action_Service\<close>, \<open>Recommendation_Service\<close>, \<open>Product_Service\<close>
    (\<^verbatim>\<open>services/\<close>), \<open>Handlers\<close> (\<^verbatim>\<open>handlers/\<close>), \<open>Worker\<close>
    (\<^verbatim>\<open>workers/user_action_consumer\<close>): parametric in the ports and the world.
  \<^item> \<open>Beans\<close> (\<^verbatim>\<open>app/beans.hpp\<close>): the services on the objects in the process.
    \<open>App_Wiring\<close> (\<^verbatim>\<open>app/\<close>, \<^verbatim>\<open>main.cpp\<close>, \<^verbatim>\<open>worker_main.cpp\<close>): which component a
    build registers and which port a handler gets. \<open>Static_Config\<close>: the schemas and the
    constructors that read the configuration.
  \<^item> \<open>Stack\<close>: the services on the three servers together. \<open>System\<close>: requests and
    deliveries one after another, as a step relation. \<open>Totality\<close>: on which tables the queries and with them
    recommendations return.
  \<^item> \<open>Startup\<close>: what the two programs construct from the configurations of the repository,
    and what they declare before they serve.
  \<^item> \<open>Threads\<close>, \<open>Pool\<close>, \<open>Sequential\<close>, \<open>Delivery\<close>, \<open>Fairness\<close>, \<open>Answers\<close>,
    \<open>Responses\<close>, \<open>Liveness\<close>, \<open>Ranking\<close>, \<open>Races\<close>, \<open>Stale_Feed\<close>, \<open>Broker_Restart\<close>: requests and deliveries at
    the same time, described next. \<open>Beans_Threads\<close>, \<open>Beans_Pool\<close>: the same for the requests of the default
    build. \<open>Dialogues\<close>: what both rest on.

  \<^bold>\<open>Concurrency.\<close> The operations are parametric in the ports and clients. In \<open>Threads\<close>
  the same definitions run on clients that read their answers from a list (\<open>Dialogues\<close>), so a request or a
  delivery under way is its task and the answers it has had, and what it waits for is the first command
  without one. A step of \<open>Pool\<close> starts a thread, serves the command one thread waits for on
  the reference servers, acknowledges a message whose processing has returned, or moves a clock. Between
  any two commands any other thread may run; a thread that is never served again has died; a
  message is delivered as often as one likes until it is acknowledged; a command may fail before or
  after it took effect, as the initial world says for each. \<open>Sequential\<close> proves that a thread
  served without interruption does what the program does on the servers themselves, so the
  runs of \<open>System\<close> are runs of \<open>Pool\<close>. \<open>Delivery\<close> follows an accepted event to
  its row, and \<open>Fairness\<close> along runs without end in which the servers answer and the broker delivers;
  \<open>Answers\<close> and \<open>Responses\<close> carry facts about all answers of the servers to what a
  thread responds, and \<open>Liveness\<close> the absence of failures; \<open>Ranking\<close> proves by rely and guarantee what every
  cache and every response holds; \<open>Races\<close> stops a request before its last command and lets the world go on,
  and \<open>Stale_Feed\<close> follows what it then stores to the user. The broker is up in all these runs: it fails calls, but
  keeps what it has. \<open>Broker_Restart\<close> adds its restart, which loses the messages, since the code
  publishes transient ones and declares nothing durable; what is said of accepted events in C3, C4, C8
  and C30 holds as long as none happens.
  A thread gives at most \<open>command_bound\<close> commands: 2 for a POST request, 21 for a GET request of
  recommendations, 1 for one of a product, 4 for a delivery. These bounds are proved, not assumed.
  A binary without flags has no servers: in \<open>Beans_Threads\<close> its services run on ports that wait for the shared
  objects instead, and a step of \<open>Beans_Pool\<close> starts a request, makes one call of an object, which holds its
  mutex for the call, or moves the clocks. There the bounds are 2 for POST and 11 for recommendations.

  \<^bold>\<open>What is shown.\<close> For the whole under every interleaving: the invariant of tables, queue and
  cache (C1); an accepted event is waiting or stored at every moment, until a restart of the broker loses
  those that wait (C2), can always be brought to rest, stored (C3), and is stored in every fair run, in which also every request ends (C4), unless
  the database refuses its texts; a key is accepted once in 48 hours (C5); every response is a good one (C6); what is recommended is the specified
  ranking of the specified sources (C7); in a fair run, once the servers have stopped failing, what is asked for is
  given (C8); requests and deliveries are bounded (C9); one request at a time is a special case (C10); and the
  programs, as they are configured, start into this system (C11). For the default build under every interleaving: what
  every request is answered (C13), and that a key is accepted once in 48 hours (C14). For the parts: each component's properties stand in its
  theory, before them the lemmas they use, and in \<open>Stack\<close> those of services on servers. The contracts of
  \<open>Ports\<close> and of the servers are locales with the clients' lemmas inside; each is interpreted on
  the model of the component that provides it, and the servers' on the reference servers. Several
  properties state where the code falls short of its comments: an event whose publication failed is
  lost to its retries, an event with a text the database refuses is accepted and waits for ever, a feed
  built before an event can be served after the invalidation for that event, a restart of the broker loses
  accepted events, one oversized product id stops every new feed, a user named \<^verbatim>\<open>idempotency\<close> shares keys with tokens.

  \<^bold>\<open>Servers and libraries\<close> are not under \<^verbatim>\<open>src/\<close>: Redis, Postgres, RabbitMQ, the JSON library
  and the framework are arguments (records of calls), with the laws that are relied on as locales or
  named hypotheses. A time-out is a call that throws. Some texts Postgres never takes, such as one with a
  zero byte or one too long for the index: which ones is a part of the world, \<open>pg_refuses\<close>, and what is said of
  servers that have stopped failing is said of the texts they take. The order in which a hash map is walked is the
  argument \<open>iter\<close>, any rearrangement.

  \<^bold>\<open>Not modelled.\<close> Log lines, except for the queue whose log line is its effect; the check of a configuration
  against its schema and the conversion of scalars, which are the framework's; indexes of
  \<^verbatim>\<open>sql/\<close> other than the unique one of \<^verbatim>\<open>user_actions\<close>; tests, scripts, containers. Builds
  with some of the flags are modelled to their wiring (C38) and by the services, which are parametric, but have no
  pool of their own.
\<close>

section \<open>Properties of the system under any interleaving\<close>

text \<open>
  C1. In every state that requests and deliveries running at the same time can reach from an
  empty start, interleaved at every command, with servers that fail before or after a command
  took effect, threads that die, messages delivered again and clocks that read anything: no
  two rows of \<^verbatim>\<open>user_actions\<close> share a user and an idempotency key; every row and
  every waiting message comes from a payload that passed validation; and every feed in Redis
  has at most a hundred ids, each once.
\<close>

theorem pool_safety:
  assumes "\<And>xs. mset (iter xs) = mset xs" and "sys_start w" and "pool_reach iter (pool_of w) p"
  shows "keys_unique (pg_master (shared p)) \<and> (\<forall>a \<in> set (user_actions (pg_master (shared p))). event_row a) \<and>
    (\<forall>m \<in> set (worker_queue (shared p)). event_message m) \<and>
    (\<forall>u ids. redis_cached kv ref_json (shared p) u = Some ids \<longrightarrow> good_feed ids)"
proof -
  from pool_inv_reach [OF assms(1) pool_inv_start [OF assms(2)] assms(3)]
  have inv: "sys_inv (shared p)" by (simp add: pool_inv_def)
  then have "\<forall>m \<in> set (worker_queue (shared p)). event_message m"
    using worker_queue_eq [of "shared p"] by (auto simp: sys_inv_def broker_inv_def)
  with inv show ?thesis by (simp add: sys_inv_def db_inv_def cache_inv_def redis_cached_def)
qed

text \<open>
  C2. An accepted event is kept as long as the broker is up, and only so long. Whenever a request has been
  answered as accepted, and whatever requests and deliveries run and fail at the same time and
  afterwards, its message waits in the queue of the worker or the table holds a row of its user and
  key. But the publisher declares an exchange and a queue that are not durable, and publishes
  transient messages: after a restart of the broker, whatever follows short of a new start of the server, no message
  waits, so without a delivery under way the tables stay as they are and the events without a row are lost, and no
  request that comes in is accepted. Nor would a durable queue have kept a message.
\<close>

theorem accepted_event_kept_until_restart:
  assumes "\<And>xs. mset (iter xs) = mset xs" and "sys_start w" and "pool_reach iter (pool_of w) p"
    and "threads p i = Some t" and "accepted_post iter t q"
  shows "(ToString ref_json (action_doc q) \<in> set (worker_queue (shared p)) \<or> has_row q (pg_master (shared p))) \<and>
    (\<forall>p'. pool_reach iter (restart_broker p) p' \<longrightarrow> worker_queue (shared p') = [] \<and>
      (none_delivers iter p \<longrightarrow> pg_master (shared p') = pg_master (shared p)) \<and>
      (\<forall>j u q'. threads p j = None \<and> threads p' j = Some u \<longrightarrow> \<not> accepted_post iter u q')) \<and>
    (\<forall>D. queues (broker_restart ((rb (shared p))\<lparr>durable_queues := D\<rparr>)) user_queue \<in> {None, Some []})"
proof (intro conjI allI impI)
  obtain tm where "(i, publish_call q, AUnit (Inr ()), tm) \<in> set (history p)"
    using accepted_served(2) [OF assms(3-5)] by blast
  from published_safe [OF assms(1-3) this]
  show "ToString ref_json (action_doc q) \<in> set (worker_queue (shared p)) \<or> has_row q (pg_master (shared p))"
    by (auto simp: safe_message_def)
  have inv: "sys_inv (shared p)"
    using pool_inv_reach [OF assms(1) pool_inv_start [OF assms(2)] assms(3)] by (simp add: pool_inv_def)
  fix p' assume p': "pool_reach iter (restart_broker p) p'"
  note gone = undeclared_reach [OF assms(1) p' restart_undeclared [OF inv]]
  show "worker_queue (shared p') = []" by (rule undeclared_queue [OF gone(1)])
  show "pg_master (shared p') = pg_master (shared p)" if "none_delivers iter p"
    using gone(3) that by (simp add: none_delivers_def restart_broker_def)
  show "\<not> accepted_post iter u q'" if "threads p j = None \<and> threads p' j = Some u" for j u q'
    using restart_accepts_nobody [OF assms(1,3) inv p'] that by blast
next
  show "queues (broker_restart ((rb (shared p))\<lparr>durable_queues := D\<rparr>)) user_queue \<in> {None, Some []}" for D
    by (rule restart_empties [OF transient_reach [OF assms(1-3)]])
qed

text \<open>
  C3. Everything comes to rest: from every state that can be reached, once the servers stop
  failing, the system can run on until all its requests and deliveries have returned, no
  message waits but those with a text the database refuses, and every other event that was accepted has its row.
\<close>

theorem pool_settles:
  assumes "\<And>xs. mset (iter xs) = mset xs" and "sys_start w" and "pool_reach iter (pool_of w) p"
    and "no_more_faults (shared p)"
  shows "\<exists>p'. pool_reach iter p p' \<and> tasks p \<subseteq>\<^sub>m tasks p' \<and> settled iter p' \<and>
    (\<forall>m \<in> set (worker_queue (shared p')). refused_message (shared p') m) \<and>
    (\<forall>i t q. threads p i = Some t \<and> accepted_post iter t q \<and> storable (shared p) q \<longrightarrow> has_row q (pg_master (shared p')))"
  using settle [OF assms] settled_rows [OF assms(1-3)] by metis

text \<open>
  C4. In every fair run, however it interleaves, fails and delivers again, every request and every delivery
  comes to its end, and every event that was accepted, and has no text the database refuses, is in the table
  for good some time after the servers have stopped failing. Fair means that a thread that waits for a server
  is answered at some time and that a message that stays in the queue is given to a new delivery at some time.
\<close>

theorem fair_runs_settle:
  assumes "\<And>xs. mset (iter xs) = mset xs" and "sys_start w" and "\<sigma> 0 = pool_of w" and "fair_run iter \<sigma>"
  shows "(\<forall>n i t. threads (\<sigma> n) i = Some t \<longrightarrow>
      (\<exists>k \<ge> n. \<exists>t'. threads (\<sigma> k) i = Some t' \<and> th_task t' = th_task t \<and> result iter t' \<noteq> None)) \<and>
    (\<forall>n i t q. no_more_faults (shared (\<sigma> n)) \<and> threads (\<sigma> n) i = Some t \<and> accepted_post iter t q \<and>
        storable (shared (\<sigma> n)) q \<longrightarrow>
      (\<exists>k \<ge> n. \<forall>m \<ge> k. has_row q (pg_master (shared (\<sigma> m)))))"
  using fair_returns [OF assms(1,4)] fair_stores [OF assms] by blast

text \<open>
  C5. One idempotency key is accepted at most once in 48 hours: two requests with the same
  key that are answered as accepted were granted their reservations at times of the Redis
  server at least the hold time apart, however their commands and those of all other requests
  and deliveries are interleaved and fail. No user id may read or begin like
  \<^verbatim>\<open>idempotency\<close>: the keys of such a user are those of tokens.
\<close>

theorem pool_accepted_spaced:
  assumes "\<And>xs. mset (iter xs) = mset xs" and "pool_reach iter (pool_of w) p"
    and "\<forall>t \<in> ran (threads p). calm (th_task t)"
    and "threads p i = Some t" and "threads p j = Some t'" and "i \<noteq> j"
    and "accepted_post iter t q" and "accepted_post iter t' q'" and "ap_idempotency_key q' = ap_idempotency_key q"
  shows "\<exists>s s'. (i, reserve_call (ap_idempotency_key q), ABool (Inr True), s) \<in> set (history p) \<and>
    (j, reserve_call (ap_idempotency_key q), ABool (Inr True), s') \<in> set (history p) \<and>
    (s + ns_of_secs kIdempotencyHold \<le> s' \<or> s' + ns_of_secs kIdempotencyHold \<le> s)"
proof -
  let ?k = "ap_idempotency_key q"
  obtain s s' where g: "(i, reserve_call ?k, ABool (Inr True), s) \<in> set (history p)"
    "(j, reserve_call ?k, ABool (Inr True), s') \<in> set (history p)"
    using accepted_served(1) [OF assms(2,4,7)] accepted_served(1) [OF assms(2,5,8)] assms(9) by auto
  have "sorted_wrt spaced (grant_times ?k (history p))" using grants_kept [OF assms(1-3)] by (simp add: grants_inv_def)
  from grants_two [OF this g assms(6)] g show ?thesis by (auto simp: spaced_def)
qed

text \<open>
  C6. Every response, whatever runs and fails at the same time: \<^verbatim>\<open>POST /action\<close> is
  answered 202 or 400; \<^verbatim>\<open>GET /recommend\<close> with a user id is answered with status 200 and a document of at
  most fifty ids, each once, without one 400; \<^verbatim>\<open>GET /product\<close> is answered with the row the catalogue has
  for the id, with 404 if it has none, 400 if there is no such id; and a delivery answers nobody. Of the
  catalogue it is assumed that master and replica held the same at the start; nothing of the program writes it.
\<close>

theorem pool_responses:
  assumes "\<And>xs. mset (iter xs) = mset xs" and "sys_start w" and "catalogue ps w" and "pool_reach iter (pool_of w) p"
    and "threads p i = Some t" and "result iter t = Some (Inr (Responded resp))"
  shows "case th_task t of
      Post req \<Rightarrow> rsp_status resp \<in> {kAccepted, kBadRequest}
    | Recommend req \<Rightarrow>
        if GetArg req ''user_id'' = [] then resp = reply kBadRequest (JsonError ref_json ''missing_user_id'')
        else \<exists>ids. resp = reply kOk (ToString ref_json (items_doc ids)) \<and> length ids \<le> 50 \<and> distinct ids
    | Product req \<Rightarrow> resp = product_response ps req
    | Deliver m \<Rightarrow> False"
proof (cases "th_task t")
  case (Recommend req)
  show ?thesis
  proof (cases "GetArg req ''user_id'' = []")
    case True
    with Recommend assms(6) show ?thesis
      by (simp add: result_def waiting_def resume_def RecommendHandler_HandleRequestThrow_def split: option.splits)
  next
    case False
    from recommendation_good [OF assms(1,2,4,5) Recommend this assms(6)] False Recommend show ?thesis
      by (simp add: kFeedListSize_def)
  qed
qed (use action_answered assms(6) product_answered [OF assms(1,3-5) _ assms(6)] delivery_answers_nobody in auto)

text \<open>
  C7. What is recommended, whatever runs, fails and dies at the same time: the ids of every response to
  \<^verbatim>\<open>GET /recommend\<close> with a user id are the first fifty of the one list that holds the ids of four
  sources, each once, in the order of their weighted number of occurrences (\<open>weight\<close>) and then of the id. The sources
  are what their specifications give on the catalogue with rows the table has had: the recent products of
  the user, the popular products, the ranking of the user, and the neighbours of the first recent or popular
  product, or the popular products again when it has none. They may have been read from
  caches, at different times and by other requests, and so may the list. Master and replica held the same catalogue and
  no actions at the start.
\<close>

theorem recommendations_ranked:
  assumes "\<And>xs. mset (iter xs) = mset xs" and "sys_start w" and "catalogue ps w" and "user_actions (pg_replica w) = []"
    and "pool_reach iter (pool_of w) p" and "threads p i = Some t" and "th_task t = Recommend req"
    and "GetArg req ''user_id'' \<noteq> []" and "result iter t = Some (Inr (Responded resp))"
  shows "\<exists>s L. sources_ok ps (user_actions (pg_master (shared p))) (GetArg req ''user_id'') s \<and>
    set L = source_ids s \<and> sorted_wrt (ranked_before s) L \<and>
    resp = reply kOk (ToString ref_json (items_doc (take 50 L)))"
proof -
  have "lagging w" by (auto simp: lagging_def assms(4) intro: exI [of _ 0])
  from recommendations_top [OF assms(1-3) this assms(5-9)] show ?thesis
    by (auto simp: top_ids_def ranking_def table_def kFeedListSize_def)
qed

text \<open>
  C8. And what starts once the servers have stopped failing is served well, in every fair run: a valid event is
  answered 202, recommendations 200, a product by the catalogue, and a delivery is processed without an exception,
  whatever runs at the same time, dies or was left behind by earlier failures, however the clocks read and
  however far the replica is behind. No product may have two rows, and no stored action a numeric product id
  beyond 64 bits, on which the queries fail, and the database has to take the user id or the event as text.
\<close>

theorem fair_requests_answered:
  assumes "\<And>xs. mset (iter xs) = mset xs" and "sys_start w" and "catalogue ps w" and "distinct (map pr_id ps)"
    and "user_actions (pg_replica w) = []" and "\<sigma> 0 = pool_of w" and "fair_run iter \<sigma>"
    and "\<And>k. ids_fit (pg_master (shared (\<sigma> k)))" and "unfailing (shared (\<sigma> n))"
    and "threads (\<sigma> n) i = None" and "n \<le> m" and "threads (\<sigma> m) i = Some t" and "texts_taken w (th_task t)"
  shows "\<exists>k \<ge> m. \<exists>t'. threads (\<sigma> k) i = Some t' \<and> th_task t' = th_task t \<and> served_well iter ps t'"
proof -
  have run: "pool_run iter \<sigma>" using assms(7) by (simp add: fair_run_def)
  obtain k t' where k: "m \<le> k" "threads (\<sigma> k) i = Some t'" "th_task t' = th_task t" "result iter t' \<noteq> None"
    using fair_returns [OF assms(1,7,12)] by blast
  have reach: "pool_reach iter (pool_of w) (\<sigma> k)" using pool_run_reach [OF run, of 0 k] assms(6) by simp
  have "lagging w" by (auto simp: lagging_def assms(5) intro: exI [of _ 0])
  moreover have "texts_taken w (th_task u)" if "threads (\<sigma> l) i = Some u" for l u
    using that thread_reach [OF pool_run_reach [OF run, of l m]] thread_reach [OF pool_run_reach [OF run, of m l]]
      assms(12,13) by (cases "l \<le> m") fastforce+
  ultimately have fine: "fine (c, a)" if "(i, c, a, tm) \<in> set (history (\<sigma> k))" for c a tm
    using fine_history [OF assms(1-4) _ assms(6) run assms(8-10) _ _ that] assms(11) k(1) by simp
  have "served_well iter ps t'" by (rule fine_outcome [OF assms(1-3) reach k(2) fine k(4)])
  with k show ?thesis by blast
qed

text \<open>
  C9. Requests and deliveries end: in every run the servers are given at most two commands for
  a POST request, twenty-one for a GET request of recommendations, one for a GET request of a
  product and four for a delivery, and from every state the threads that are under way can all
  be run to their end, whatever the servers answer.
\<close>

theorem pool_completes:
  assumes "\<And>xs. mset (iter xs) = mset xs" and "pool_reach iter (pool_of w) p"
  shows "length (history p) \<le> (\<Sum>i \<in> dom (tasks p). command_bound (the (tasks p i))) \<and>
    (\<exists>p'. pool_reach iter p p' \<and> tasks p' = tasks p \<and> settled iter p')"
  using history_bounded [OF assms] completion [OF assms(1)] history_length [OF assms(2)]
  by (simp add: settled_def)

text \<open>
  C10. Requests and deliveries that run one after another, as the programs are written, are
  among these interleavings: whatever world such a run reaches, the pool reaches with all its
  threads returned.
\<close>

theorem sequential_is_interleaving:
  assumes "reachable iter w w'"
  shows "\<exists>p. pool_reach iter (pool_of w) p \<and> settled iter p \<and> shared p = w'"
proof -
  have "reachable iter (shared (pool_of w)) w'" using assms by (simp add: pool_of_def)
  from reachable_in_pool [OF idle_pool_of this] show ?thesis
    by (auto simp: adds_settled_def settled_def pool_of_def)
qed

text \<open>
  C31. A user can be served a feed older than the last invalidation. A request that found no feed and has built
  one writes it with a command of its own. If the next waiting event of the user is delivered between
  its sources and that write, the row of the event is stored and what Redis holds of the user is deleted.
  If then another request of the user marks a visit, and only after it the first one stores the feed built without the
  event, the requests that follow are answered from this feed while it lives, although the message has been
  acknowledged and no server has failed. In the run that is given the clock of the server program reads \<open>now\<close>, any time from 1970 to
  2262, during both later requests, and the clock of the Redis server has not reached the end of the feed. (Without the
  visit in between the next request drops the old feed: C12.)
\<close>

theorem feed_outlives_invalidation:
  assumes "pool_reach iter (pool_of w) p" and "GetArg req ''user_id'' = ap_user_id q" and "ap_user_id q \<noteq> []"
    and "until_put iter stack_recommend (ap_user_id q) (shared p) = (Inr (Inr built), w1)"
    and "worker_queue (shared p) = ToString ref_json (action_doc q) # ms"
    and "\<not> has_row q (pg_master (shared p))" and "no_more_faults (shared p)"
    and "storable (shared p) q" and "0 \<le> now" and "now < 2 ^ 63"
    and "\<And>n. readings (srv_clk (shared p)) n < srv_time (shared p) + ns_of_secs kFeedKeyTtl"
  shows "\<exists>p1 p2 p3 i t. pool_reach iter p p1 \<and> has_row q (pg_master (shared p1)) \<and> worker_queue (shared p1) = ms \<and>
    redis_cached kv ref_json (shared p1) (ap_user_id q) = None \<and>
    pool_reach iter p1 p2 \<and> pg_master (shared p2) = pg_master (shared p1) \<and> worker_queue (shared p2) = ms \<and>
    redis_cached kv ref_json (shared p2) (ap_user_id q) = Some built \<and>
    pool_reach iter p2 p3 \<and> threads p2 i = None \<and> threads p3 i = Some t \<and> th_task t = Recommend req \<and>
    readings (th_sys_clk t) = (\<lambda>_. now) \<and>
    result iter t = Some (Inr (Responded (reply kOk (ToString ref_json (items_doc (TakeTop built kFeedListSize))))))"
proof -
  obtain p1 i th where p1: "pool_reach iter p p1" "idle p1" "threads p1 i = Some th"
    "waiting iter th = Some (feed_put (ap_user_id q) built)" "has_row q (pg_master (shared p1))"
    "worker_queue (shared p1) = ms" "redis_cached kv ref_json (shared p1) (ap_user_id q) = None"
    using built_and_delivered [OF idle_reach [OF assms(1) idle_pool_of] assms(2-8)] by blast
  note clk = srv_clk_reach [OF p1(1)]
  let ?L = "srv_time (shared p) + ns_of_secs kFeedKeyTtl"
  have "readings (srv_clk (shared p1)) n < ?L" for n using clk assms(11) by simp
  moreover have "?L \<le> srv_time (shared p1) + ns_of_secs kFeedKeyTtl" using clk by simp
  ultimately obtain p2 p3 j t where "pool_reach iter p1 p2" "pg_master (shared p2) = pg_master (shared p1)"
    "rb (shared p2) = rb (shared p1)" "redis_cached kv ref_json (shared p2) (ap_user_id q) = Some built"
    "pool_reach iter p2 p3" "threads p2 j = None" "threads p3 j = Some t" "th_task t = Recommend req"
    "readings (th_sys_clk t) = (\<lambda>_. now)"
    "result iter t = Some (Inr (Responded (reply kOk (ToString ref_json (items_doc (TakeTop built kFeedListSize))))))"
    using stale_feed_served [OF p1(2-4) assms(2,3,9,10) no_more_faults_reach [OF p1(1) assms(7)], of ?L] by blast
  with p1 show ?thesis
    by (intro exI [of _ p1] exI [of _ p2] exI [of _ p3] exI [of _ j] exI [of _ t]) (simp add: worker_queue_def)
qed


section \<open>The system run one request at a time\<close>

text \<open>The invariants and the progress of the worker, for runs without interleaving.\<close>

lemma system_safety:
  assumes "\<And>xs. mset (iter xs) = mset xs" and "sys_start w0" and "reachable iter w0 w"
  shows "keys_unique (pg_master w) \<and> (\<forall>a \<in> set (user_actions (pg_master w)). event_row a) \<and>
    (\<forall>m \<in> set (worker_queue w). event_message m) \<and>
    (\<forall>u ids. redis_cached kv ref_json w u = Some ids \<longrightarrow> good_feed ids)"
proof -
  have inv: "sys_inv w" by (rule sys_inv_reachable [OF assms(1) sys_inv_start [OF assms(2)] assms(3)])
  then have "\<forall>m \<in> set (worker_queue w). event_message m"
    using worker_queue_eq [of w] by (auto simp: sys_inv_def broker_inv_def)
  with inv show ?thesis by (simp add: sys_inv_def db_inv_def cache_inv_def redis_cached_def)
qed

lemma stored_actions_persist:
  assumes "reachable iter w w'"
  shows "\<exists>new. user_actions (pg_master w') = user_actions (pg_master w) @ new"
  using assms by (rule reachable_grows)

lemma worker_drains_queue:
  assumes "\<And>xs. mset (iter xs) = mset xs" and "sys_start w0" and "reachable iter w0 w" and "no_more_faults w"
  shows "\<exists>w'. reachable iter w w' \<and> (\<forall>m \<in> set (worker_queue w'). refused_message w' m) \<and>
    (\<forall>p. ToString ref_json (action_doc p) \<in> set (worker_queue w) \<longrightarrow> storable w p \<longrightarrow> has_row p (pg_master w'))"
  using drain [OF assms(4) sys_inv_reachable [OF assms(1) sys_inv_start [OF assms(2)] assms(3)]] by blast

section \<open>Examples\<close>

text \<open>One accepted request from an empty start, and two with the same key 48 hours apart.\<close>

definition start_world :: system_world where
  "start_world = stack_at (\<lambda>_. 0) (\<lambda>_. No_fault) Map.empty 0 (broker0 kTopic ''user.action'' []) 0"

definition posted_world :: system_world where
  "posted_world = snd (ActionHandler_HandleRequestThrow ref_json stack_action (post (view_payload ''k'')) start_world)"

lemma start_world_start: "sys_start start_world"
  by (simp add: sys_start_def start_world_def topology_def queues_def broker0_def worker_queue_def)
    (simp add: stack_at_def system_at_def redis_world.defs)

lemma posted_reachable: "reachable iter start_world posted_world"
  unfolding reachable_def posted_world_def
  by (rule r_into_rtranclp) (rule sys_step.post [OF prod.collapse [symmetric]])

lemma posted_run_of:
  assumes "valid_payload p"
  shows "HandleAction ref_json stack_action p start_world =
    (Inr Accepted, stack_at (\<lambda>_. 0) (\<lambda>_. No_fault)
      [IdempotencyKey (ap_idempotency_key p) \<mapsto> (''1'', Some (ns_of_secs kIdempotencyHold))] (Suc 0)
      (broker0 kTopic ''user.action'' [ToString ref_json (action_doc p)]) (Suc 0))"
  using assms by (simp add: start_world_def HandleAction_valid bindE_def stack_run stack_time_def image_constant_conv)

lemma posted_run:
  "HandleAction ref_json stack_action (view_payload ''k'') start_world =
    (Inr Accepted, stack_at (\<lambda>_. 0) (\<lambda>_. No_fault)
      [IdempotencyKey ''k'' \<mapsto> (''1'', Some (ns_of_secs kIdempotencyHold))] (Suc 0)
      (broker0 kTopic ''user.action'' [view_message]) (Suc 0))"
  by (simp add: posted_run_of view_action_eq)

lemma posted_world_eq: "posted_world = stack_at (\<lambda>_. 0) (\<lambda>_. No_fault)
    [IdempotencyKey ''k'' \<mapsto> (''1'', Some (ns_of_secs kIdempotencyHold))] (Suc 0)
    (broker0 kTopic ''user.action'' [view_message]) (Suc 0)"
  by (simp add: posted_world_def ActionHandler_payload [OF post_payload] posted_run)

lemma posted_queue: "worker_queue posted_world = [view_message]"
  by (simp add: posted_world_eq worker_queue_def queues_broker0)

lemma no_more_faults_posted: "no_more_faults posted_world"
  by (simp add: posted_world_eq no_more_faults_def) (simp add: stack_at_def system_at_def redis_world.defs)

lemma posted_pool:
  "\<exists>p i t. pool_reach rev (pool_of start_world) p \<and> shared p = posted_world \<and> threads p i = Some t \<and>
    accepted_post rev t (view_payload ''k'')"
proof -
  have "HandleAction ref_json stack_action (view_payload ''k'') (shared (pool_of start_world)) = (Inr Accepted, posted_world)"
    by (simp add: pool_of_def posted_run posted_world_eq)
  from post_in_pool [OF idle_pool_of post_payload this, of rev] show ?thesis by (metis fun_upd_same)
qed

theorem pool_safety_witness:
  "\<exists>p. pool_reach rev (pool_of start_world) p \<and> worker_queue (shared p) = [view_message] \<and>
    keys_unique (pg_master (shared p)) \<and> event_message view_message"
proof -
  obtain p where p: "pool_reach rev (pool_of start_world) p" "shared p = posted_world" using posted_pool by blast
  from pool_safety [where iter = rev, OF _ start_world_start p(1)] p show ?thesis
    by (auto simp: posted_queue)
qed

lemma posted_no_row: "\<not> has_row q (pg_master posted_world)"
  by (simp add: posted_world_eq has_row_def stack_at_def system_at_def redis_world.defs)

text \<open>An accepted event that a restart of the broker loses for good.\<close>

theorem accepted_event_kept_until_restart_witness:
  "\<exists>p i t. pool_reach rev (pool_of start_world) p \<and> threads p i = Some t \<and> accepted_post rev t (view_payload ''k'') \<and>
    view_message \<in> set (worker_queue (shared p)) \<and>
    (\<forall>p'. pool_reach rev (restart_broker p) p' \<longrightarrow>
      worker_queue (shared p') = [] \<and> \<not> has_row (view_payload ''k'') (pg_master (shared p')))"
proof -
  have "HandleAction ref_json stack_action (view_payload ''k'') (shared (pool_of start_world)) = (Inr Accepted, posted_world)"
    by (simp add: pool_of_def posted_run posted_world_eq)
  from post_in_pool [OF idle_pool_of post_payload this, of rev] obtain p i t where
    p: "pool_reach rev (pool_of start_world) p" "shared p = posted_world"
      "threads p = (threads (pool_of start_world))(i \<mapsto> t)" "accepted_post rev t (view_payload ''k'')"
      "th_task t = Post (post (view_payload ''k''))" by blast
  then have t: "threads p i = Some t" and "none_delivers rev p"
    by (auto simp: none_delivers_def pool_of_def split: if_splits)
  with accepted_event_kept_until_restart [where iter = rev, OF _ start_world_start p(1) t p(4)]
  have "\<forall>p'. pool_reach rev (restart_broker p) p' \<longrightarrow>
      worker_queue (shared p') = [] \<and> pg_master (shared p') = pg_master posted_world"
    by (simp add: p(2))
  with posted_no_row have "\<forall>p'. pool_reach rev (restart_broker p) p' \<longrightarrow>
      worker_queue (shared p') = [] \<and> \<not> has_row (view_payload ''k'') (pg_master (shared p'))" by simp
  with p(1,2,4) t posted_queue show ?thesis by (intro exI [of _ p] exI [of _ i] exI [of _ t]) simp
qed

lemma nothing_refused:
  assumes "pool_reach rev (pool_of start_world) p"
  shows "storable (shared p) q" and "\<not> refused_message (shared p) m"
proof -
  have "pg_refuses start_world = (\<lambda>_. False)"
    by (simp add: start_world_def stack_at_def system_at_def redis_world.defs)
  with refuses_reach [OF assms] show s: "storable (shared p) q" for q by (simp add: storable_def pool_of_def)
  show "\<not> refused_message (shared p) m" by (simp add: refused_message_def s)
qed

theorem pool_settles_witness:
  "\<exists>p'. pool_reach rev (pool_of start_world) p' \<and> worker_queue (shared p') = [] \<and>
    has_row (view_payload ''k'') (pg_master (shared p'))"
proof -
  obtain p i t where p: "pool_reach rev (pool_of start_world) p" "shared p = posted_world" "threads p i = Some t"
    "accepted_post rev t (view_payload ''k'')" using posted_pool by blast
  have "no_more_faults (shared p)" by (simp add: p(2) no_more_faults_posted)
  from pool_settles [where iter = rev, OF _ start_world_start p(1) this] p(3,4) nothing_refused(1) [OF p(1)]
  obtain p' where p': "pool_reach rev p p'" "\<forall>m \<in> set (worker_queue (shared p')). refused_message (shared p') m"
    "has_row (view_payload ''k'') (pg_master (shared p'))" by auto
  then have reach: "pool_reach rev (pool_of start_world) p'"
    using p(1) rtranclp_trans [of "pool_step rev"] unfolding pool_reach_def by blast
  with p'(2) nothing_refused(2) [OF reach] have "worker_queue (shared p') = []" by (cases "worker_queue (shared p')") auto
  with reach p'(3) show ?thesis by blast
qed

lemma hold_posts:
  "\<exists>w w1 w2 :: system_world. HandleAction ref_json stack_action (view_payload ''k'') w = (Inr Accepted, w1) \<and>
    HandleAction ref_json stack_action (view_payload ''k'') w1 = (Inr Accepted, w2)"
  by (rule exI [of _ "stack_at hold_clock (\<lambda>_. No_fault) Map.empty 0 (broker0 kTopic ''user.action'' []) 0"])
    (simp add: HandleAction_valid bindE_def stack_run hold_clock_time)

theorem pool_accepted_spaced_witness:
  "\<exists>w p i j t t' s s'. pool_reach rev (pool_of w) p \<and> threads p i = Some t \<and> threads p j = Some t' \<and> i \<noteq> j \<and>
    accepted_post rev t (view_payload ''k'') \<and> accepted_post rev t' (view_payload ''k'') \<and>
    (i, reserve_call ''k'', ABool (Inr True), s) \<in> set (history p) \<and>
    (j, reserve_call ''k'', ABool (Inr True), s') \<in> set (history p) \<and>
    (s + ns_of_secs kIdempotencyHold \<le> s' \<or> s' + ns_of_secs kIdempotencyHold \<le> s)"
proof -
  obtain w w1 w2 :: system_world where run: "HandleAction ref_json stack_action (view_payload ''k'') w = (Inr Accepted, w1)"
    "HandleAction ref_json stack_action (view_payload ''k'') w1 = (Inr Accepted, w2)" using hold_posts by blast
  let ?a = "\<lambda>t. th_task t = Post (post (view_payload ''k'')) \<and> accepted_post rev t (view_payload ''k'')"
  have "HandleAction ref_json stack_action (view_payload ''k'') (shared (pool_of w)) = (Inr Accepted, w1)"
    using run(1) by (simp add: pool_of_def)
  from post_in_pool [OF idle_pool_of post_payload this, of rev] obtain p i t where
    p: "pool_reach rev (pool_of w) p" "idle p" "shared p = w1" "threads p = (threads (pool_of w))(i \<mapsto> t)" "?a t"
    by blast
  then have one: "threads p = [i \<mapsto> t]" by (simp add: pool_of_def)
  from post_in_pool [OF p(2) post_payload, of w2 rev] run(2) p(3) obtain p' j t' where
    p': "pool_reach rev p p'" "threads p j = None" "threads p' = (threads p)(j \<mapsto> t')" "?a t'" by auto
  have reach: "pool_reach rev (pool_of w) p'"
    using p(1) p'(1) rtranclp_trans [of "pool_step rev"] unfolding pool_reach_def by blast
  have ne: "i \<noteq> j" using one p'(2) by auto
  then have ran: "\<forall>t \<in> ran (threads p'). calm (th_task t)" and th: "threads p' i = Some t" "threads p' j = Some t'"
    using one p(5) p'(3,4) by (auto simp: ran_def)
  have k: "ap_idempotency_key (view_payload ''k'') = ''k''" by (simp add: view_payload_def)
  have acc: "accepted_post rev t (view_payload ''k'')" "accepted_post rev t' (view_payload ''k'')"
    using p(5) p'(4) by blast+
  from pool_accepted_spaced [where iter = rev, OF _ reach ran th ne acc refl, unfolded k] reach th ne acc
  show ?thesis by simp blast
qed

definition get_u :: http_request where
  "get_u = \<lparr>hr_header = Map.empty, hr_arg = [''user_id'' \<mapsto> ''u''], hr_body = []\<rparr>"

lemma get_u_arg: "GetArg get_u ''user_id'' = ''u''"
  by (simp add: get_u_def GetArg_def)

lemma healthy_start: "healthy u start_world"
  by (simp add: healthy_def no_more_faults_def castable_def start_world_def)
    (simp add: stack_at_def system_at_def redis_world.defs)

lemma healthy_posted: "healthy u posted_world"
  by (simp add: healthy_def no_more_faults_posted castable_def)
    (simp add: posted_world_eq stack_at_def system_at_def redis_world.defs)

lemma recommend_pool:
  "\<exists>p i t. pool_reach rev (pool_of start_world) p \<and> settled rev p \<and> threads p i = Some t \<and> th_task t = Recommend get_u \<and>
    (\<exists>ids. result rev t = Some (Inr (Responded (reply kOk (ToString ref_json (items_doc ids)))))) \<and>
    worker_queue (shared p) = [] \<and> user_actions (pg_master (shared p)) = []"
proof -
  obtain ids w' where rec: "GetRecommendations rev stack_recommend ''u'' start_world = (Inr ids, w')"
    using returns_healthyD [OF healthy_GetRecommendations healthy_start, of rev "''u''"] by blast
  then have "task_prog rev ref_servers (Recommend get_u) (shared (pool_of start_world)) =
      (Inr (Responded (reply kOk (ToString ref_json (items_doc ids)))), w')"
    by (simp add: RecommendHandler_HandleRequestThrow_def get_u_arg pool_of_def)
  from task_run [OF idle_pool_of _ this] obtain p i t where
    p: "pool_reach rev (pool_of start_world) p" "shared p = w'" "threads p = (threads (pool_of start_world))(i \<mapsto> t)"
      "th_task t = Recommend get_u"
      "result rev t = Some (Inr (Responded (reply kOk (ToString ref_json (items_doc ids)))))" by blast
  have "rb w' = rb start_world" "pg_master w' = pg_master start_world"
    using stack_recommend_apart [OF rec] by blast+
  then have "worker_queue w' = []" "user_actions (pg_master w') = []"
    using start_world_start by (simp_all add: sys_start_def worker_queue_def)
  with p show ?thesis
    by (intro exI [of _ p] exI [of _ i] exI [of _ t]) (auto simp: settled_def pool_of_def)
qed

lemma start_world_catalogue: "catalogue [] start_world" "user_actions (pg_replica start_world) = []"
  by (simp_all add: catalogue_def start_world_def stack_at_def system_at_def redis_world.defs)

text \<open>On empty tables the ranking of the user is all there is.\<close>

lemma sources_of_empty:
  assumes "sources_ok [] [] u s"
  shows "src_history s = []" "src_popular s = []" "src_similar s = []" "src_gpt_ranked s = demo_ranking 100"
proof -
  have none: "window_rows Q now days db = []" if "snapshot [] [] db" for Q now days db
    using that by (auto simp: window_rows_def snapshot_def)
  have plan: "scan_order plan [] = []" "sub_order plan [] = []" if "valid_plan plan" for plan
    using that unfolding valid_plan_def by (metis mset_zero_iff)+
  have "selected [] [] (kRecentProductIds v (int n) d) ids \<Longrightarrow> ids = []" "popular_ids [] [] (int n) ids \<Longrightarrow> ids = []" for v n d ids
    by (auto simp: selected_def none plan popular_order_def latest_per_product_def rank_rows_def
        dest!: kRecentProductIds_rows kPopularProductIds_rows)
  from this(1) [of _ 120] this(2) [of 120] assms show h: "src_history s = []" "src_popular s = []"
    by (auto simp: sources_ok_def)
  with assms show "src_similar s = []" "src_gpt_ranked s = demo_ranking 100"
    by (simp_all add: sources_ok_def similar_anchor_def Let_def stub_RankProductIds_def kGptRecommendationIds_def demo_ranking_def)
qed

lemma demo_ranking_ranked:
  assumes "sources_ok [] [] u s"
  shows "source_ids s = set (demo_ranking 100)" "sorted_wrt (ranked_before s) (demo_ranking 100)"
proof -
  note src = sources_of_empty [OF assms]
  show "source_ids s = set (demo_ranking 100)" by (simp add: source_ids_def src)
  have "count_list (demo_ranking 100) (9000 + of_nat i) = 1" if "i < 100" for i
    using that by (simp add: count_list_distinct [OF distinct_demo_ranking] set_demo_ranking)
  then have "weight s (9000 + of_nat i) = 4" if "i < 100" for i using that by (simp add: weight_def src)
  then have "ranked_before s (9000 + of_nat i) (9000 + of_nat j)" if "i < j" "j < 100" for i j
    using that by (simp add: ranked_before_def sint_ranking)
  then show "sorted_wrt (ranked_before s) (demo_ranking 100)"
    unfolding demo_ranking_def sorted_wrt_map by (intro sorted_wrt_mono_rel [OF _ sorted_wrt_upt]) auto
qed

theorem recommendations_ranked_witness:
  "\<exists>p i t. pool_reach rev (pool_of start_world) p \<and> threads p i = Some t \<and> th_task t = Recommend get_u \<and>
    result rev t = Some (Inr (Responded (reply kOk (ToString ref_json (items_doc (demo_ranking 50))))))"
proof -
  obtain p i t ids where p: "pool_reach rev (pool_of start_world) p" "threads p i = Some t" "th_task t = Recommend get_u"
    "result rev t = Some (Inr (Responded (reply kOk (ToString ref_json (items_doc ids)))))"
    and e: "user_actions (pg_master (shared p)) = []"
    using recommend_pool by blast
  have arg: "GetArg get_u ''user_id'' \<noteq> []" by (simp add: get_u_arg)
  obtain s L where s: "sources_ok [] [] ''u'' s" "set L = source_ids s" "sorted_wrt (ranked_before s) L"
    "reply kOk (ToString ref_json (items_doc ids)) = reply kOk (ToString ref_json (items_doc (take 50 L)))"
    using recommendations_ranked [where iter = rev, OF _ start_world_start start_world_catalogue p(1-3) arg p(4)]
    by (auto simp: e get_u_arg)
  have "L = demo_ranking 100" using ranked_unique [OF s(3)] s(2) demo_ranking_ranked [OF s(1)] by blast
  then have "take 50 L = demo_ranking 50" by (simp add: demo_ranking_def take_map)
  with p s(4) show ?thesis by metis
qed

theorem fair_requests_answered_witness:
  "\<exists>\<sigma> k i t. \<sigma> 0 = pool_of start_world \<and> fair_run rev \<sigma> \<and> threads (\<sigma> k) i = Some t \<and> th_task t = Recommend get_u \<and>
    served_well rev [] t"
proof -
  obtain p i t where p: "pool_reach rev (pool_of start_world) p" "settled rev p" "threads p i = Some t"
    "th_task t = Recommend get_u" "worker_queue (shared p) = []" "user_actions (pg_master (shared p)) = []"
    using recommend_pool by blast
  obtain \<sigma> N where s: "\<sigma> 0 = pool_of start_world" "pool_run rev \<sigma>" "\<forall>n \<ge> N. \<sigma> n = p"
    using reach_run [OF p(1)] by blast
  have fair: "fair_run rev \<sigma>" by (rule settled_run_fair [OF s(2,3) p(2,5)])
  have "user_actions (pg_master (shared (\<sigma> k))) = []" for k
    using pool_grows [OF _ pool_run_reach [OF s(2), of k "max N k"]] s(3) p(6) by fastforce
  then have fit: "ids_fit (pg_master (shared (\<sigma> k)))" for k by (simp add: ids_fit_def)
  have w: "unfailing (shared (\<sigma> 0))"
    by (simp add: s(1) pool_of_def unfailing_def no_more_faults_def start_world_def)
      (simp add: stack_at_def system_at_def redis_world.defs)
  have taken: "texts_taken start_world (Recommend get_u)"
    by (simp add: start_world_def stack_at_def system_at_def redis_world.defs)
  have "threads (\<sigma> 0) i = None" by (simp add: s(1) pool_of_def)
  from fair_requests_answered [where iter = rev and ps = "[]" and \<sigma> = \<sigma>, OF _ start_world_start start_world_catalogue(1) _ start_world_catalogue(2)
      s(1) fair fit w this]
    s(3) p(3,4) taken have "\<exists>k t'. threads (\<sigma> k) i = Some t' \<and> th_task t' = Recommend get_u \<and> served_well rev [] t'"
    by (metis distinct.simps(1) le0 list.simps(8) mset_rev order_refl)
  with s(1) fair show ?thesis by blast
qed

theorem pool_responses_witness:
  "\<exists>p i t ids. pool_reach rev (pool_of start_world) p \<and> threads p i = Some t \<and> th_task t = Recommend get_u \<and>
    result rev t = Some (Inr (Responded (reply kOk (ToString ref_json (items_doc ids))))) \<and>
    length ids \<le> 50 \<and> distinct ids"
proof -
  obtain p i t ids where p: "pool_reach rev (pool_of start_world) p" "threads p i = Some t" "th_task t = Recommend get_u"
    "result rev t = Some (Inr (Responded (reply kOk (ToString ref_json (items_doc ids)))))"
    using recommend_pool by blast
  from pool_responses [where iter = rev, OF _ start_world_start start_world_catalogue(1) p(1,2,4)] p show ?thesis
    by (fastforce simp: get_u_arg)
qed

theorem pool_completes_witness:
  "\<exists>p p'. pool_reach rev (pool_of start_world) p \<and> worker_queue (shared p) = [view_message] \<and>
    length (history p) \<le> (\<Sum>i \<in> dom (tasks p). command_bound (the (tasks p i))) \<and>
    pool_reach rev p p' \<and> settled rev p'"
proof -
  obtain p where p: "pool_reach rev (pool_of start_world) p" "shared p = posted_world" using posted_pool by blast
  from pool_completes [where iter = rev, OF _ p(1)] p show ?thesis by (auto simp: posted_queue)
qed

theorem feed_outlives_invalidation_witness:
  "\<exists>p1 p2 p3 i t built. pool_reach rev (pool_of start_world) p1 \<and> has_row (view_payload ''k'') (pg_master (shared p1)) \<and>
    worker_queue (shared p1) = [] \<and> redis_cached kv ref_json (shared p1) ''u'' = None \<and>
    pool_reach rev p1 p2 \<and> redis_cached kv ref_json (shared p2) ''u'' = Some built \<and>
    pool_reach rev p2 p3 \<and> threads p2 i = None \<and> threads p3 i = Some t \<and> th_task t = Recommend get_u \<and>
    result rev t = Some (Inr (Responded (reply kOk (ToString ref_json (items_doc (TakeTop built kFeedListSize))))))"
proof -
  obtain p where p: "pool_reach rev (pool_of start_world) p" "shared p = posted_world" using posted_pool by blast
  have u: "ap_user_id (view_payload ''k'') = ''u''" by (simp add: view_payload_def)
  obtain x w1 where put: "until_put rev stack_recommend ''u'' posted_world = (Inr x, w1)"
    using returns_healthyD [OF healthy_until_put healthy_posted, of rev "''u''"] by blast
  have "redis_cached kv ref_json posted_world ''u'' = None"
    by (simp add: posted_world_eq redis_cached_def feeds_of_def key_defs)
  from until_put_builds [OF this put] obtain built where "x = Inr built" by blast
  with put have put: "until_put rev stack_recommend (ap_user_id (view_payload ''k'')) (shared p) = (Inr (Inr built), w1)"
    by (simp add: u p(2))
  have "worker_queue (shared p) = ToString ref_json (action_doc (view_payload ''k'')) # []"
    by (simp add: p(2) posted_queue view_action_eq)
  moreover have "no_more_faults (shared p)" by (simp add: p(2) no_more_faults_posted)
  moreover have "readings (srv_clk posted_world) n < srv_time posted_world + ns_of_secs kFeedKeyTtl" for n
    by (simp add: posted_world_eq stack_at_def system_at_def redis_world.defs srv_time_def image_constant_conv
        ns_of_secs_def ns_per_sec_def kFeedKeyTtl_def)
  ultimately obtain p1 p2 p3 i t where "pool_reach rev p p1" "has_row (view_payload ''k'') (pg_master (shared p1))"
    "worker_queue (shared p1) = []" "redis_cached kv ref_json (shared p1) ''u'' = None"
    "pool_reach rev p1 p2" "redis_cached kv ref_json (shared p2) ''u'' = Some built"
    "pool_reach rev p2 p3" "threads p2 i = None" "threads p3 i = Some t" "th_task t = Recommend get_u"
    "result rev t = Some (Inr (Responded (reply kOk (ToString ref_json (items_doc (TakeTop built kFeedListSize))))))"
    using feed_outlives_invalidation [OF p(1) _ _ put, of get_u "[]" 0] nothing_refused(1) [OF p(1)] posted_no_row
    by (auto simp: u get_u_arg p(2))
  with p(1) pool_reach_trans show ?thesis by blast
qed

theorem fair_runs_settle_witness:
  "\<exists>\<sigma> k. \<sigma> 0 = pool_of start_world \<and> fair_run rev \<sigma> \<and> (\<forall>m \<ge> k. has_row (view_payload ''k'') (pg_master (shared (\<sigma> m))))"
proof -
  obtain p i t where p: "pool_reach rev (pool_of start_world) p" "shared p = posted_world" "threads p i = Some t"
    "accepted_post rev t (view_payload ''k'')" using posted_pool by blast
  have "no_more_faults (shared p)" by (simp add: p(2) no_more_faults_posted)
  from settle [where iter = rev, OF _ start_world_start p(1) this] obtain p' where
    p': "pool_reach rev p p'" "settled rev p'" "\<forall>m \<in> set (worker_queue (shared p')). refused_message (shared p') m" by auto
  have reach: "pool_reach rev (pool_of start_world) p'"
    using p(1) p'(1) rtranclp_trans [of "pool_step rev"] unfolding pool_reach_def by blast
  have "worker_queue (shared p') = []" using p'(3) nothing_refused(2) [OF reach] by (cases "worker_queue (shared p')") auto
  note p' = p'(1,2) this
  obtain \<sigma> N where s: "\<sigma> 0 = pool_of start_world" "pool_run rev \<sigma>" "\<forall>n \<ge> N. \<sigma> n = p'"
    using reach_run [OF reach] by blast
  have fair: "fair_run rev \<sigma>" by (rule settled_run_fair [OF s(2,3) p'(2,3)])
  have "result rev t \<noteq> None" using p(4) by (auto simp: accepted_post_def)
  then have "threads p' i = Some t" by (rule returned_reach [OF p'(1) p(3)])
  moreover have "no_more_faults (shared p')" using no_more_faults_reach [OF p'(1)] by (simp add: p(2) no_more_faults_posted)
  ultimately have "\<exists>k \<ge> N. \<forall>m \<ge> k. has_row (view_payload ''k'') (pg_master (shared (\<sigma> m)))"
    using fair_runs_settle [where iter = rev, OF _ start_world_start s(1) fair, THEN conjunct2] s(3) p(4) nothing_refused(1) [OF reach]
    by (metis mset_rev order_refl)
  with s(1) fair show ?thesis by blast
qed







theorem sequential_is_interleaving_witness:
  "\<exists>p. pool_reach rev (pool_of start_world) p \<and> settled rev p \<and> worker_queue (shared p) = [view_message]"
  using sequential_is_interleaving [OF posted_reachable, of rev] by (auto simp: posted_queue)

section \<open>The default build\<close>

text \<open>One request on objects that hold good feeds, for any JSON library.\<close>

lemma recommend_handler_default_build:
  assumes "\<And>xs. mset (iter xs) = mset xs"
    and "\<And>v c. feed (bw_data w) v = Some c \<Longrightarrow> good_feed (fc_ids c)"
    and "GetArg req ''user_id'' \<noteq> []" and "\<And>ids. codec_ok J (items_doc ids)"
  shows "\<exists>ids w'. RecommendHandler_HandleRequestThrow J iter beans_recommend req w =
      (Inr (reply kOk (ToString J (items_doc ids))), w') \<and>
    FromString J (ToString J (items_doc ids)) = Inr (JObject [(''items'', JArray (map JInt64 ids))]) \<and>
    length ids \<le> 50 \<and> distinct ids"
proof -
  obtain ids w' where run: "GetRecommendations iter beans_recommend (GetArg req ''user_id'') w = (Inr ids, w')"
    using returns_GetRecommendations [unfolded returns_def] by metis
  have "beans_recommend.feeds_good w"
    using assms(2) by (auto simp: beans_recommend.feeds_good_def mem_cached_def)
  from ensuresD(2) [OF beans_recommend.GetRecommendations_good [OF assms(1)] this run refl]
    GetRecommendations_length [OF run] run assms(3,4) [unfolded codec_ok_def]
  show ?thesis
    by (auto simp: RecommendHandler_HandleRequestThrow_def Let_def ttl_consts items_doc_def ids_json_def)
qed

text \<open>
  C13. The default build, whose requests share the objects in the process, answers every request in every
  interleaving. From every state that can be reached, a request can be served to its end, and
  however it ended it has a response: \<^verbatim>\<open>POST /action\<close> is accepted exactly when it carries a
  valid payload, never refused for what the objects do; \<^verbatim>\<open>GET /recommend\<close> gets one and the same list,
  five products of the stub catalogue before forty-five ids of the stub ranking, whether it was
  built or cached, by whom and when; \<^verbatim>\<open>GET /product\<close> gets the row of the stub catalogue.
\<close>

theorem default_build_answers:
  assumes "\<And>xs. mset (iter xs) = mset xs" and "beans_reach iter (beans_start c d) p" and "requests p i = Some t"
  shows "(\<exists>p' t'. beans_reach iter p p' \<and> requests p' i = Some t' \<and> bt_task t' = bt_task t \<and> beans_result iter t' \<noteq> None) \<and>
    (\<forall>r. beans_result iter t = Some r \<longrightarrow> (\<exists>resp. r = Inr resp \<and> (case bt_task t of
        BPost req \<Rightarrow> rsp_status resp = (case request_payload ref_json req of None \<Rightarrow> kBadRequest
          | Some q \<Rightarrow> if valid_payload q then kAccepted else kBadRequest)
      | BRecommend req \<Rightarrow> resp = (if GetArg req ''user_id'' = [] then reply kBadRequest (JsonError ref_json ''missing_user_id'')
          else reply kOk (ToString ref_json (items_doc ([10, 20, 30, 40, 50] @ map (\<lambda>i. 9000 + of_nat i) [0..<45]))))
      | BProduct req \<Rightarrow> resp = demo_product req)))"
proof (intro conjI allI impI)
  show "\<exists>p' t'. beans_reach iter p p' \<and> requests p' i = Some t' \<and> bt_task t' = bt_task t \<and> beans_result iter t' \<noteq> None"
    by (rule beans_run_on [OF assms(3)])
next
  fix r assume r: "beans_result iter t = Some r"
  from demo_result [OF assms r] obtain resp where resp: "r = Inr resp" "demo_response (bt_task t) resp" by blast
  show "\<exists>resp. r = Inr resp \<and> (case bt_task t of
        BPost req \<Rightarrow> rsp_status resp = (case request_payload ref_json req of None \<Rightarrow> kBadRequest
          | Some q \<Rightarrow> if valid_payload q then kAccepted else kBadRequest)
      | BRecommend req \<Rightarrow> resp = (if GetArg req ''user_id'' = [] then reply kBadRequest (JsonError ref_json ''missing_user_id'')
          else reply kOk (ToString ref_json (items_doc ([10, 20, 30, 40, 50] @ map (\<lambda>i. 9000 + of_nat i) [0..<45]))))
      | BProduct req \<Rightarrow> resp = demo_product req)"
  proof (cases "bt_task t")
    case (BPost req)
    with demo_post [OF assms r [unfolded resp(1)]] resp(1) show ?thesis by simp
  qed (use resp in \<open>simp_all add: demo_feed_def demo_ranking_def\<close>)
qed

theorem default_build_answers_witness:
  "\<exists>p i t. beans_reach rev (beans_start still_clock still_clock) p \<and> requests p i = Some t \<and> bt_task t = BRecommend get_u \<and>
    beans_result rev t = Some (Inr (reply kOk (ToString ref_json (items_doc ([10, 20, 30, 40, 50] @ map (\<lambda>i. 9000 + of_nat i) [0..<45])))))"
proof -
  let ?p0 = "beans_start still_clock still_clock" and ?t = "fresh_request (BRecommend get_u) still_clock still_clock"
  let ?p1 = "?p0\<lparr>requests := (requests ?p0)(0 \<mapsto> ?t)\<rparr>"
  have start: "beans_reach rev ?p0 ?p1"
    unfolding beans_reach_def by (intro r_into_rtranclp beans_step.start) (simp add: beans_start_def)
  from default_build_answers [where iter = rev, OF _ start, of 0 ?t]
  obtain p t where p: "beans_reach rev ?p1 p" "requests p 0 = Some t" "bt_task t = BRecommend get_u" "beans_result rev t \<noteq> None"
    by auto
  have reach: "beans_reach rev ?p0 p" using start p(1) unfolding beans_reach_def by (rule rtranclp_trans)
  from default_build_answers [where iter = rev, OF _ reach p(2)] p show ?thesis
    by (intro exI [of _ p] exI [of _ 0] exI [of _ t]) (auto simp: get_u_arg reach)
qed

text \<open>
  C14. In the default build, too, one idempotency key is accepted at most once in 48 hours: two requests with
  one key that are answered as accepted, in whatever interleaving, were granted their tokens at readings of the
  steady clock at least the hold time apart, and each has put its event into the log of the queue.
\<close>

theorem default_build_spaced:
  assumes "beans_reach iter (beans_start c d) p" and "requests p i = Some t" and "requests p j = Some t'" and "i \<noteq> j"
    and "beans_accepted iter t q" and "beans_accepted iter t' q'" and "ap_idempotency_key q' = ap_idempotency_key q"
  shows "\<exists>s s'. (i, reserve_key (ap_idempotency_key q), RBool True, s) \<in> set (calls p) \<and>
    (j, reserve_key (ap_idempotency_key q), RBool True, s') \<in> set (calls p) \<and>
    (s + ns_of_secs kIdempotencyHold \<le> s' \<or> s' + ns_of_secs kIdempotencyHold \<le> s) \<and>
    {(''user.action'', ToString ref_json (action_doc q)), (''user.action'', ToString ref_json (action_doc q'))}
      \<subseteq> set (bw_log (objects p))"
proof -
  have event: "(''user.action'', ToString ref_json (action_doc r)) \<in> set (bw_log (objects p))"
    if "(k, publish_event r, RUnit (), tm) \<in> set (calls p)" for k r tm
    unfolding log_reach [OF assms(1)] published_def set_concat set_map
    by (rule UN_I [OF imageI [OF that]]) (simp add: publish_event_def)
  note heard = beans_dialogue_calls [OF assms(1)]
  obtain s s' where g: "(i, reserve_key (ap_idempotency_key q), RBool True, s) \<in> set (calls p)"
    "(j, reserve_key (ap_idempotency_key q), RBool True, s') \<in> set (calls p)"
    using heard [OF assms(2) accepted_dialogue(1) [OF assms(5)]] heard [OF assms(3) accepted_dialogue(1) [OF assms(6)]] assms(7)
    by auto
  moreover have "s + ns_of_secs kIdempotencyHold \<le> s' \<or> s' + ns_of_secs kIdempotencyHold \<le> s"
    using grants_apart_reach [OF assms(1)] g assms(4) unfolding grants_apart_def by blast
  moreover have "{(''user.action'', ToString ref_json (action_doc q)), (''user.action'', ToString ref_json (action_doc q'))}
      \<subseteq> set (bw_log (objects p))"
    using heard [OF assms(2) accepted_dialogue(2) [OF assms(5)]] heard [OF assms(3) accepted_dialogue(2) [OF assms(6)]] event
    by blast
  ultimately show ?thesis by blast
qed

theorem default_build_spaced_witness:
  "\<exists>p. beans_reach rev (beans_start still_clock still_clock) p \<and>
    (\<exists>s s'. (0, reserve_key ''k'', RBool True, s) \<in> set (calls p) \<and> (1, reserve_key ''k'', RBool True, s') \<in> set (calls p) \<and>
      (s + ns_of_secs kIdempotencyHold \<le> s' \<or> s' + ns_of_secs kIdempotencyHold \<le> s))"
proof -
  let ?p0 = "beans_start still_clock still_clock" and ?hold = "ns_of_secs kIdempotencyHold"
  have valid: "valid_payload (view_payload ''k'')" by simp
  obtain p1 t where p1: "beans_reach rev ?p0 p1" "requests p1 = (requests ?p0)(0 \<mapsto> t)" "beans_accepted rev t (view_payload ''k'')"
    "idempotency (bw_data (objects p1)) ''k'' = Some (0 + ?hold)"
    using accept_post [of ?p0 0 "post (view_payload ''k'')" "view_payload ''k''" 0 rev, OF _ post_payload valid]
    by (auto simp: beans_start_def beans_init_def rhythm_data_init_def)
  obtain p2 t' where p2: "beans_reach rev p1 p2" "requests p2 = (requests p1)(1 \<mapsto> t')" "beans_accepted rev t' (view_payload ''k'')"
    using accept_post [of p1 1 "post (view_payload ''k'')" "view_payload ''k''" "0 + ?hold" rev, OF _ post_payload valid] p1(2,4)
    by (auto simp: beans_start_def)
  have reach: "beans_reach rev ?p0 p2" using p1(1) p2(1) unfolding beans_reach_def by (rule rtranclp_trans)
  have th: "requests p2 0 = Some t" "requests p2 1 = Some t'" using p1(2) p2(2) by simp_all
  from default_build_spaced [OF reach th _ p1(3) p2(3) refl] reach show ?thesis by auto
qed

end
